(* ===== verification/Prelude.thy ===== *)
theory Prelude
  imports "HOL-Library.Word" "HOL-Library.AList" "HOL-Library.Multiset" "HOL-Library.Monad_Syntax"
begin

text \<open>
  Shared vocabulary of the development: machine integers, the panic monad, slices and
  copies on byte buffers, the big-endian and little-endian integer encodings, Rust's
  saturating arithmetic, hash tables as association lists together with their unspecified
  iteration order, and the lemmas on them that every component uses.
\<close>

unbundle bit_operations_syntax

section \<open>Machine integers and bytes\<close>

type_synonym u8 = "8 word"
type_synonym u16 = "16 word"
type_synonym u32 = "32 word"
type_synonym u64 = "64 word"
type_synonym i32 = "32 word" \<comment> \<open>two's complement, compared with the signed orders\<close>
type_synonym bytes = "8 word list"

text \<open>
  Collections: \<open>width\<close> holds the length facts of fixed-size encodings, \<open>sat\<close> the
  \<open>nat\<close> readings of the saturating operations, \<open>panic_iff\<close> the inversion rules of the
  panic monad.
\<close>

named_theorems width
named_theorems sat
named_theorems panic_iff

section \<open>Panics\<close>

text \<open>
  A Rust panic is the value \<open>None\<close> of an option; a computation that returns is
  \<open>Some\<close>. Errors that the code returns as values are sums inside the option.
\<close>

lemma bind_Some_iff [panic_iff]:
  "Option.bind m f = Some y \<longleftrightarrow> (\<exists>x. m = Some x \<and> f x = Some y)"
  by (cases m) auto

lemma if_Some_iff [panic_iff]:
  "(if b then Some x else None) = Some y \<longleftrightarrow> b \<and> x = y"
  by auto

text \<open>\<open>&b[i..j]\<close>: panics when the range does not fit.\<close>

definition slice :: "'a list \<Rightarrow> nat \<Rightarrow> nat \<Rightarrow> 'a list option" where
  "slice b i j = (if i \<le> j \<and> j \<le> length b then Some (take (j - i) (drop i b)) else None)"

text \<open>\<open>out[i..j].copy_from_slice(src)\<close>: panics when the range does not fit or the lengths differ.\<close>

definition copy_into :: "'a list \<Rightarrow> nat \<Rightarrow> nat \<Rightarrow> 'a list \<Rightarrow> 'a list option" where
  "copy_into out i j src =
     (if i \<le> j \<and> j \<le> length out \<and> length src = j - i
      then Some (take i out @ src @ drop j out) else None)"

lemma slice_Some: "i \<le> j \<Longrightarrow> j \<le> length b \<Longrightarrow> slice b i j = Some (take (j - i) (drop i b))"
  by (simp add: slice_def)

lemma slice_length: "slice b i j = Some s \<Longrightarrow> length s = j - i"
  by (auto simp: slice_def split: if_splits)

lemma slice_append: "i = length a \<Longrightarrow> j = i + length b \<Longrightarrow> slice (a @ b @ c) i j = Some b"
  by (simp add: slice_def)

lemma copy_into_Some:
  "i \<le> j \<Longrightarrow> j \<le> length out \<Longrightarrow> length src = j - i \<Longrightarrow>
   copy_into out i j src = Some (take i out @ src @ drop j out)"
  by (simp add: copy_into_def)

lemma copy_into_length: "copy_into out i j src = Some out' \<Longrightarrow> length out' = length out"
  by (auto simp: copy_into_def split: if_splits)

text \<open>Filling the part of a buffer that follows a finished prefix.\<close>

lemma copy_into_prefix:
  assumes "i = length a" "j = i + length src" "length src \<le> length b"
  shows "copy_into (a @ b) i j src = Some ((a @ src) @ drop (length src) b)"
  using assms by (simp add: copy_into_def)

lemma copy_into_prefix_iff:
  assumes "i = length a" "j = i + length src"
  shows "copy_into (a @ b) i j src =
    (if length src \<le> length b then Some ((a @ src) @ drop (length src) b) else None)"
  using assms by (auto simp: copy_into_def)

section \<open>Big-endian and little-endian integers\<close>

primrec be_enc :: "nat \<Rightarrow> nat \<Rightarrow> bytes" where
  "be_enc 0 v = []"
| "be_enc (Suc n) v = be_enc n (v div 256) @ [word_of_nat (v mod 256)]"

definition be_val :: "bytes \<Rightarrow> nat" where
  "be_val bs = foldl (\<lambda>a b. a * 256 + unat b) 0 bs"

lemma be_val_Nil [simp]: "be_val [] = 0"
  by (simp add: be_val_def)

lemma be_val_snoc [simp]: "be_val (bs @ [b]) = be_val bs * 256 + unat b"
  by (simp add: be_val_def)

lemma length_be_enc [simp, width]: "length (be_enc n v) = n"
  by (induction n arbitrary: v) auto

lemma be_val_be_enc: "be_val (be_enc n v) = v mod 256 ^ n"
proof (induction n arbitrary: v)
  case 0
  then show ?case by simp
next
  case (Suc n)
  have "unat (word_of_nat (v mod 256) :: u8) = v mod 256"
    by (simp add: unat_of_nat)
  with Suc show ?case
    by (simp add: mod_mult2_eq mult.commute)
qed

lemma be_enc_be_val: "be_enc (length bs) (be_val bs) = bs"
proof (induction bs rule: rev_induct)
  case Nil
  then show ?case by simp
next
  case (snoc b bs)
  have "unat b < 256" using unsigned_less [of b] by simp
  with snoc show ?case by simp
qed

lemma be_val_bound: "be_val bs < 256 ^ length bs"
proof (induction bs rule: rev_induct)
  case (snoc b bs)
  have "unat b < 256" using unsigned_less [of b] by simp
  with snoc show ?case by simp
qed simp

definition u16_be :: "u16 \<Rightarrow> bytes" where "u16_be w = be_enc 2 (unat w)"
definition u32_be :: "u32 \<Rightarrow> bytes" where "u32_be w = be_enc 4 (unat w)"
definition u64_be :: "u64 \<Rightarrow> bytes" where "u64_be w = be_enc 8 (unat w)"
definition u64_le :: "u64 \<Rightarrow> bytes" where "u64_le w = rev (be_enc 8 (unat w))"
definition from_be :: "bytes \<Rightarrow> 'a::len word" where "from_be bs = word_of_nat (be_val bs)"
definition from_le :: "bytes \<Rightarrow> 'a::len word" where "from_le bs = word_of_nat (be_val (rev bs))"

lemma length_word_be [simp, width]:
  "length (u16_be w) = 2" "length (u32_be x) = 4" "length (u64_be y) = 8" "length (u64_le y) = 8"
  by (simp_all add: u16_be_def u32_be_def u64_be_def u64_le_def)

lemma from_be_word [simp]:
  "from_be (u16_be w) = w" "from_be (u32_be x) = x" "from_be (u64_be y) = y"
  by (simp_all add: from_be_def u16_be_def u32_be_def u64_be_def be_val_be_enc
      flip: unat_of_nat [where 'a = 16, simplified] unat_of_nat [where 'a = 32, simplified]
        unat_of_nat [where 'a = 64, simplified])

lemma word_be_from_be:
  "length a = 2 \<Longrightarrow> u16_be (from_be a) = a"
  "length b = 4 \<Longrightarrow> u32_be (from_be b) = b"
  "length c = 8 \<Longrightarrow> u64_be (from_be c) = c"
  using be_val_bound [of a] be_val_bound [of b] be_val_bound [of c]
    be_enc_be_val [of a] be_enc_be_val [of b] be_enc_be_val [of c]
  by (simp_all add: from_be_def u16_be_def u32_be_def u64_be_def unat_of_nat)

lemma u64_le_inj: "u64_le x = u64_le y \<Longrightarrow> x = y"
  by (metis from_be_word(3) rev_rev_ident u64_be_def u64_le_def)

lemma u16_be_inj: "u16_be x = u16_be y \<Longrightarrow> x = y"
  by (metis from_be_word(1))

section \<open>Saturating arithmetic\<close>

lemma unat_bound: "unat w < 2 ^ LENGTH('a)" for w :: "'a::len word"
  by (rule unsigned_less)

lemma unat_le_max: "unat w \<le> 2 ^ LENGTH('a) - 1" for w :: "'a::len word"
  using unat_bound [of w] by linarith

definition sat_add :: "'a::len word \<Rightarrow> 'a word \<Rightarrow> 'a word" where
  "sat_add a b = (if unat a + unat b < 2 ^ LENGTH('a) then a + b else - 1)"

definition sat_sub :: "'a::len word \<Rightarrow> 'a word \<Rightarrow> 'a word" where
  "sat_sub a b = (if a < b then 0 else a - b)"

definition sat_mul :: "'a::len word \<Rightarrow> 'a word \<Rightarrow> 'a word" where
  "sat_mul a b = (if unat a * unat b < 2 ^ LENGTH('a) then a * b else - 1)"

lemma unat_minus_one_max: "unat (- 1 :: 'a::len word) = 2 ^ LENGTH('a) - 1"
  by (simp add: unsigned_minus_1_eq_mask mask_eq_exp_minus_1)

lemma unat_sat_add [sat]:
  "unat (sat_add a b) = min (unat a + unat b) (2 ^ LENGTH('a) - 1)" for a b :: "'a::len word"
  by (auto simp: sat_add_def unat_word_ariths unat_minus_one_max)

lemma unat_sat_sub [sat]: "unat (sat_sub a b) = unat a - unat b"
  by (auto simp: sat_sub_def word_less_nat_alt unat_sub word_le_nat_alt)

lemma unat_sat_mul [sat]:
  "unat (sat_mul a b) = min (unat a * unat b) (2 ^ LENGTH('a) - 1)" for a b :: "'a::len word"
  by (auto simp: sat_mul_def unat_word_ariths unat_minus_one_max)

lemma sat_add_ge: "a \<le> sat_add a b"
  using unat_le_max [of a] by (simp add: word_le_nat_alt unat_sat_add)

lemma sat_sub_le: "sat_sub a b \<le> a"
  by (simp add: word_le_nat_alt unat_sat_sub)

lemma sat_add_0 [simp]: "sat_add a 0 = a"
  using unat_bound [of a] by (simp add: sat_add_def)

lemma sat_sub_self [simp]: "sat_sub a a = 0"
  by (auto simp: sat_sub_def word_neq_0_conv)

lemma sat_sub_zero_left [simp]: "sat_sub 0 a = 0"
  by (simp add: unat_sat_sub flip: unat_eq_zero)

section \<open>Hash tables\<close>

text \<open>
  A \<open>HashMap\<close> is an association list with distinct keys: \<open>map_of\<close> is \<open>get\<close>,
  \<open>AList.update\<close> is \<open>insert\<close>, \<open>AList.delete\<close> is \<open>remove\<close>, a filter is
  \<open>retain\<close>. The order in which Rust iterates over a table is unspecified and may change
  from one operation to the next, so every operation that depends on it takes the order
  as an argument, a function that permutes the entries (\<open>iteration_order\<close>).
\<close>

type_synonym ('k, 'v) table = "('k \<times> 'v) list"

definition iteration_order :: "('e list \<Rightarrow> 'e list) \<Rightarrow> bool" where
  "iteration_order ord \<longleftrightarrow> (\<forall>es. mset (ord es) = mset es)"

lemma iteration_order_id [simp]: "iteration_order (\<lambda>es. es)"
  by (simp add: iteration_order_def)

lemma iteration_order_rev [simp]: "iteration_order rev"
  by (simp add: iteration_order_def)

lemma iteration_order_length: "iteration_order ord \<Longrightarrow> length (ord es) = length es"
  unfolding iteration_order_def by (metis size_mset)

lemma iteration_order_set: "iteration_order ord \<Longrightarrow> set (ord es) = set es"
  unfolding iteration_order_def by (metis set_mset_mset)

lemma iteration_order_filter:
  assumes "iteration_order ord"
  shows "length (filter P (ord es)) = length (filter P es)"
    and "distinct (map f es) \<Longrightarrow> distinct (map f (ord es))"
proof -
  have m: "mset (ord es) = mset es" using assms by (simp add: iteration_order_def)
  then have "mset (filter P (ord es)) = mset (filter P es)" by simp
  then show "length (filter P (ord es)) = length (filter P es)" by (metis size_mset)
  from m have "mset (map f (ord es)) = mset (map f es)" by simp
  then show "distinct (map f es) \<Longrightarrow> distinct (map f (ord es))" by (metis mset_eq_imp_distinct_iff)
qed

text \<open>\<open>Iterator::min_by_key\<close>: the first of the entries with the least key.\<close>

fun min_by_key :: "('e \<Rightarrow> 'b::linorder) \<Rightarrow> 'e list \<Rightarrow> 'e option" where
  "min_by_key f [] = None"
| "min_by_key f (x # xs) = Some (foldl (\<lambda>m y. if f y < f m then y else m) x xs)"

lemma min_by_key_None [simp]: "min_by_key f xs = None \<longleftrightarrow> xs = []"
  by (cases xs) auto

lemma foldl_least:
  fixes f :: "'e \<Rightarrow> 'b::linorder"
  defines "g \<equiv> \<lambda>m y. if f y < f m then y else m"
  shows "foldl g x xs \<in> set (x # xs) \<and> (\<forall>y \<in> set (x # xs). f (foldl g x xs) \<le> f y)"
proof (induction xs arbitrary: x)
  case (Cons z zs)
  show ?case using Cons [of "g x z"] by (auto simp: g_def split: if_splits)
qed simp

lemma min_by_key_Some:
  "min_by_key f xs = Some x \<Longrightarrow> x \<in> set xs \<and> (\<forall>y \<in> set xs. f x \<le> f y)"
  using foldl_least [of f] by (cases xs) auto

text \<open>Counting the values of a table that satisfy a predicate.\<close>

definition tally :: "('v \<Rightarrow> bool) \<Rightarrow> ('k, 'v) table \<Rightarrow> nat" where
  "tally P m = length (filter (\<lambda>e. P (snd e)) m)"

lemma tally_simps [simp]:
  "tally P [] = 0" "tally P ((k, v) # m) = (if P v then Suc (tally P m) else tally P m)"
  by (simp_all add: tally_def)

lemma tally_le: "tally P m \<le> length m"
  by (simp add: tally_def)

lemma tally_compl: "tally P m + tally (\<lambda>v. \<not> P v) m = length m"
  by (simp add: tally_def sum_length_filter_compl)

lemma tally_notin_update:
  "k \<notin> fst ` set m \<Longrightarrow> tally P (AList.update k v m) = tally P m + (if P v then 1 else 0)"
  by (induction m) auto

lemma tally_update:
  "distinct (map fst m) \<Longrightarrow> map_of m k = Some w \<Longrightarrow>
   tally P (AList.update k v m) + (if P w then 1 else 0) = tally P m + (if P v then 1 else 0)"
  by (induction m) auto

lemma tally_delete:
  "distinct (map fst m) \<Longrightarrow> map_of m k = Some w \<Longrightarrow>
   tally P (AList.delete k m) + (if P w then 1 else 0) = tally P m"
  by (induction m) auto

lemma length_update:
  "length (AList.update k v m) = (if map_of m k = None then Suc (length m) else length m)"
  by (induction m) auto

lemma length_delete:
  "distinct (map fst m) \<Longrightarrow>
   length (AList.delete k m) = (if map_of m k = None then length m else length m - 1)"
  by (induction m) (auto, metis Suc_pred length_pos_if_in_set)

lemma set_update_subset: "e \<in> set (AList.update k v m) \<Longrightarrow> e = (k, v) \<or> e \<in> set m"
  by (induction m) (auto split: if_splits)

lemma set_delete_subset: "set (AList.delete k m) \<subseteq> set m"
  by (auto simp: AList.delete_eq)

lemma map_of_filter_distinct:
  "distinct (map fst m) \<Longrightarrow>
   map_of (filter P m) k =
     (case map_of m k of Some v \<Rightarrow> if P (k, v) then Some v else None | None \<Rightarrow> None)"
  by (induction m) (auto simp: map_of_eq_None_iff split: option.splits dest: map_of_SomeD)

lemma tally_card:
  "distinct (map fst m) \<Longrightarrow> tally P m = card {k. \<exists>v. map_of m k = Some v \<and> P v}"
proof -
  assume d: "distinct (map fst m)"
  have "{k. \<exists>v. map_of m k = Some v \<and> P v} = fst ` set (filter (\<lambda>e. P (snd e)) m)"
    using d by (force simp: map_of_eq_Some_iff)
  moreover have "distinct (map fst (filter (\<lambda>e. P (snd e)) m))"
    using d by (simp add: distinct_map_filter)
  ultimately show ?thesis
    by (metis tally_def distinct_card length_map set_map)
qed

text \<open>
  The contract a client of a table relies on, and the lemma its clients share: making room
  by evicting one entry before an insertion keeps the table within its capacity.
\<close>

locale table =
  fixes t_empty :: 'm
    and get :: "'m \<Rightarrow> 'k \<Rightarrow> 'v option"
    and put :: "'k \<Rightarrow> 'v \<Rightarrow> 'm \<Rightarrow> 'm"
    and del :: "'k \<Rightarrow> 'm \<Rightarrow> 'm"
    and len :: "'m \<Rightarrow> nat"
    and ok :: "'m \<Rightarrow> bool"
  assumes ok_empty: "ok t_empty"
    and ok_put: "ok m \<Longrightarrow> ok (put k v m)"
    and ok_del: "ok m \<Longrightarrow> ok (del k m)"
    and get_empty: "get t_empty k = None"
    and get_put: "ok m \<Longrightarrow> get (put k v m) = (get m)(k \<mapsto> v)"
    and get_del: "ok m \<Longrightarrow> get (del k m) = (get m)(k := None)"
    and len_put: "ok m \<Longrightarrow> len (put k v m) = (if get m k = None then Suc (len m) else len m)"
    and len_del: "ok m \<Longrightarrow> len (del k m) = (if get m k = None then len m else len m - 1)"
begin

lemma ok_evict: "ok m \<Longrightarrow> ok (case victim of None \<Rightarrow> m | Some j \<Rightarrow> del j m)"
  by (simp add: ok_del split: option.split)

lemma get_evict_other:
  assumes "ok m" "victim \<noteq> Some k"
  shows "get (case victim of None \<Rightarrow> m | Some j \<Rightarrow> del j m) k = get m k"
  using assms by (auto simp: get_del split: option.split)

lemma bounded_insert:
  assumes "ok m" "len m \<le> max 1 cap"
    and victim: "\<And>j. victim = Some j \<Longrightarrow> get m j \<noteq> None" "victim = None \<Longrightarrow> len m = 0 \<or> \<not> full"
    and full: "full \<longleftrightarrow> get m k = None \<and> cap \<le> len m"
    and m': "m' = (if full then (case victim of None \<Rightarrow> m | Some j \<Rightarrow> del j m) else m)"
  shows "len (put k v m') \<le> max 1 cap"
proof (cases victim)
  case None
  with assms show ?thesis by (auto simp: len_put)
next
  case (Some j)
  with victim have j: "get m j \<noteq> None" by blast
  show ?thesis
  proof (cases full)
    case True
    then have "len (put k v m') \<le> Suc (len m - 1)"
      using assms Some j by (auto simp: len_put len_del ok_del)
    moreover have "Suc (len m - 1) \<le> max 1 cap" using assms by auto
    ultimately show ?thesis by (rule le_trans)
  next
    case False
    with assms show ?thesis by (auto simp: len_put)
  qed
qed

end

interpretation hm: table "[]" map_of AList.update AList.delete length "\<lambda>m. distinct (map fst m)"
  by unfold_locales
    (simp_all add: distinct_update distinct_delete update_conv' delete_conv' length_update
      length_delete)

lemmas hm_simps = hm.get_put hm.get_del hm.ok_put hm.ok_del hm.len_put hm.len_del

text \<open>
  Making room in a bounded table: when a new key arrives and the table is full, the entry
  with the least stamp among the first eight in iteration order is removed.
\<close>

definition evict_sample :: nat where "evict_sample = 8"

definition evict_oldest ::
  "(('k \<times> 'v) list \<Rightarrow> ('k \<times> 'v) list) \<Rightarrow> ('v \<Rightarrow> u32) \<Rightarrow> nat \<Rightarrow> 'k \<Rightarrow> ('k, 'v) table \<Rightarrow> ('k, 'v) table" where
  "evict_oldest ord stamp cap k m =
     (if map_of m k = None \<and> length m \<ge> cap
      then (case map_option fst (min_by_key (\<lambda>e. stamp (snd e)) (take evict_sample (ord m))) of
              None \<Rightarrow> m
            | Some oldest \<Rightarrow> AList.delete oldest m)
      else m)"

lemma evict_oldest_distinct:
  "distinct (map fst m) \<Longrightarrow> distinct (map fst (evict_oldest ord stamp cap k m))"
  by (auto simp: evict_oldest_def distinct_delete split: option.split)

lemma evict_victim:
  assumes "iteration_order ord"
    and "map_option fst (min_by_key (\<lambda>e. stamp (snd e)) (take evict_sample (ord m))) = Some j"
  shows "map_of m j \<noteq> None"
proof -
  from assms(2) obtain e where "e \<in> set (take evict_sample (ord m))" "fst e = j"
    by (auto dest: min_by_key_Some)
  then have "e \<in> set m"
    using iteration_order_set [OF assms(1)] in_set_takeD by metis
  with \<open>fst e = j\<close> show ?thesis by (auto simp: map_of_eq_None_iff)
qed

lemma evict_oldest_get:
  "distinct (map fst m) \<Longrightarrow> iteration_order ord \<Longrightarrow> map_of (evict_oldest ord stamp cap k m) k = map_of m k"
  unfolding evict_oldest_def by (auto simp: hm_simps split: option.split dest: evict_victim)

lemma evict_insert_bounded:
  assumes "distinct (map fst m)" "iteration_order ord" "length m \<le> max 1 cap"
  shows "length (AList.update k v (evict_oldest ord stamp cap k m)) \<le> max 1 cap"
proof (rule hm.bounded_insert [OF assms(1) assms(3) evict_victim [OF assms(2)] _ refl])
  show "map_option fst (min_by_key (\<lambda>e. stamp (snd e)) (take evict_sample (ord m))) = None \<Longrightarrow>
      length m = 0 \<or> \<not> (map_of m k = None \<and> cap \<le> length m)"
    using iteration_order_length [OF assms(2), of m] by (auto simp: evict_sample_def)
qed (auto simp: evict_oldest_def)

end
