(* ===== verification/Machine.thy ===== *)
theory Machine
  imports Prelude
begin

text \<open>
  State machines and their invariants: the locales that the store, the detector and the daemon
  instantiate. A machine has initial states, a step relation labelled with events and an
  invariant; a refinement maps its states to those of a specification that takes events too.
\<close>

inductive run :: "('s \<Rightarrow> 'e \<Rightarrow> 's \<Rightarrow> bool) \<Rightarrow> 's \<Rightarrow> 'e list \<Rightarrow> 's \<Rightarrow> bool" for step where
  run_nil: "run step s [] s"
| run_cons: "step s e s' \<Longrightarrow> run step s' es s'' \<Longrightarrow> run step s (e # es) s''"

inductive_simps run_simps: "run step s [] s'" "run step s (e # es) s'"

inductive reach :: "('s \<Rightarrow> bool) \<Rightarrow> ('s \<Rightarrow> 'e \<Rightarrow> 's \<Rightarrow> bool) \<Rightarrow> 's \<Rightarrow> bool" for init step where
  reach_init: "init s \<Longrightarrow> reach init step s"
| reach_step: "reach init step s \<Longrightarrow> step s e s' \<Longrightarrow> reach init step s'"

lemma run_append:
  "run step s (es @ fs) s'' \<longleftrightarrow> (\<exists>s'. run step s es s' \<and> run step s' fs s'')"
  by (induction es arbitrary: s) (auto simp: run_simps)

lemma reach_run: "run step s es s' \<Longrightarrow> reach init step s \<Longrightarrow> reach init step s'"
  by (induction rule: run.induct) (auto intro: reach_step)

lemma run_one: "step s e s' \<Longrightarrow> run step s [e] s'"
  by (simp add: run_simps)

lemma run_trans: "run step s es s' \<Longrightarrow> run step s' fs s'' \<Longrightarrow> run step s (es @ fs) s''"
  by (auto simp: run_append)

lemma run_snoc: "run step s (es @ [e]) s'' \<longleftrightarrow> (\<exists>s'. run step s es s' \<and> step s' e s'')"
  by (auto simp: run_append run_simps)

text \<open>Any number of steps with the one event \<open>tau\<close>.\<close>

definition silent :: "('s \<Rightarrow> 'e \<Rightarrow> 's \<Rightarrow> bool) \<Rightarrow> 'e \<Rightarrow> 's \<Rightarrow> 's \<Rightarrow> bool" where
  "silent step tau s s' \<longleftrightarrow> (\<exists>n. run step s (replicate n tau) s')"

lemma silent_refl: "silent step tau s s"
  unfolding silent_def by (rule exI [of _ 0]) (simp add: run_simps)

lemma silent_step: "step s tau s' \<Longrightarrow> silent step tau s' s'' \<Longrightarrow> silent step tau s s''"
  unfolding silent_def by (metis replicate_Suc run_cons)

lemma silent_trans: "silent step tau s s' \<Longrightarrow> silent step tau s' s'' \<Longrightarrow> silent step tau s s''"
  unfolding silent_def by (metis run_trans replicate_add)

text \<open>A property of one step of a run.\<close>

definition occurs ::
  "('s \<Rightarrow> 'e \<Rightarrow> 's \<Rightarrow> bool) \<Rightarrow> 's \<Rightarrow> 'e list \<Rightarrow> 's \<Rightarrow> ('s \<Rightarrow> 'e \<Rightarrow> 's \<Rightarrow> bool) \<Rightarrow> bool" where
  "occurs step s es s' P \<longleftrightarrow>
     (\<exists>es1 e es2 s1 s2. es = es1 @ e # es2 \<and> run step s es1 s1 \<and> step s1 e s2 \<and> run step s2 es2 s' \<and> P s1 e s2)"

lemma occurs_last:
  "run step s es s' \<Longrightarrow> step s' e s'' \<Longrightarrow> P s' e s'' \<Longrightarrow> occurs step s (es @ [e]) s'' P"
  unfolding occurs_def by (intro exI [of _ es] exI [of _ e] exI [of _ "[]"]) (auto simp: run_simps)

lemma occurs_snoc:
  assumes "occurs step s es s' P" "step s' e s''"
  shows "occurs step s (es @ [e]) s'' P"
proof -
  obtain es1 e1 es2 s1 s2 where o: "es = es1 @ e1 # es2" "run step s es1 s1" "step s1 e1 s2"
    "run step s2 es2 s'" "P s1 e1 s2"
    using assms(1) unfolding occurs_def by blast
  moreover from o(4) assms(2) have "run step s2 (es2 @ [e]) s''" by (auto simp: run_snoc)
  ultimately show ?thesis unfolding occurs_def
    by (intro exI [of _ es1] exI [of _ e1] exI [of _ "es2 @ [e]"]) auto
qed

section \<open>Invariants\<close>

locale machine =
  fixes init :: "'s \<Rightarrow> bool"
    and step :: "'s \<Rightarrow> 'e \<Rightarrow> 's \<Rightarrow> bool"
    and inv :: "'s \<Rightarrow> bool"
  assumes inv_init: "init s \<Longrightarrow> inv s"
    and inv_step: "step s e s' \<Longrightarrow> inv s \<Longrightarrow> inv s'"
begin

lemma run_inv: "run step s es s' \<Longrightarrow> inv s \<Longrightarrow> inv s'"
  by (induction rule: run.induct) (auto dest: inv_step)

lemma reach_inv: "reach init step s \<Longrightarrow> inv s"
  by (induction rule: reach.induct) (auto dest: inv_init inv_step)

end

text \<open>A machine that is never stuck on an admissible event.\<close>

locale live_machine = machine +
  fixes admits :: "'e \<Rightarrow> bool"
  assumes progress: "inv s \<Longrightarrow> admits e \<Longrightarrow> \<exists>s'. step s e s'"
begin

lemma run_exists: "inv s \<Longrightarrow> \<forall>e \<in> set es. admits e \<Longrightarrow> \<exists>s'. run step s es s'"
proof (induction es arbitrary: s)
  case (Cons e es)
  then obtain s1 where "step s e s1" "inv s1" using progress inv_step by force
  with Cons.IH [of s1] Cons.prems(2) show ?case by (auto intro: run_cons)
qed (auto intro: run_nil)

end

section \<open>Refinement\<close>

text \<open>Every step is invisible in the specification or one admissible step of it.\<close>

locale refinement = machine +
  fixes abs :: "'s \<Rightarrow> 'a"
    and astep :: "'b \<Rightarrow> 'a \<Rightarrow> 'a"
    and aok :: "'b \<Rightarrow> bool"
    and ainit :: 'a
  assumes abs_init: "init s \<Longrightarrow> abs s = ainit"
    and abs_step: "step s e s' \<Longrightarrow> inv s \<Longrightarrow>
      abs s' = abs s \<or> (\<exists>a. aok a \<and> abs s' = astep a (abs s))"
begin

definition explained :: "'s \<Rightarrow> bool" where
  "explained s \<longleftrightarrow> (\<exists>as. (\<forall>a \<in> set as. aok a) \<and> abs s = fold astep as ainit)"

lemma explained_step:
  assumes "step s e s'" "inv s" "explained s"
  shows "explained s'"
proof -
  obtain as where as: "\<forall>a \<in> set as. aok a" "abs s = fold astep as ainit"
    using assms(3) by (auto simp: explained_def)
  from abs_step [OF assms(1,2)] show ?thesis
  proof (elim disjE exE conjE)
    fix a
    assume "aok a" "abs s' = astep a (abs s)"
    with as show ?thesis unfolding explained_def by (intro exI [of _ "as @ [a]"]) auto
  qed (use as in \<open>auto simp: explained_def\<close>)
qed

lemma reach_explained:
  assumes "reach init step s"
  shows "\<exists>as. (\<forall>a \<in> set as. aok a) \<and> abs s = fold astep as ainit"
proof -
  from assms have "explained s"
  proof (induction rule: reach.induct)
    case (reach_init s)
    then show ?case unfolding explained_def by (intro exI [of _ "[]"]) (simp add: abs_init)
  next
    case (reach_step s e s')
    from reach_step(2) reach_inv [OF reach_step(1)] reach_step(3) show ?case by (rule explained_step)
  qed
  then show ?thesis by (simp add: explained_def)
qed

end

text \<open>The special case of a simulation: the specification takes the very events of the machine.\<close>

locale simulation = machine +
  fixes abs :: "'s \<Rightarrow> 'a"
    and astep :: "'e \<Rightarrow> 'a \<Rightarrow> 'a"
    and aok :: "'e \<Rightarrow> bool"
    and ainit :: 'a
  assumes sim_init: "init s \<Longrightarrow> abs s = ainit"
    and sim_step: "step s e s' \<Longrightarrow> inv s \<Longrightarrow> aok e \<and> abs s' = astep e (abs s)"
begin

lemma run_abs: "run step s es s' \<Longrightarrow> inv s \<Longrightarrow> abs s' = fold astep es (abs s)"
proof (induction rule: run.induct)
  case (run_cons s e s' es s'')
  with inv_step [OF run_cons(1)] sim_step [OF run_cons(1)] show ?case by simp
qed simp

end

sublocale simulation \<subseteq> refinement init step inv abs astep aok ainit
  by unfold_locales (use sim_init sim_step in blast)+

end
