(* ===== verification/Core.thy ===== *)
theory Core
  imports Prelude
begin

text \<open>
  crates/bf-core/src/lib.rs: info-hashes and peer ids, the peer flag byte and the announce
  event, with the facts about the flag bits that the peer lists rely on.
\<close>

section \<open>Hashes\<close>

definition HASH_LEN :: nat where "HASH_LEN = 20"

type_synonym info_hash = bytes \<comment> \<open>\<open>[u8; 20]\<close>\<close>
type_synonym peer_id = bytes \<comment> \<open>\<open>[u8; 20]\<close>\<close>

section \<open>Peer flags\<close>

definition SEEDING :: u8 where "SEEDING = 0x80"
definition COMPLETED :: u8 where "COMPLETED = 0x40"
definition STOPPED :: u8 where "STOPPED = 0x20"
definition FROM_SYNC :: u8 where "FROM_SYNC = 0x10"
definition LEECHING :: u8 where "LEECHING = 0x00"

lemmas flag_defs = SEEDING_def COMPLETED_def STOPPED_def FROM_SYNC_def LEECHING_def

text \<open>The two bits the code tests.\<close>

definition seeding :: "u8 \<Rightarrow> bool" where "seeding f \<longleftrightarrow> f AND SEEDING \<noteq> 0"
definition completed :: "u8 \<Rightarrow> bool" where "completed f \<longleftrightarrow> f AND COMPLETED \<noteq> 0"

lemma flag_test:
  "f AND SEEDING = 0 \<longleftrightarrow> \<not> seeding f"
  "f AND COMPLETED = 0 \<longleftrightarrow> \<not> completed f"
  by (simp_all add: seeding_def completed_def)

lemma seeding_bit: "seeding f \<longleftrightarrow> bit f 7"
  by (simp add: seeding_def SEEDING_def bit_iff_and_push_bit_not_eq_0)

lemma completed_bit: "completed f \<longleftrightarrow> bit f 6"
  by (simp add: completed_def COMPLETED_def bit_iff_and_push_bit_not_eq_0)

lemma seeding_or_completed [simp]: "seeding (f OR (g AND COMPLETED)) = seeding f"
  by (simp add: seeding_def SEEDING_def COMPLETED_def bit.conj_disj_distrib2 and.assoc)

lemma completed_or_completed [simp]:
  "completed (f OR (g AND COMPLETED)) \<longleftrightarrow> completed f \<or> completed g"
  unfolding completed_bit by (simp add: COMPLETED_def bit_simps)

lemma seeding_and_not_completed [simp]: "seeding (f AND NOT COMPLETED) = seeding f"
  unfolding seeding_bit by (simp add: COMPLETED_def bit_simps)

lemma completed_and_not_completed [simp]: "\<not> completed (f AND NOT COMPLETED)"
  unfolding completed_bit by (simp add: COMPLETED_def bit_simps)

section \<open>Announce events\<close>

datatype event = EvNone | EvCompleted | EvStopped

text \<open>\<open>Event::from_udp\<close>\<close>

definition from_udp :: "u32 \<Rightarrow> event" where
  "from_udp code = (if code = 1 then EvCompleted else if code = 3 then EvStopped else EvNone)"

lemma from_udp_simps [simp]:
  "from_udp 0 = EvNone" "from_udp 1 = EvCompleted" "from_udp 2 = EvNone" "from_udp 3 = EvStopped"
  by (simp_all add: from_udp_def)

lemma from_udp_iff:
  "from_udp code = EvCompleted \<longleftrightarrow> code = 1"
  "from_udp code = EvStopped \<longleftrightarrow> code = 3"
  by (auto simp: from_udp_def)

end
