(* ===== verification/Connid.thy ===== *)
theory Connid
  imports Core
begin

text \<open>
  crates/bf-core/src/connid.rs: the time-windowed connection ids of BEP-15. BLAKE3 is a
  third-party crate: the keyed hash is the parameter \<open>mac\<close>, taking the key and the
  concatenation of the chunks fed to the hasher and returning the digest.
\<close>

type_synonym mac = "bytes \<Rightarrow> bytes \<Rightarrow> bytes"

record connid =
  ci_key :: bytes
  ci_window_secs :: u64

definition connid_new :: "bytes \<Rightarrow> u64 \<Rightarrow> connid" where
  "connid_new key window_secs = \<lparr>ci_key = key, ci_window_secs = max window_secs 1\<rparr>"

definition for_window :: "mac \<Rightarrow> connid \<Rightarrow> bytes \<Rightarrow> u64 \<Rightarrow> u64" where
  "for_window mac c ip window = from_le (take 8 (mac (ci_key c) (ip @ u64_le window)))"

definition generate :: "mac \<Rightarrow> connid \<Rightarrow> bytes \<Rightarrow> u64 \<Rightarrow> u64" where
  "generate mac c ip now_secs = for_window mac c ip (now_secs div ci_window_secs c)"

definition validate :: "mac \<Rightarrow> connid \<Rightarrow> u64 \<Rightarrow> bytes \<Rightarrow> u64 \<Rightarrow> bool" where
  "validate mac c i ip now_secs =
     (let window = now_secs div ci_window_secs c
      in i = for_window mac c ip window \<or> (window > 0 \<and> i = for_window mac c ip (window - 1)))"

text \<open>A generator built by \<open>connid_new\<close> never has an empty window.\<close>

definition connid_ok :: "connid \<Rightarrow> bool" where
  "connid_ok c \<longleftrightarrow> 1 \<le> unat (ci_window_secs c)"

lemma connid_new_ok: "connid_ok (connid_new key w)"
  by (simp add: connid_ok_def connid_new_def max_def word_le_nat_alt)

lemma validate_iff:
  "validate mac c i ip now \<longleftrightarrow>
     i = for_window mac c ip (now div ci_window_secs c) \<or>
     (0 < unat now div unat (ci_window_secs c) \<and>
      i = for_window mac c ip (now div ci_window_secs c - 1))"
  by (simp add: validate_def Let_def word_less_nat_alt unat_div_distrib)

section \<open>Lifetime of an id\<close>

lemma div_step_bounds:
  fixes t t' w :: nat
  assumes "1 \<le> w" "t \<le> t'"
  shows "t' \<le> t + w \<Longrightarrow> t' div w = t div w \<or> t' div w = Suc (t div w)"
    and "t' div w \<le> Suc (t div w) \<Longrightarrow> t' < t + 2 * w"
proof -
  have w: "0 < w" using assms by simp
  have mono: "t div w \<le> t' div w" using assms by (simp add: div_le_mono)
  show "t' div w = t div w \<or> t' div w = Suc (t div w)" if "t' \<le> t + w"
  proof -
    have "t' div w \<le> (t + w) div w" using that by (rule div_le_mono)
    also have "\<dots> = Suc (t div w)" using w by (simp add: div_add_self2)
    finally show ?thesis using mono by auto
  qed
  show "t' < t + 2 * w" if le: "t' div w \<le> Suc (t div w)"
  proof -
    have "t' < w * (t' div w) + w" using w by (metis dividend_less_times_div mult.commute add.commute)
    also have "\<dots> \<le> w * Suc (t div w) + w" using le by (simp add: mult_le_mono2 del: mult_Suc_right)
    also have "\<dots> \<le> t + 2 * w" using times_div_less_eq_dividend [of w t] by simp
    finally show ?thesis .
  qed
qed

lemma word_div_pred:
  fixes t t' w :: u64
  assumes "unat t' div unat w = Suc (unat t div unat w)"
  shows "t' div w - 1 = t div w"
proof -
  have n: "unat (t' div w) = Suc (unat (t div w))"
    using assms by (simp add: unat_div_distrib)
  then have "1 \<le> t' div w" by (simp add: word_le_nat_alt)
  with n show ?thesis by (simp add: word_unat_eq_iff unat_sub)
qed

text \<open>
  What a client of the scheme relies on: an id is accepted from the moment it is issued
  until \<open>life\<close> seconds later.
\<close>

locale connid_scheme =
  fixes gen :: "bytes \<Rightarrow> u64 \<Rightarrow> u64"
    and valid :: "u64 \<Rightarrow> bytes \<Rightarrow> u64 \<Rightarrow> bool"
    and life :: nat
  assumes live: "unat t \<le> unat t' \<Longrightarrow> unat t' \<le> unat t + life \<Longrightarrow> valid (gen ip t) ip t'"
begin

lemma valid_at_once: "valid (gen ip t) ip t"
  by (rule live) simp_all

lemma valid_upto: "unat t' - unat t \<le> life \<Longrightarrow> unat t \<le> unat t' \<Longrightarrow> valid (gen ip t) ip t'"
  by (rule live) simp_all

end

lemma generate_live:
  assumes "connid_ok c" "unat t \<le> unat t'" "unat t' \<le> unat t + unat (ci_window_secs c)"
  shows "validate mac c (generate mac c ip t) ip t'"
  using div_step_bounds(1) [OF assms(1) [unfolded connid_ok_def] assms(2,3)]
proof
  assume "unat t' div unat (ci_window_secs c) = unat t div unat (ci_window_secs c)"
  then have "t' div ci_window_secs c = t div ci_window_secs c"
    by (simp add: word_unat_eq_iff unat_div_distrib)
  then show ?thesis by (simp add: validate_iff generate_def)
next
  assume step: "unat t' div unat (ci_window_secs c) = Suc (unat t div unat (ci_window_secs c))"
  then show ?thesis
    using word_div_pred [OF step] by (simp add: validate_iff generate_def)
qed

interpretation cid: connid_scheme
  "generate mac (connid_new key w)" "validate mac (connid_new key w)" "unat (max w 1)"
  for mac key w
  using generate_live [OF connid_new_ok] by unfold_locales (simp add: connid_new_def)

section \<open>What a connection id proves\<close>

text \<open>An id is accepted from the second it is issued until one full window later, so
  a client that comes back within the window is never turned away, wherever in the window it
  started.\<close>

lemma connid_lifetime:
  assumes "unat t \<le> unat t'" "unat t' \<le> unat t + unat (max w 1)"
  shows "validate mac (connid_new key w) (generate mac (connid_new key w) ip t) ip t'"
  using assms by (rule cid.live)

lemma div_less_iff: "0 < w \<Longrightarrow> n div w \<le> Suc m \<longleftrightarrow> n < (m + 2) * w" for n m w :: nat
  using less_mult_imp_div_less [of n "m + 2" w] div_less_iff_less_mult [of w n "m + 2"] by auto

text \<open>C34. An id issued to \<open>ip\<close> at \<open>t\<close> is accepted at a later \<open>t'\<close> from the address \<open>ip'\<close> exactly
  when that is the same address and the window after the one of \<open>t\<close> is not over, provided that the
  keyed hash does not send the issued pair of address and window to the same eight bytes as one of
  the at most two other pairs that are tried at \<open>t'\<close>.\<close>

theorem connid_bound:
  assumes "connid_ok c" "unat t \<le> unat t'"
    and "\<forall>w. w = t' div ci_window_secs c \<or> 0 < t' div ci_window_secs c \<and> w = t' div ci_window_secs c - 1 \<longrightarrow>
      (ip', w) \<noteq> (ip, t div ci_window_secs c) \<longrightarrow>
      (from_le (take 8 (mac (ci_key c) (ip' @ u64_le w))) :: u64) \<noteq>
        from_le (take 8 (mac (ci_key c) (ip @ u64_le (t div ci_window_secs c))))"
  shows "validate mac c (generate mac c ip t) ip' t' \<longleftrightarrow>
    ip' = ip \<and> unat t' < (unat t div unat (ci_window_secs c) + 2) * unat (ci_window_secs c)"
proof -
  let ?W = "ci_window_secs c"
  have W: "0 < unat ?W" using assms(1) by (simp add: connid_ok_def)
  have "validate mac c (generate mac c ip t) ip' t' \<longleftrightarrow>
      ip' = ip \<and> (t' div ?W = t div ?W \<or> 0 < t' div ?W \<and> t' div ?W - 1 = t div ?W)"
    using assms(3) by (auto simp: validate_def Let_def generate_def for_window_def)
  also have "t' div ?W = t div ?W \<or> 0 < t' div ?W \<and> t' div ?W - 1 = t div ?W \<longleftrightarrow>
      unat t' div unat ?W \<le> Suc (unat t div unat ?W)"
  proof -
    have mono: "unat t div unat ?W \<le> unat t' div unat ?W" using assms(2) by (rule div_le_mono)
    have "unat (x - 1) = unat x - 1" if "0 < x" for x :: u64
      using unat_minus_one [of x] that by auto
    then show ?thesis using mono
      by (auto simp: word_unat_eq_iff unat_div_distrib word_less_nat_alt)
  qed
  also have "\<dots> \<longleftrightarrow> unat t' < (unat t div unat ?W + 2) * unat ?W" using W by (rule div_less_iff)
  finally show ?thesis .
qed

lemma from_le_u64: "from_le (u64_le w) = w"
  using from_be_word(3) [of w] by (simp add: from_le_def from_be_def u64_le_def u64_be_def)

theorem connid_bound_witness:
  "validate (\<lambda>k m. drop 1 m) (connid_new [] 60) (generate (\<lambda>k m. drop 1 m) (connid_new [] 60) [1] 60) [1] 179 \<and>
   \<not> validate (\<lambda>k m. drop 1 m) (connid_new [] 60) (generate (\<lambda>k m. drop 1 m) (connid_new [] 60) [1] 60) [1] 180 \<and>
   \<not> validate (\<lambda>k m. drop 1 m) (connid_new [] 60) (generate (\<lambda>k m. drop 1 m) (connid_new [] 60) [1] 60) [2] 300"
proof -
  let ?c = "connid_new [] 60"
  have c: "connid_ok ?c" "ci_window_secs ?c = 60" by (simp_all add: connid_ok_def connid_new_def max_def word_le_nat_alt)
  note b = connid_bound [OF c(1), where mac = "\<lambda>k m. drop 1 m" and t = 60, unfolded c(2)]
  show ?thesis
    using b [of 179 "[1]" "[1]"] b [of 180 "[1]" "[1]"] b [of 300 "[2]" "[1]"]
    by (simp add: from_le_u64)
qed

end
