(* ===== verification/Store.thy ===== *)
theory Store
  imports Core
begin

text \<open>
  crates/bf-core/src/store.rs: compact peer lists, torrents and the sharded store. Counters
  of type \<open>usize\<close> and \<open>u64\<close> are 64-bit words with the wrap-around of a release build; the
  invariants relate them to the number of peers actually held. A shard is reached through
  its index, and an index out of range is a panic.
\<close>

definition SHARD_COUNT :: nat where "SHARD_COUNT = 1024"
definition PEER_TIMEOUT_MINUTES :: u32 where "PEER_TIMEOUT_MINUTES = 45"
definition TORRENT_TIMEOUT_MINUTES :: u32 where "TORRENT_TIMEOUT_MINUTES = 24 * 60"

record counts =
  complete :: u32
  incomplete :: u32
  c_downloaded :: u32

definition counts_default :: counts where
  "counts_default = \<lparr>complete = 0, incomplete = 0, c_downloaded = 0\<rparr>"

record totals =
  tot_torrents :: u64
  tot_seeders :: u64
  tot_leechers :: u64

definition totals_default :: totals where
  "totals_default = \<lparr>tot_torrents = 0, tot_seeders = 0, tot_leechers = 0\<rparr>"

record peer_val =
  flags :: u8
  seen :: u32

record peer_list =
  peers :: "(bytes, peer_val) table"
  seeders :: u64
  downloaded :: u64

definition peer_list_new :: peer_list where
  "peer_list_new = \<lparr>peers = [], seeders = 0, downloaded = 0\<rparr>"

section \<open>Operations on a peer list\<close>

definition leechers :: "peer_list \<Rightarrow> u64" where
  "leechers pl = word_of_nat (length (peers pl)) - seeders pl"

text \<open>A bare \<open>completed\<close> is cleared: it implies \<open>seeding\<close>.\<close>

definition sanitize :: "u8 \<Rightarrow> u8" where
  "sanitize f = (if f AND COMPLETED \<noteq> 0 \<and> f AND SEEDING = 0 then f AND NOT COMPLETED else f)"

definition pl_announce :: "peer_list \<Rightarrow> bytes \<Rightarrow> u8 \<Rightarrow> u32 \<Rightarrow> peer_list" where
  "pl_announce pl key f0 now =
     (let f = sanitize f0; is_seed = (f AND SEEDING \<noteq> 0)
      in case map_of (peers pl) key of
           Some old \<Rightarrow>
             let was_seed = (flags old AND SEEDING \<noteq> 0)
             in pl\<lparr>downloaded :=
                     (if f AND COMPLETED \<noteq> 0 \<and> flags old AND COMPLETED = 0
                      then downloaded pl + 1 else downloaded pl),
                   seeders :=
                     (if is_seed \<and> \<not> was_seed then seeders pl + 1
                      else if \<not> is_seed \<and> was_seed then seeders pl - 1
                      else seeders pl),
                   peers := AList.update key
                     \<lparr>flags = f OR (flags old AND COMPLETED), seen = now\<rparr> (peers pl)\<rparr>
         | None \<Rightarrow>
             pl\<lparr>downloaded := (if f AND COMPLETED \<noteq> 0 then downloaded pl + 1 else downloaded pl),
                seeders := (if is_seed then seeders pl + 1 else seeders pl),
                peers := AList.update key \<lparr>flags = f, seen = now\<rparr> (peers pl)\<rparr>)"

definition pl_remove :: "peer_list \<Rightarrow> bytes \<Rightarrow> peer_list" where
  "pl_remove pl key =
     (case map_of (peers pl) key of
        None \<Rightarrow> pl
      | Some old \<Rightarrow>
          pl\<lparr>peers := AList.delete key (peers pl),
             seeders := (if flags old AND SEEDING \<noteq> 0 then seeders pl - 1 else seeders pl)\<rparr>)"

text \<open>
  One pass of the loop of \<open>write_compact\<close> over the table. The first component says that
  the early return was taken.
\<close>

fun compact_pass ::
  "bool \<Rightarrow> (bytes \<times> peer_val) list \<Rightarrow> nat \<Rightarrow> bytes \<Rightarrow> bool \<times> nat \<times> bytes" where
  "compact_pass want_seed [] remaining out = (False, remaining, out)"
| "compact_pass want_seed ((key, val) # es) remaining out =
     (if remaining = 0 then (True, remaining, out)
      else if (flags val AND SEEDING \<noteq> 0) = want_seed
           then compact_pass want_seed es (remaining - 1) (out @ key)
           else compact_pass want_seed es remaining out)"

definition write_compact ::
  "((bytes \<times> peer_val) list \<Rightarrow> (bytes \<times> peer_val) list) \<Rightarrow> peer_list \<Rightarrow> nat \<Rightarrow> bytes \<Rightarrow> bytes" where
  "write_compact ord pl numwant out =
     (case compact_pass False (ord (peers pl)) numwant out of
        (True, _, out1) \<Rightarrow> out1
      | (False, remaining, out1) \<Rightarrow> snd (snd (compact_pass True (ord (peers pl)) remaining out1)))"

definition pl_expire :: "peer_list \<Rightarrow> u32 \<Rightarrow> u32 \<Rightarrow> peer_list" where
  "pl_expire pl now timeout =
     (let ps = filter (\<lambda>e. sat_sub now (seen (snd e)) < timeout) (peers pl)
      in pl\<lparr>peers := ps,
            seeders := word_of_nat (length (filter (\<lambda>e. flags (snd e) AND SEEDING \<noteq> 0) ps))\<rparr>)"

section \<open>Torrents\<close>

record torrent =
  v4 :: peer_list
  v6 :: peer_list
  base :: u32

definition torrent_new :: torrent where
  "torrent_new = \<lparr>v4 = peer_list_new, v6 = peer_list_new, base = 0\<rparr>"

definition torrent_counts :: "torrent \<Rightarrow> counts" where
  "torrent_counts t =
     \<lparr>complete = ucast (seeders (v4 t) + seeders (v6 t)),
      incomplete = ucast (leechers (v4 t) + leechers (v6 t)),
      c_downloaded = ucast (downloaded (v4 t) + downloaded (v6 t))\<rparr>"

definition is_empty :: "torrent \<Rightarrow> bool" where
  "is_empty t \<longleftrightarrow> peers (v4 t) = [] \<and> peers (v6 t) = [] \<and> downloaded (v4 t) = 0 \<and> downloaded (v6 t) = 0"

section \<open>The sharded store\<close>

type_synonym shard = "(info_hash, torrent) table"

record store =
  shards :: "shard list"

definition store_new :: store where
  "store_new = \<lparr>shards = map (\<lambda>_. []) [0..<SHARD_COUNT]\<rparr>"

text \<open>The top ten bits of the first four bytes, read as a big-endian \<open>u32\<close>.\<close>

definition shard_index :: "info_hash \<Rightarrow> nat" where
  "shard_index hash = unat (drop_bit (32 - 10) (from_be [hash ! 0, hash ! 1, hash ! 2, hash ! 3] :: u32))"

definition shard_at :: "store \<Rightarrow> nat \<Rightarrow> shard option" where
  "shard_at s i = (if i < length (shards s) then Some (shards s ! i) else None)"

definition set_shard :: "store \<Rightarrow> nat \<Rightarrow> shard \<Rightarrow> store" where
  "set_shard s i sh = s\<lparr>shards := (shards s)[i := sh]\<rparr>"

definition torrent_count :: "store \<Rightarrow> nat" where
  "torrent_count s = sum_list (map length (shards s))"

definition totals_torrent :: "totals \<Rightarrow> torrent \<Rightarrow> totals" where
  "totals_torrent tot t =
     tot\<lparr>tot_seeders := tot_seeders tot + (seeders (v4 t) + seeders (v6 t)),
         tot_leechers := tot_leechers tot + (leechers (v4 t) + leechers (v6 t))\<rparr>"

definition totals_shard :: "totals \<Rightarrow> shard \<Rightarrow> totals" where
  "totals_shard tot sh =
     foldl totals_torrent (tot\<lparr>tot_torrents := tot_torrents tot + word_of_nat (length sh)\<rparr>) (map snd sh)"

definition totals_of :: "store \<Rightarrow> totals" where
  "totals_of s = foldl totals_shard totals_default (shards s)"

type_synonym peer_order = "(bytes \<times> peer_val) list \<Rightarrow> (bytes \<times> peer_val) list"

definition announce_v4 ::
  "peer_order \<Rightarrow> store \<Rightarrow> info_hash \<Rightarrow> bytes \<Rightarrow> u8 \<Rightarrow> nat \<Rightarrow> u32 \<Rightarrow> bytes \<Rightarrow> (store \<times> counts \<times> bytes) option" where
  "announce_v4 ord s hash key f numwant now peers_out =
     do {
       sh \<leftarrow> shard_at s (shard_index hash);
       let t = (case map_of sh hash of Some t \<Rightarrow> t | None \<Rightarrow> torrent_new);
       let t = t\<lparr>base := now\<rparr>;
       let t = t\<lparr>v4 := pl_announce (v4 t) key f now\<rparr>;
       let peers_out = write_compact ord (v4 t) numwant peers_out;
       Some (set_shard s (shard_index hash) (AList.update hash t sh), torrent_counts t, peers_out)
     }"

definition announce_v6 ::
  "peer_order \<Rightarrow> store \<Rightarrow> info_hash \<Rightarrow> bytes \<Rightarrow> u8 \<Rightarrow> nat \<Rightarrow> u32 \<Rightarrow> bytes \<Rightarrow> (store \<times> counts \<times> bytes) option" where
  "announce_v6 ord s hash key f numwant now peers_out =
     do {
       sh \<leftarrow> shard_at s (shard_index hash);
       let t = (case map_of sh hash of Some t \<Rightarrow> t | None \<Rightarrow> torrent_new);
       let t = t\<lparr>base := now\<rparr>;
       let t = t\<lparr>v6 := pl_announce (v6 t) key f now\<rparr>;
       let peers_out = write_compact ord (v6 t) numwant peers_out;
       Some (set_shard s (shard_index hash) (AList.update hash t sh), torrent_counts t, peers_out)
     }"

definition remove_v4 :: "store \<Rightarrow> info_hash \<Rightarrow> bytes \<Rightarrow> u32 \<Rightarrow> (store \<times> counts) option" where
  "remove_v4 s hash key now =
     do {
       sh \<leftarrow> shard_at s (shard_index hash);
       case map_of sh hash of
         Some t \<Rightarrow>
           let t = t\<lparr>base := now, v4 := pl_remove (v4 t) key\<rparr>
           in Some (set_shard s (shard_index hash) (AList.update hash t sh), torrent_counts t)
       | None \<Rightarrow> Some (s, counts_default)
     }"

definition remove_v6 :: "store \<Rightarrow> info_hash \<Rightarrow> bytes \<Rightarrow> u32 \<Rightarrow> (store \<times> counts) option" where
  "remove_v6 s hash key now =
     do {
       sh \<leftarrow> shard_at s (shard_index hash);
       case map_of sh hash of
         Some t \<Rightarrow>
           let t = t\<lparr>base := now, v6 := pl_remove (v6 t) key\<rparr>
           in Some (set_shard s (shard_index hash) (AList.update hash t sh), torrent_counts t)
       | None \<Rightarrow> Some (s, counts_default)
     }"

definition scrape :: "store \<Rightarrow> info_hash \<Rightarrow> counts option" where
  "scrape s hash =
     do {
       sh \<leftarrow> shard_at s (shard_index hash);
       Some (case map_of sh hash of None \<Rightarrow> counts_default | Some t \<Rightarrow> torrent_counts t)
     }"

text \<open>
  \<open>gc\<close> takes the lock of one shard after the other: \<open>gc_at\<close> is the atomic part, the
  sweep of one shard.
\<close>

definition torrent_expire :: "u32 \<Rightarrow> torrent \<Rightarrow> torrent" where
  "torrent_expire now t =
     t\<lparr>v4 := pl_expire (v4 t) now PEER_TIMEOUT_MINUTES, v6 := pl_expire (v6 t) now PEER_TIMEOUT_MINUTES\<rparr>"

definition torrent_stale :: "u32 \<Rightarrow> torrent \<Rightarrow> bool" where
  "torrent_stale now t \<longleftrightarrow> is_empty t \<and> sat_sub now (base t) \<ge> TORRENT_TIMEOUT_MINUTES"

definition gc_shard :: "u32 \<Rightarrow> shard \<Rightarrow> shard" where
  "gc_shard now sh =
     filter (\<lambda>e. \<not> torrent_stale now (snd e)) (map (\<lambda>e. (fst e, torrent_expire now (snd e))) sh)"

definition gc_at :: "u32 \<Rightarrow> nat \<Rightarrow> store \<Rightarrow> store" where
  "gc_at now i s = set_shard s i (gc_shard now (shards s ! i))"

definition gc :: "u32 \<Rightarrow> store \<Rightarrow> store" where
  "gc now s = foldl (\<lambda>s i. gc_at now i s) s [0..<length (shards s)]"

end
