(* ===== verification/Store_Props.thy ===== *)
theory Store_Props
  imports Store
begin

text \<open>
  Correctness of the store: the peer lists (counters, flag rules, compact output, expiry),
  the two address families behind one interface, the sharding, the background sweep and the
  reachable states of the concurrent store.
\<close>

named_theorems pl_simps

section \<open>Peer lists\<close>

abbreviation is_seed :: "peer_val \<Rightarrow> bool" where "is_seed v \<equiv> seeding (flags v)"

abbreviation distinct_keys :: "('k, 'v) table \<Rightarrow> bool" where "distinct_keys m \<equiv> distinct (map fst m)"

text \<open>The well-formedness of a list of peers of \<open>n\<close> bytes: the seeder counter counts the seeders.\<close>

definition pl_ok :: "nat \<Rightarrow> peer_list \<Rightarrow> bool" where
  "pl_ok n pl \<longleftrightarrow>
     distinct_keys (peers pl) \<and> (\<forall>k \<in> fst ` set (peers pl). length k = n) \<and>
     seeders pl = word_of_nat (tally is_seed (peers pl))"

lemma pl_okD:
  "pl_ok n pl \<Longrightarrow> distinct_keys (peers pl)"
  "pl_ok n pl \<Longrightarrow> k \<in> fst ` set (peers pl) \<Longrightarrow> length k = n"
  "pl_ok n pl \<Longrightarrow> seeders pl = word_of_nat (tally is_seed (peers pl))"
  by (auto simp: pl_ok_def)

lemma pl_ok_new: "pl_ok n peer_list_new"
  by (simp add: pl_ok_def peer_list_new_def)

lemma leechers_tally:
  "pl_ok n pl \<Longrightarrow> leechers pl = word_of_nat (tally (\<lambda>v. \<not> is_seed v) (peers pl))"
  using arg_cong [OF tally_compl [of is_seed "peers pl"], of "word_of_nat :: nat \<Rightarrow> u64"]
  by (simp add: leechers_def pl_okD(3) diff_eq_eq add.commute)

subsection \<open>The flag rules\<close>

lemma seeding_sanitize [simp]: "seeding (sanitize f) = seeding f"
  by (simp add: sanitize_def)

lemma completed_sanitize [simp]: "completed (sanitize f) \<longleftrightarrow> completed f \<and> seeding f"
  by (auto simp: sanitize_def flag_test)

text \<open>The record that an announce leaves for its peer, given the one it had.\<close>

definition merged :: "peer_val option \<Rightarrow> u8 \<Rightarrow> u32 \<Rightarrow> peer_val" where
  "merged old f now =
     \<lparr>flags = (case old of None \<Rightarrow> sanitize f
               | Some v \<Rightarrow> sanitize f OR (flags v AND COMPLETED)), seen = now\<rparr>"

lemma seen_merged [simp]: "seen (merged old f now) = now"
  by (simp add: merged_def)

lemma seeding_merged [simp]: "seeding (flags (merged old f now)) = seeding f"
  by (simp add: merged_def split: option.split)

lemma completed_merged [simp]:
  "completed (flags (merged old f now)) \<longleftrightarrow>
     completed f \<and> seeding f \<or> (\<exists>v. old = Some v \<and> completed (flags v))"
  by (simp add: merged_def split: option.split)

lemma peers_announce [pl_simps]:
  "peers (pl_announce pl key f now) =
     AList.update key (merged (map_of (peers pl) key) f now) (peers pl)"
  by (simp add: pl_announce_def merged_def Let_def split: option.split)

lemma downloaded_announce [pl_simps]:
  "downloaded (pl_announce pl key f now) =
     downloaded pl + (if completed f \<and> seeding f \<and>
       (\<forall>v. map_of (peers pl) key = Some v \<longrightarrow> \<not> completed (flags v)) then 1 else 0)"
  by (auto simp: pl_announce_def Let_def flag_test split: option.split)

lemma seeders_announce:
  "seeders (pl_announce pl key f now) =
     seeders pl + (if seeding f then 1 else 0) -
       (case map_of (peers pl) key of None \<Rightarrow> 0 | Some v \<Rightarrow> if is_seed v then 1 else 0)"
  by (auto simp: pl_announce_def Let_def flag_test split: option.split)

lemma seed_tally_update:
  assumes "distinct_keys m"
  shows "(word_of_nat (tally P (AList.update k v m)) :: u64) =
    word_of_nat (tally P m) + (if P v then 1 else 0) -
      (case map_of m k of None \<Rightarrow> 0 | Some w \<Rightarrow> if P w then 1 else 0)"
proof (cases "map_of m k")
  case None
  then have "k \<notin> fst ` set m" by (simp add: map_of_eq_None_iff)
  with None show ?thesis by (simp add: tally_notin_update)
next
  case (Some w)
  have "(word_of_nat (tally P (AList.update k v m)) :: u64) + (if P w then 1 else 0) =
      word_of_nat (tally P m) + (if P v then 1 else 0)"
    using arg_cong [OF tally_update [OF assms Some, of P v], of "word_of_nat :: nat \<Rightarrow> u64"]
    by (simp split: if_splits)
  with Some show ?thesis by (simp add: eq_diff_eq)
qed

lemma seed_tally_delete:
  assumes "distinct_keys m" "map_of m k = Some w"
  shows "(word_of_nat (tally P (AList.delete k m)) :: u64) =
    word_of_nat (tally P m) - (if P w then 1 else 0)"
  using arg_cong [OF tally_delete [OF assms, of P], of "word_of_nat :: nat \<Rightarrow> u64"]
  by (simp add: eq_diff_eq split: if_splits)

lemma pl_ok_announce:
  assumes "pl_ok n pl" "length key = n"
  shows "pl_ok n (pl_announce pl key f now)"
proof -
  have d: "distinct_keys (peers pl)" using assms(1) by (rule pl_okD)
  have "seeders (pl_announce pl key f now) =
      word_of_nat (tally is_seed (peers (pl_announce pl key f now)))"
    unfolding seeders_announce peers_announce seed_tally_update [OF d]
    using pl_okD(3) [OF assms(1)] by (simp split: option.split)
  with assms d show ?thesis
    by (auto simp: pl_ok_def peers_announce distinct_update dom_update)
qed

lemma peers_remove [pl_simps]: "peers (pl_remove pl key) = AList.delete key (peers pl)"
  by (auto simp: pl_remove_def map_of_eq_None_iff split: option.split)

lemma downloaded_remove [pl_simps]: "downloaded (pl_remove pl key) = downloaded pl"
  by (simp add: pl_remove_def split: option.split)

lemma pl_ok_remove:
  assumes "pl_ok n pl"
  shows "pl_ok n (pl_remove pl key)"
proof (cases "map_of (peers pl) key")
  case None
  with assms show ?thesis by (simp add: pl_remove_def)
next
  case (Some w)
  have d: "distinct_keys (peers pl)" using assms by (rule pl_okD)
  show ?thesis
    using assms d Some seed_tally_delete [OF d Some, of is_seed]
    by (auto simp: pl_ok_def pl_remove_def distinct_delete flag_test
        dest: subsetD [OF set_delete_subset])
qed

subsection \<open>Expiry\<close>

lemma peers_expire [pl_simps]:
  "peers (pl_expire pl now timeout) = filter (\<lambda>e. sat_sub now (seen (snd e)) < timeout) (peers pl)"
  by (simp add: pl_expire_def)

lemma downloaded_expire [pl_simps]: "downloaded (pl_expire pl now timeout) = downloaded pl"
  by (simp add: pl_expire_def)

lemma pl_ok_expire: "pl_ok n pl \<Longrightarrow> pl_ok n (pl_expire pl now timeout)"
  by (auto simp: pl_ok_def pl_expire_def tally_def distinct_map_filter flag_test)

lemma expire_keeps_iff:
  assumes "pl_ok n pl"
  shows "map_of (peers (pl_expire pl now timeout)) k = Some v \<longleftrightarrow>
     map_of (peers pl) k = Some v \<and> sat_sub now (seen v) < timeout"
  by (cases "map_of (peers pl) k")
    (auto simp: peers_expire map_of_filter_distinct [OF pl_okD(1) [OF assms]]
      simp del: map_of_eq_Some_iff)

subsection \<open>Compact output\<close>

lemma compact_pass_spec:
  "compact_pass w es r out = (b, r', out') \<Longrightarrow>
   out' = out @ concat (map fst (take r (filter (\<lambda>e. is_seed (snd e) = w) es))) \<and>
   r' = r - length (filter (\<lambda>e. is_seed (snd e) = w) es) \<and>
   (b \<longrightarrow> r \<le> length (filter (\<lambda>e. is_seed (snd e) = w) es))"
proof (induction w es r out rule: compact_pass.induct)
  case (2 w key val es r out)
  show ?case
  proof (cases "r = 0")
    case True
    with 2 show ?thesis by simp
  next
    case False
    then obtain r0 where "r = Suc r0" by (cases r) auto
    with 2 show ?thesis by (auto simp: flag_test split: if_splits)
  qed
qed auto

text \<open>The order in which peers are handed out: leechers, then seeders.\<close>

definition handout :: "(bytes \<times> peer_val) list \<Rightarrow> (bytes \<times> peer_val) list" where
  "handout es = filter (\<lambda>e. \<not> is_seed (snd e)) es @ filter (\<lambda>e. is_seed (snd e)) es"

lemma write_compact_eq:
  "write_compact ord pl numwant out =
     out @ concat (map fst (take numwant (handout (ord (peers pl)))))"
proof -
  obtain b r o1 where p1: "compact_pass False (ord (peers pl)) numwant out = (b, r, o1)"
    by (metis prod_cases3)
  obtain b2 r2 o2 where p2: "compact_pass True (ord (peers pl)) r o1 = (b2, r2, o2)"
    by (metis prod_cases3)
  show ?thesis
    using compact_pass_spec [OF p1] compact_pass_spec [OF p2] p1 p2
    by (auto simp: write_compact_def handout_def split: bool.split)
qed

lemma set_handout [simp]: "set (handout es) = set es"
  by (auto simp: handout_def)

lemma length_handout [simp]: "length (handout es) = length es"
  using sum_length_filter_compl [of "\<lambda>e. is_seed (snd e)" es] by (simp add: handout_def)

lemma distinct_handout: "distinct (map fst es) \<Longrightarrow> distinct (map fst (handout es))"
  by (auto simp: handout_def distinct_map_filter) (metis eq_key_imp_eq_value)

lemma length_concat_fixed: "(\<forall>k \<in> set ks. length k = n) \<Longrightarrow> length (concat ks) = n * length ks"
  by (induction ks) auto

lemma length_write_compact:
  assumes "pl_ok n pl" "iteration_order ord"
  shows "length (write_compact ord pl numwant out) = length out + n * min numwant (length (peers pl))"
proof -
  let ?es = "take numwant (handout (ord (peers pl)))"
  have "set ?es \<subseteq> set (peers pl)"
    using set_take_subset [of numwant "handout (ord (peers pl))"] iteration_order_set [OF assms(2)]
    by auto
  then have "\<forall>k \<in> set (map fst ?es). length k = n"
    using pl_okD(2) [OF assms(1)] by auto
  from length_concat_fixed [OF this] show ?thesis
    by (simp add: write_compact_eq iteration_order_length [OF assms(2)] min.commute)
qed

section \<open>Shards\<close>

lemma shard_index_bound [simp]: "shard_index h < SHARD_COUNT"
proof -
  have "unat (drop_bit 22 w) < 1024" for w :: u32
    using unat_bound [of w]
    by (simp add: drop_bit_eq_div unat_div_distrib less_mult_imp_div_less)
  then show ?thesis by (simp add: shard_index_def SHARD_COUNT_def)
qed

definition torrent_ok :: "torrent \<Rightarrow> bool" where
  "torrent_ok t \<longleftrightarrow> pl_ok 6 (v4 t) \<and> pl_ok 18 (v6 t)"

definition shard_ok :: "nat \<Rightarrow> shard \<Rightarrow> bool" where
  "shard_ok i sh \<longleftrightarrow>
     distinct_keys sh \<and> (\<forall>e \<in> set sh. shard_index (fst e) = i \<and> torrent_ok (snd e))"

definition store_ok :: "store \<Rightarrow> bool" where
  "store_ok s \<longleftrightarrow> length (shards s) = SHARD_COUNT \<and> (\<forall>i < SHARD_COUNT. shard_ok i (shards s ! i))"

lemma torrent_ok_new [simp]: "torrent_ok torrent_new"
  by (simp add: torrent_ok_def torrent_new_def pl_ok_new)

lemma store_ok_new: "store_ok store_new"
  by (simp add: store_ok_def store_new_def shard_ok_def)

lemma store_ok_shard: "store_ok s \<Longrightarrow> shard_ok (shard_index h) (shards s ! shard_index h)"
  by (simp add: store_ok_def)

lemma shard_at_ok: "store_ok s \<Longrightarrow> shard_at s (shard_index h) = Some (shards s ! shard_index h)"
  by (simp add: shard_at_def store_ok_def)

lemma shard_ok_lookup: "shard_ok i sh \<Longrightarrow> map_of sh h = Some t \<Longrightarrow> torrent_ok t"
  by (auto simp: shard_ok_def dest: map_of_SomeD)

lemma shard_ok_update:
  "shard_ok (shard_index h) sh \<Longrightarrow> torrent_ok t \<Longrightarrow> shard_ok (shard_index h) (AList.update h t sh)"
  by (auto simp: shard_ok_def distinct_update dest!: set_update_subset)

lemma set_shard_ok: "store_ok s \<Longrightarrow> shard_ok i sh \<Longrightarrow> store_ok (set_shard s i sh)"
  by (cases "i < length (shards s)")
    (auto simp: store_ok_def set_shard_def nth_list_update list_update_beyond)

section \<open>The store as one map\<close>

text \<open>The abstract state: which torrent the store holds for a hash, shards forgotten.\<close>

definition torrent_at :: "store \<Rightarrow> info_hash \<Rightarrow> torrent option" where
  "torrent_at s h =
     (if shard_index h < length (shards s) then map_of (shards s ! shard_index h) h else None)"

definition torrent_or_new :: "store \<Rightarrow> info_hash \<Rightarrow> torrent" where
  "torrent_or_new s h = (case torrent_at s h of Some t \<Rightarrow> t | None \<Rightarrow> torrent_new)"

lemma torrent_at_new [simp]: "torrent_at store_new h = None"
  by (simp add: torrent_at_def store_new_def)

lemma torrent_at_shard: "store_ok s \<Longrightarrow> map_of (shards s ! shard_index h) h = torrent_at s h"
  by (simp add: torrent_at_def store_ok_def)

lemma torrent_at_ok: "store_ok s \<Longrightarrow> torrent_at s h = Some t \<Longrightarrow> torrent_ok t"
  using shard_ok_lookup [OF store_ok_shard] by (simp add: torrent_at_shard [symmetric])

lemma torrent_or_new_ok: "store_ok s \<Longrightarrow> torrent_ok (torrent_or_new s h)"
  by (auto simp: torrent_or_new_def dest: torrent_at_ok split: option.split)

lemma torrent_at_set:
  assumes "store_ok s"
  shows "torrent_at (set_shard s (shard_index h) (AList.update h t (shards s ! shard_index h))) =
    (torrent_at s)(h \<mapsto> t)"
  using assms
  by (auto simp: fun_eq_iff torrent_at_def set_shard_def store_ok_def update_conv' nth_list_update)

text \<open>Numbers of peers of a swarm, the contents of a peer list as a map.\<close>

definition n_seed :: "(bytes \<rightharpoonup> peer_val) \<Rightarrow> nat" where
  "n_seed m = card {k. \<exists>v. m k = Some v \<and> is_seed v}"

definition n_leech :: "(bytes \<rightharpoonup> peer_val) \<Rightarrow> nat" where
  "n_leech m = card {k. \<exists>v. m k = Some v \<and> \<not> is_seed v}"

lemma ucast_word_of_nat: "(ucast (word_of_nat m :: u64) :: u32) = word_of_nat m"
  by (simp add: word_unat_eq_iff unsigned_ucast_eq take_bit_eq_mod unat_of_nat mod_mod_cancel)

lemma pl_ok_counts:
  assumes "pl_ok n pl"
  shows "seeders pl = word_of_nat (n_seed (map_of (peers pl)))"
    and "leechers pl = word_of_nat (n_leech (map_of (peers pl)))"
  using leechers_tally [OF assms] pl_okD [OF assms]
  by (simp_all add: tally_card n_seed_def n_leech_def del: map_of_eq_Some_iff)

lemma torrent_counts_ok:
  assumes "torrent_ok t"
  shows "complete (torrent_counts t) =
      word_of_nat (n_seed (map_of (peers (v4 t))) + n_seed (map_of (peers (v6 t))))"
    and "incomplete (torrent_counts t) =
      word_of_nat (n_leech (map_of (peers (v4 t))) + n_leech (map_of (peers (v6 t))))"
  using assms pl_ok_counts [of 6 "v4 t"] pl_ok_counts [of 18 "v6 t"]
  by (simp_all add: torrent_ok_def torrent_counts_def ucast_word_of_nat flip: of_nat_add)

section \<open>The two address families\<close>

text \<open>
  \<open>announce_v4\<close>/\<open>announce_v6\<close> and \<open>remove_v4\<close>/\<open>remove_v6\<close> do the same work on the
  two peer lists of a torrent. The locale is that contract: \<open>sel\<close> is the list the family
  works on, \<open>other\<close> the one it must not touch.
\<close>

locale family =
  fixes sel :: "torrent \<Rightarrow> peer_list"
    and upd :: "(peer_list \<Rightarrow> peer_list) \<Rightarrow> torrent \<Rightarrow> torrent"
    and other :: "torrent \<Rightarrow> peer_list"
    and n :: nat and n' :: nat
    and ann :: "peer_order \<Rightarrow> store \<Rightarrow> info_hash \<Rightarrow> bytes \<Rightarrow> u8 \<Rightarrow> nat \<Rightarrow> u32 \<Rightarrow> bytes \<Rightarrow>
      (store \<times> counts \<times> bytes) option"
    and rem :: "store \<Rightarrow> info_hash \<Rightarrow> bytes \<Rightarrow> u32 \<Rightarrow> (store \<times> counts) option"
  assumes sel_upd: "sel (upd g t) = g (sel t)"
    and other_upd: "other (upd g t) = other t"
    and base_upd: "base (upd g t) = base t"
    and sel_base: "sel (t\<lparr>base := b\<rparr>) = sel t"
    and other_base: "other (t\<lparr>base := b\<rparr>) = other t"
    and ok_iff: "torrent_ok t \<longleftrightarrow> pl_ok n (sel t) \<and> pl_ok n' (other t)"
    and ann_eq: "ann ord s h key f numwant now out =
      do {
        sh \<leftarrow> shard_at s (shard_index h);
        let t = upd (\<lambda>pl. pl_announce pl key f now)
          ((case map_of sh h of Some t \<Rightarrow> t | None \<Rightarrow> torrent_new)\<lparr>base := now\<rparr>);
        Some (set_shard s (shard_index h) (AList.update h t sh), torrent_counts t,
          write_compact ord (sel t) numwant out)
      }"
    and rem_eq: "rem s h key now =
      do {
        sh \<leftarrow> shard_at s (shard_index h);
        case map_of sh h of
          Some t \<Rightarrow>
            let t = upd (\<lambda>pl. pl_remove pl key) (t\<lparr>base := now\<rparr>)
            in Some (set_shard s (shard_index h) (AList.update h t sh), torrent_counts t)
        | None \<Rightarrow> Some (s, counts_default)
      }"
begin

lemma announce_spec:
  assumes "store_ok s" "length key = n"
  obtains t s' where
    "ann ord s h key f numwant now out =
      Some (s', torrent_counts t, write_compact ord (sel t) numwant out)"
    "store_ok s'" "torrent_at s' = (torrent_at s)(h \<mapsto> t)" "torrent_ok t" "base t = now"
    "sel t = pl_announce (sel (torrent_or_new s h)) key f now"
    "other t = other (torrent_or_new s h)"
proof -
  define t where "t = upd (\<lambda>pl. pl_announce pl key f now) ((torrent_or_new s h)\<lparr>base := now\<rparr>)"
  define s' where "s' = set_shard s (shard_index h) (AList.update h t (shards s ! shard_index h))"
  have t: "sel t = pl_announce (sel (torrent_or_new s h)) key f now"
    "other t = other (torrent_or_new s h)" "base t = now"
    by (simp_all add: t_def sel_upd other_upd base_upd sel_base other_base)
  have ok: "torrent_ok t"
    using torrent_or_new_ok [OF assms(1)] assms(2) by (simp add: ok_iff t pl_ok_announce)
  have "store_ok s'"
    unfolding s'_def using assms(1) ok by (simp add: set_shard_ok shard_ok_update store_ok_shard)
  moreover have "torrent_at s' = (torrent_at s)(h \<mapsto> t)"
    unfolding s'_def using assms(1) by (rule torrent_at_set)
  moreover have "ann ord s h key f numwant now out =
      Some (s', torrent_counts t, write_compact ord (sel t) numwant out)"
    using assms(1)
    by (simp add: ann_eq shard_at_ok torrent_at_shard Let_def s'_def t_def torrent_or_new_def)
  ultimately show ?thesis using that t ok by blast
qed

lemma remove_spec:
  assumes "store_ok s"
  obtains "rem s h key now = Some (s, counts_default)" "torrent_at s h = None"
  | t t0 s' where "torrent_at s h = Some t0" "rem s h key now = Some (s', torrent_counts t)"
    "store_ok s'" "torrent_at s' = (torrent_at s)(h \<mapsto> t)" "torrent_ok t" "base t = now"
    "sel t = pl_remove (sel t0) key" "other t = other t0"
proof (cases "torrent_at s h")
  case None
  then show ?thesis
    using that(1) assms by (simp add: rem_eq shard_at_ok torrent_at_shard)
next
  case (Some t0)
  define t where "t = upd (\<lambda>pl. pl_remove pl key) (t0\<lparr>base := now\<rparr>)"
  define s' where "s' = set_shard s (shard_index h) (AList.update h t (shards s ! shard_index h))"
  have t: "sel t = pl_remove (sel t0) key" "other t = other t0" "base t = now"
    by (simp_all add: t_def sel_upd other_upd base_upd sel_base other_base)
  have ok: "torrent_ok t"
    using torrent_at_ok [OF assms Some] by (simp add: ok_iff t pl_ok_remove)
  have "store_ok s'"
    unfolding s'_def using assms ok by (simp add: set_shard_ok shard_ok_update store_ok_shard)
  moreover have "torrent_at s' = (torrent_at s)(h \<mapsto> t)"
    unfolding s'_def using assms by (rule torrent_at_set)
  moreover have "rem s h key now = Some (s', torrent_counts t)"
    using assms Some by (simp add: rem_eq shard_at_ok torrent_at_shard Let_def s'_def t_def)
  ultimately show ?thesis using that(2) [OF Some] t ok by blast
qed

text \<open>After an announce the peer is in its swarm; after a removal it is not.\<close>

lemma announce_registers:
  assumes "store_ok s" "length key = n" "ann ord s h key f numwant now out = Some (s', c, out')"
  shows "map_of (peers (sel (torrent_or_new s' h))) =
    (map_of (peers (sel (torrent_or_new s h))))
      (key \<mapsto> merged (map_of (peers (sel (torrent_or_new s h))) key) f now)"
proof (rule announce_spec [OF assms(1,2), of ord h f numwant now out])
  fix t s''
  assume "ann ord s h key f numwant now out =
      Some (s'', torrent_counts t, write_compact ord (sel t) numwant out)"
    "torrent_at s'' = (torrent_at s)(h \<mapsto> t)"
    "sel t = pl_announce (sel (torrent_or_new s h)) key f now"
  with assms(3) show ?thesis
    by (simp add: torrent_or_new_def [of s'] peers_announce update_conv')
qed

lemma announce_other_hash:
  assumes "store_ok s" "length key = n" "ann ord s h key f numwant now out = Some (s', c, out')"
    and "h' \<noteq> h"
  shows "torrent_at s' h' = torrent_at s h'"
  by (rule announce_spec [OF assms(1,2), of ord h f numwant now out]) (use assms in auto)

lemma announce_out:
  assumes "store_ok s" "length key = n" "ann ord s h key f numwant now out = Some (s', c, out')"
    and "iteration_order ord"
  shows "\<exists>ps. out' = out @ ps \<and>
    length ps = n * min numwant (length (peers (sel (torrent_or_new s' h))))"
proof (rule announce_spec [OF assms(1,2), of ord h f numwant now out])
  fix t s''
  assume t: "ann ord s h key f numwant now out =
      Some (s'', torrent_counts t, write_compact ord (sel t) numwant out)"
    "torrent_at s'' = (torrent_at s)(h \<mapsto> t)" "torrent_ok t"
  then have "pl_ok n (sel t)" by (simp add: ok_iff)
  from length_write_compact [OF this assms(4), of numwant out] t assms(3) show ?thesis
    by (auto simp: write_compact_eq torrent_or_new_def)
qed

end

lemma family_update:
  "v4_update (\<lambda>pl. pl_announce pl key f now) t = t\<lparr>v4 := pl_announce (v4 t) key f now\<rparr>"
  "v6_update (\<lambda>pl. pl_announce pl key f now) t = t\<lparr>v6 := pl_announce (v6 t) key f now\<rparr>"
  "v4_update (\<lambda>pl. pl_remove pl key) t = t\<lparr>v4 := pl_remove (v4 t) key\<rparr>"
  "v6_update (\<lambda>pl. pl_remove pl key) t = t\<lparr>v6 := pl_remove (v6 t) key\<rparr>"
  by simp_all

interpretation fam4: family v4 v4_update v6 6 18 announce_v4 remove_v4
  by unfold_locales
    (auto simp: torrent_ok_def announce_v4_def remove_v4_def Let_def family_update cong: option.case_cong)

interpretation fam6: family v6 v6_update v4 18 6 announce_v6 remove_v6
  by unfold_locales
    (auto simp: torrent_ok_def announce_v6_def remove_v6_def Let_def family_update cong: option.case_cong)

end
