(* ===== verification/Store_Sweep.thy ===== *)
theory Store_Sweep
  imports Store_Props Machine
begin

text \<open>
  The background sweep \<open>gc\<close>, shard by shard, and the reachable states of a store whose
  operations interleave with it: every operation holds the lock of one shard, so a step is
  one announce, one removal or the sweep of one shard.
\<close>

section \<open>The sweep\<close>

lemma torrent_expire_ok: "torrent_ok t \<Longrightarrow> torrent_ok (torrent_expire now t)"
  by (simp add: torrent_ok_def torrent_expire_def pl_ok_expire)

lemma shard_ok_gc: "shard_ok i sh \<Longrightarrow> shard_ok i (gc_shard now sh)"
  by (auto simp: shard_ok_def gc_shard_def distinct_map_filter comp_def torrent_expire_ok)

lemma gc_at_ok: "store_ok s \<Longrightarrow> i < SHARD_COUNT \<Longrightarrow> store_ok (gc_at now i s)"
  unfolding gc_at_def by (rule set_shard_ok) (auto simp: store_ok_def shard_ok_gc)

text \<open>What the sweep does to one torrent.\<close>

definition swept :: "u32 \<Rightarrow> torrent \<Rightarrow> torrent option" where
  "swept now t =
     (if torrent_stale now (torrent_expire now t) then None else Some (torrent_expire now t))"

lemma map_of_map_snd: "map_of (map (\<lambda>e. (fst e, g (snd e))) m) k = map_option g (map_of m k)"
  by (induction m) auto

lemma gc_shard_get:
  "distinct_keys sh \<Longrightarrow> map_of (gc_shard now sh) h = Option.bind (map_of sh h) (swept now)"
  unfolding gc_shard_def
  by (subst map_of_filter_distinct)
    (auto simp: comp_def map_of_map_snd swept_def split: option.split)

lemma torrent_at_gc_at:
  assumes "store_ok s" "i < SHARD_COUNT"
  shows "torrent_at (gc_at now i s) h =
    (if shard_index h = i then Option.bind (torrent_at s h) (swept now) else torrent_at s h)"
proof -
  have "distinct_keys (shards s ! i)" "length (shards s) = SHARD_COUNT"
    using assms by (auto simp: store_ok_def shard_ok_def)
  with assms(2) show ?thesis
    by (simp add: torrent_at_def gc_at_def set_shard_def gc_shard_get nth_list_update)
qed

lemma shards_gc_at: "shards (gc_at now i s) = (shards s)[i := gc_shard now (shards s ! i)]"
  by (simp add: gc_at_def set_shard_def)

lemma shards_gc_upto:
  "n \<le> length (shards s) \<Longrightarrow>
   shards (foldl (\<lambda>s i. gc_at now i s) s [0..<n]) =
     map (gc_shard now) (take n (shards s)) @ drop n (shards s)"
proof (induction n)
  case (Suc n)
  then have n: "n < length (shards s)" by simp
  with Suc show ?case
    by (simp add: shards_gc_at nth_append list_update_append take_Suc_conv_app_nth
        Cons_nth_drop_Suc [symmetric])
qed simp

lemma shards_gc: "shards (gc now s) = map (gc_shard now) (shards s)"
  unfolding gc_def by (subst shards_gc_upto) simp_all

lemma gc_ok: "store_ok s \<Longrightarrow> store_ok (gc now s)"
  by (simp add: store_ok_def shards_gc shard_ok_gc)

lemma torrent_at_gc:
  assumes "store_ok s"
  shows "torrent_at (gc now s) h = Option.bind (torrent_at s h) (swept now)"
proof -
  have "distinct_keys (shards s ! shard_index h)" "length (shards s) = SHARD_COUNT"
    using store_ok_shard [OF assms] assms by (auto simp: store_ok_def shard_ok_def)
  then show ?thesis
    by (simp add: torrent_at_def shards_gc gc_shard_get)
qed

section \<open>Steps of the concurrent store\<close>

datatype store_event =
  Announce4 info_hash bytes u8 u32
| Announce6 info_hash bytes u8 u32
| Remove4 info_hash bytes u32
| Remove6 info_hash bytes u32
| Sweep u32 nat

fun event_ok :: "store_event \<Rightarrow> bool" where
  "event_ok (Announce4 h key f now) \<longleftrightarrow> length key = 6"
| "event_ok (Announce6 h key f now) \<longleftrightarrow> length key = 18"
| "event_ok (Sweep now i) \<longleftrightarrow> i < SHARD_COUNT"
| "event_ok _ \<longleftrightarrow> True"

inductive store_step :: "store \<Rightarrow> store_event \<Rightarrow> store \<Rightarrow> bool" where
  step_announce4:
    "announce_v4 ord s h key f numwant now out = Some (s', c, out') \<Longrightarrow> length key = 6 \<Longrightarrow>
     store_step s (Announce4 h key f now) s'"
| step_announce6:
    "announce_v6 ord s h key f numwant now out = Some (s', c, out') \<Longrightarrow> length key = 18 \<Longrightarrow>
     store_step s (Announce6 h key f now) s'"
| step_remove4:
    "remove_v4 s h key now = Some (s', c) \<Longrightarrow> store_step s (Remove4 h key now) s'"
| step_remove6:
    "remove_v6 s h key now = Some (s', c) \<Longrightarrow> store_step s (Remove6 h key now) s'"
| step_sweep:
    "i < SHARD_COUNT \<Longrightarrow> store_step s (Sweep now i) (gc_at now i s)"

inductive_cases store_stepE:
  "store_step s (Announce4 h key f now) s'"
  "store_step s (Announce6 h key f now) s'"
  "store_step s (Remove4 h key now) s'"
  "store_step s (Remove6 h key now) s'"
  "store_step s (Sweep now i) s'"

lemma step_event_ok: "store_step s e s' \<Longrightarrow> event_ok e"
  by (cases rule: store_step.cases) auto

abbreviation store_run :: "store \<Rightarrow> store_event list \<Rightarrow> store \<Rightarrow> bool" where
  "store_run \<equiv> run store_step"

text \<open>The effect of a step on a torrent: the abstract transition the step implements.\<close>

fun effect :: "store_event \<Rightarrow> info_hash \<Rightarrow> torrent option \<Rightarrow> torrent option" where
  "effect (Announce4 h key f now) h' t =
     (if h' = h then (let t0 = (case t of Some t \<Rightarrow> t | None \<Rightarrow> torrent_new)
        in Some (t0\<lparr>base := now, v4 := pl_announce (v4 t0) key f now\<rparr>)) else t)"
| "effect (Announce6 h key f now) h' t =
     (if h' = h then (let t0 = (case t of Some t \<Rightarrow> t | None \<Rightarrow> torrent_new)
        in Some (t0\<lparr>base := now, v6 := pl_announce (v6 t0) key f now\<rparr>)) else t)"
| "effect (Remove4 h key now) h' t =
     (if h' = h then map_option (\<lambda>t. t\<lparr>base := now, v4 := pl_remove (v4 t) key\<rparr>) t else t)"
| "effect (Remove6 h key now) h' t =
     (if h' = h then map_option (\<lambda>t. t\<lparr>base := now, v6 := pl_remove (v6 t) key\<rparr>) t else t)"
| "effect (Sweep now i) h' t = (if shard_index h' = i then Option.bind t (swept now) else t)"

lemma torrent_ext: "v4 t = v4 u \<Longrightarrow> v6 t = v6 u \<Longrightarrow> base t = base u \<Longrightarrow> t = (u :: torrent)"
  by (cases t; cases u) simp

lemma step_refines:
  assumes "store_step s e s'" "store_ok s"
  shows "store_ok s' \<and> (\<forall>h. torrent_at s' h = effect e h (torrent_at s h))"
  using assms
proof cases
  case (step_announce4 ord h key f numwant now out c out')
  then show ?thesis
    by - (rule fam4.announce_spec [OF assms(2) step_announce4(3), of ord h f numwant now out],
      auto simp: Let_def torrent_or_new_def intro!: torrent_ext)
next
  case (step_announce6 ord h key f numwant now out c out')
  then show ?thesis
    by - (rule fam6.announce_spec [OF assms(2) step_announce6(3), of ord h f numwant now out],
      auto simp: Let_def torrent_or_new_def intro!: torrent_ext)
next
  case (step_remove4 h key now c)
  then show ?thesis
    by - (rule fam4.remove_spec [OF assms(2), of h key now],
      use assms(2) in \<open>auto intro!: torrent_ext\<close>)
next
  case (step_remove6 h key now c)
  then show ?thesis
    by - (rule fam6.remove_spec [OF assms(2), of h key now],
      use assms(2) in \<open>auto intro!: torrent_ext\<close>)
next
  case (step_sweep i now)
  then show ?thesis
    using assms(2) by (simp add: gc_at_ok torrent_at_gc_at)
qed

interpretation store_machine: machine "\<lambda>s. s = store_new" store_step store_ok
  by unfold_locales (use store_ok_new step_refines in auto)

lemmas run_ok = store_machine.run_inv

section \<open>Totals\<close>

lemma totals_torrents:
  "foldl totals_torrent tot ts =
     tot\<lparr>tot_seeders := tot_seeders tot + (\<Sum>t\<leftarrow>ts. seeders (v4 t) + seeders (v6 t)),
         tot_leechers := tot_leechers tot + (\<Sum>t\<leftarrow>ts. leechers (v4 t) + leechers (v6 t))\<rparr>"
  by (induction ts arbitrary: tot) (simp_all add: totals_torrent_def add.assoc)

lemma totals_shards:
  "foldl totals_shard tot shs =
     tot\<lparr>tot_torrents := tot_torrents tot + word_of_nat (\<Sum>sh\<leftarrow>shs. length sh),
         tot_seeders := tot_seeders tot +
           (\<Sum>t\<leftarrow>concat (map (map snd) shs). seeders (v4 t) + seeders (v6 t)),
         tot_leechers := tot_leechers tot +
           (\<Sum>t\<leftarrow>concat (map (map snd) shs). leechers (v4 t) + leechers (v6 t))\<rparr>"
  by (induction shs arbitrary: tot) (simp_all add: totals_shard_def totals_torrents add.assoc)

text \<open>All torrents of the store, with the peers they hold.\<close>

definition all_torrents :: "store \<Rightarrow> torrent list" where
  "all_torrents s = concat (map (map snd) (shards s))"

lemma all_torrents_ok: "store_ok s \<Longrightarrow> t \<in> set (all_torrents s) \<Longrightarrow> torrent_ok t"
  unfolding all_torrents_def store_ok_def shard_ok_def
  by (fastforce simp: in_set_conv_nth [of _ "shards s"])

lemma sum_word_of_nat: "(\<Sum>x\<leftarrow>xs. word_of_nat (g x)) = word_of_nat (\<Sum>x\<leftarrow>xs. g x)"
  by (induction xs) simp_all

lemma totals_of_exact:
  assumes "store_ok s"
  shows "totals_of s =
    \<lparr>tot_torrents = word_of_nat (length (all_torrents s)),
     tot_seeders = word_of_nat (\<Sum>t\<leftarrow>all_torrents s.
       n_seed (map_of (peers (v4 t))) + n_seed (map_of (peers (v6 t)))),
     tot_leechers = word_of_nat (\<Sum>t\<leftarrow>all_torrents s.
       n_leech (map_of (peers (v4 t))) + n_leech (map_of (peers (v6 t))))\<rparr>"
proof -
  have c: "seeders (v4 t) + seeders (v6 t) =
      word_of_nat (n_seed (map_of (peers (v4 t))) + n_seed (map_of (peers (v6 t))))"
    "leechers (v4 t) + leechers (v6 t) =
      word_of_nat (n_leech (map_of (peers (v4 t))) + n_leech (map_of (peers (v6 t))))"
    if "t \<in> set (all_torrents s)" for t
    using all_torrents_ok [OF assms that] pl_ok_counts [of 6 "v4 t"] pl_ok_counts [of 18 "v6 t"]
    by (simp_all add: torrent_ok_def)
  have "length (all_torrents s) = (\<Sum>sh\<leftarrow>shards s. length sh)"
    by (simp add: all_torrents_def length_concat comp_def)
  with c show ?thesis
    by (simp add: totals_of_def totals_shards totals_default_def sum_word_of_nat [symmetric]
        cong: map_cong flip: all_torrents_def)
qed

end
