(* ===== verification/Store_Spec.thy ===== *)
theory Store_Spec
  imports Store_Sweep
begin

text \<open>
  The abstract specification of the tracker's store: a map from info-hashes to swarms, where a
  swarm is two finite maps of peers (seeding?, completed?, last seen) and two completion
  counters. The sharded, flag-encoded, counter-caching store of \<open>store.rs\<close> implements it,
  operation by operation and therefore for every interleaving of its operations.
\<close>

record peer_info =
  p_seed :: bool
  p_done :: bool
  p_seen :: u32

record swarm =
  sw4 :: "bytes \<rightharpoonup> peer_info"
  sw6 :: "bytes \<rightharpoonup> peer_info"
  done4 :: u64
  done6 :: u64
  sw_base :: u32

type_synonym tracker = "info_hash \<rightharpoonup> swarm"

section \<open>What the operations promise\<close>

definition empty_swarm :: swarm where
  "empty_swarm = \<lparr>sw4 = Map.empty, sw6 = Map.empty, done4 = 0, done6 = 0, sw_base = 0\<rparr>"

text \<open>A peer counts as having completed the torrent once it says so while it seeds, and for
  as long as it stays in the swarm.\<close>

definition announced :: "peer_info option \<Rightarrow> u8 \<Rightarrow> u32 \<Rightarrow> peer_info" where
  "announced old f now =
     \<lparr>p_seed = seeding f,
      p_done = (completed f \<and> seeding f \<or> (\<exists>v. old = Some v \<and> p_done v)), p_seen = now\<rparr>"

text \<open>One more completion is counted when a peer completes that had not completed before.\<close>

definition completions :: "peer_info option \<Rightarrow> u8 \<Rightarrow> u64" where
  "completions old f =
     (if completed f \<and> seeding f \<and> \<not> (\<exists>v. old = Some v \<and> p_done v) then 1 else 0)"

definition young :: "u32 \<Rightarrow> peer_info \<Rightarrow> bool" where
  "young now p \<longleftrightarrow> unat now < unat (p_seen p) + 45"

definition keep_young :: "u32 \<Rightarrow> (bytes \<rightharpoonup> peer_info) \<Rightarrow> (bytes \<rightharpoonup> peer_info)" where
  "keep_young now m = (\<lambda>k. case m k of None \<Rightarrow> None | Some p \<Rightarrow> if young now p then Some p else None)"

text \<open>A swarm is dropped when it has no peers left, was never completed and was last used a
  day ago.\<close>

definition spec_sweep :: "u32 \<Rightarrow> swarm \<Rightarrow> swarm option" where
  "spec_sweep now w =
     (let w = w\<lparr>sw4 := keep_young now (sw4 w), sw6 := keep_young now (sw6 w)\<rparr>
      in if sw4 w = Map.empty \<and> sw6 w = Map.empty \<and> done4 w = 0 \<and> done6 w = 0 \<and>
            unat (sw_base w) + 1440 \<le> unat now
         then None else Some w)"

fun spec_step :: "store_event \<Rightarrow> tracker \<Rightarrow> tracker" where
  "spec_step (Announce4 h key f now) tr =
     (let w = (case tr h of Some w \<Rightarrow> w | None \<Rightarrow> empty_swarm)
      in tr(h \<mapsto> w\<lparr>sw_base := now, done4 := done4 w + completions (sw4 w key) f,
           sw4 := (sw4 w)(key \<mapsto> announced (sw4 w key) f now)\<rparr>))"
| "spec_step (Announce6 h key f now) tr =
     (let w = (case tr h of Some w \<Rightarrow> w | None \<Rightarrow> empty_swarm)
      in tr(h \<mapsto> w\<lparr>sw_base := now, done6 := done6 w + completions (sw6 w key) f,
           sw6 := (sw6 w)(key \<mapsto> announced (sw6 w key) f now)\<rparr>))"
| "spec_step (Remove4 h key now) tr =
     (case tr h of None \<Rightarrow> tr
      | Some w \<Rightarrow> tr(h \<mapsto> w\<lparr>sw_base := now, sw4 := (sw4 w)(key := None)\<rparr>))"
| "spec_step (Remove6 h key now) tr =
     (case tr h of None \<Rightarrow> tr
      | Some w \<Rightarrow> tr(h \<mapsto> w\<lparr>sw_base := now, sw6 := (sw6 w)(key := None)\<rparr>))"
| "spec_step (Sweep now i) tr =
     (\<lambda>h. if shard_index h = i then Option.bind (tr h) (spec_sweep now) else tr h)"

definition seeds :: "(bytes \<rightharpoonup> peer_info) \<Rightarrow> nat" where
  "seeds m = card {k. \<exists>p. m k = Some p \<and> p_seed p}"

definition leeches :: "(bytes \<rightharpoonup> peer_info) \<Rightarrow> nat" where
  "leeches m = card {k. \<exists>p. m k = Some p \<and> \<not> p_seed p}"

text \<open>The counts of a swarm, as the three 32-bit fields of the responses.\<close>

definition swarm_counts :: "swarm \<Rightarrow> counts" where
  "swarm_counts w =
     \<lparr>complete = word_of_nat (seeds (sw4 w) + seeds (sw6 w)),
      incomplete = word_of_nat (leeches (sw4 w) + leeches (sw6 w)),
      c_downloaded = ucast (done4 w + done6 w)\<rparr>"

definition spec_counts :: "tracker \<Rightarrow> info_hash \<Rightarrow> counts" where
  "spec_counts tr h = (case tr h of None \<Rightarrow> counts_default | Some w \<Rightarrow> swarm_counts w)"

section \<open>The abstraction function\<close>

definition peer_view :: "peer_val \<Rightarrow> peer_info" where
  "peer_view v = \<lparr>p_seed = seeding (flags v), p_done = completed (flags v), p_seen = seen v\<rparr>"

definition peers_view :: "peer_list \<Rightarrow> (bytes \<rightharpoonup> peer_info)" where
  "peers_view pl = (\<lambda>k. map_option peer_view (map_of (peers pl) k))"

definition torrent_view :: "torrent \<Rightarrow> swarm" where
  "torrent_view t =
     \<lparr>sw4 = peers_view (v4 t), sw6 = peers_view (v6 t), done4 = downloaded (v4 t),
      done6 = downloaded (v6 t), sw_base = base t\<rparr>"

definition view :: "store \<Rightarrow> tracker" where
  "view s = (\<lambda>h. map_option torrent_view (torrent_at s h))"

named_theorems view_simps

lemma view_new [view_simps]: "view store_new = Map.empty"
  by (simp add: view_def)

lemma torrent_view_new [view_simps]: "torrent_view torrent_new = empty_swarm"
  by (simp add: torrent_view_def torrent_new_def empty_swarm_def peers_view_def peer_list_new_def)

lemma peers_view_new [view_simps]: "peers_view peer_list_new = Map.empty"
  by (simp add: peers_view_def peer_list_new_def fun_eq_iff)

lemma downloaded_new [view_simps]: "downloaded peer_list_new = 0"
  by (simp add: peer_list_new_def)

lemma peer_view_merged: "peer_view (merged old f now) = announced (map_option peer_view old) f now"
  by (cases old) (auto simp: peer_view_def announced_def)

lemma peers_view_announce [view_simps]:
  "peers_view (pl_announce pl key f now) =
     (peers_view pl)(key \<mapsto> announced (peers_view pl key) f now)"
  by (rule ext) (simp add: peers_view_def peers_announce update_conv' peer_view_merged)

lemma downloaded_view [view_simps]:
  "downloaded (pl_announce pl key f now) = downloaded pl + completions (peers_view pl key) f"
  by (cases "map_of (peers pl) key")
    (auto simp: downloaded_announce completions_def peers_view_def peer_view_def)

lemmas downloaded_remove [view_simps]

lemma peers_view_remove [view_simps]:
  "pl_ok n pl \<Longrightarrow> peers_view (pl_remove pl key) = (peers_view pl)(key := None)"
  by (rule ext) (simp add: peers_view_def peers_remove delete_conv')

lemma young_iff: "sat_sub now (seen v) < PEER_TIMEOUT_MINUTES \<longleftrightarrow> young now (peer_view v)"
  by (auto simp: young_def peer_view_def PEER_TIMEOUT_MINUTES_def word_less_nat_alt unat_sat_sub)

lemma peers_view_expire [view_simps]:
  "pl_ok n pl \<Longrightarrow> peers_view (pl_expire pl now PEER_TIMEOUT_MINUTES) = keep_young now (peers_view pl)"
  by (rule ext)
    (simp add: peers_view_def peers_expire keep_young_def young_iff map_of_filter_distinct pl_okD(1)
      split: option.split)

lemma peers_view_empty: "peers_view pl = Map.empty \<longleftrightarrow> peers pl = []"
proof -
  have "map_of m = Map.empty \<longleftrightarrow> m = []" for m :: "(bytes, peer_val) table"
    by (cases m) (auto simp: fun_eq_iff)
  then show ?thesis by (simp add: peers_view_def fun_eq_iff)
qed

lemma stale_iff:
  "torrent_stale now t \<longleftrightarrow>
     sw4 (torrent_view t) = Map.empty \<and> sw6 (torrent_view t) = Map.empty \<and>
     done4 (torrent_view t) = 0 \<and> done6 (torrent_view t) = 0 \<and>
     unat (sw_base (torrent_view t)) + 1440 \<le> unat now"
  by (auto simp: torrent_stale_def is_empty_def torrent_view_def peers_view_empty
      TORRENT_TIMEOUT_MINUTES_def word_le_nat_alt unat_sat_sub)

lemma torrent_view_expire:
  "torrent_ok t \<Longrightarrow> torrent_view (torrent_expire now t) =
     (torrent_view t)\<lparr>sw4 := keep_young now (sw4 (torrent_view t)),
       sw6 := keep_young now (sw6 (torrent_view t))\<rparr>"
  by (auto simp: torrent_ok_def torrent_view_def torrent_expire_def peers_view_expire downloaded_expire)

lemma swept_view:
  "torrent_ok t \<Longrightarrow> map_option torrent_view (swept now t) = spec_sweep now (torrent_view t)"
  by (simp add: swept_def spec_sweep_def Let_def stale_iff torrent_view_expire)

lemma n_peers_view:
  "n_seed (map_of (peers pl)) = seeds (peers_view pl)"
  "n_leech (map_of (peers pl)) = leeches (peers_view pl)"
  unfolding n_seed_def n_leech_def seeds_def leeches_def
  by (auto simp: peers_view_def peer_view_def intro!: arg_cong [where f = card])

lemma counts_view:
  assumes "torrent_ok t"
  shows "torrent_counts t = swarm_counts (torrent_view t)"
  using torrent_counts_ok [OF assms]
  by (simp add: swarm_counts_def torrent_view_def n_peers_view) (simp add: torrent_counts_def)

section \<open>Refinement\<close>

lemma effect_view:
  assumes "store_ok s"
  shows "map_option torrent_view (effect e h (torrent_at s h)) = spec_step e (view s) h"
proof (cases "torrent_at s h")
  case None
  then show ?thesis
    by (cases e)
      (auto simp: view_def Let_def torrent_view_def view_simps empty_swarm_def torrent_new_def
        split: option.split)
next
  case (Some t)
  then have ok: "torrent_ok t" using torrent_at_ok [OF assms] by blast
  then have pl: "pl_ok 6 (v4 t)" "pl_ok 18 (v6 t)" by (simp_all add: torrent_ok_def)
  show ?thesis
  proof (cases e)
    case (Sweep now i)
    with Some show ?thesis
      by (cases "swept now t") (use swept_view [OF ok, of now] in \<open>auto simp: view_def\<close>)
  qed (use Some pl in \<open>auto simp: view_def Let_def torrent_view_def view_simps split: option.split\<close>)
qed

lemma step_view: "store_step s e s' \<Longrightarrow> store_ok s \<Longrightarrow> view s' = spec_step e (view s)"
  by (rule ext) (simp add: view_def [of s'] step_refines flip: effect_view)

interpretation store_sim: simulation "\<lambda>s. s = store_new" store_step store_ok view spec_step event_ok Map.empty
  by unfold_locales (use view_new step_event_ok step_view in auto)

lemmas run_view = store_sim.run_abs

end
