(* ===== verification/Store_Claims.thy ===== *)
theory Store_Claims
  imports Store_Spec
begin

text \<open>
  The properties of the store: its operations implement the specification of \<open>Store_Spec\<close>, for
  one call and for every interleaving; the peers handed out; the counters; expiry and the sweep.
\<close>

section \<open>One operation\<close>

lemma counts_of_torrent:
  "store_ok s \<Longrightarrow> torrent_at s h = Some t \<Longrightarrow> torrent_counts t = spec_counts (view s) h"
  by (auto simp: spec_counts_def view_def counts_view dest: torrent_at_ok)

lemma announce4_refines:
  assumes "store_ok s" "length key = 6"
  obtains s' t where
    "announce_v4 ord s h key f numwant now out =
      Some (s', spec_counts (view s') h, write_compact ord (v4 t) numwant out)"
    "store_ok s'" "view s' = spec_step (Announce4 h key f now) (view s)" "torrent_at s' h = Some t"
    "torrent_ok t"
proof (rule fam4.announce_spec [OF assms, of ord h f numwant now out])
  fix t s'
  assume t: "announce_v4 ord s h key f numwant now out =
      Some (s', torrent_counts t, write_compact ord (v4 t) numwant out)"
    "store_ok s'" "torrent_at s' = (torrent_at s)(h \<mapsto> t)" "torrent_ok t"
  have "view s' = spec_step (Announce4 h key f now) (view s)"
    using t(1) assms(2) by (intro step_view [OF step_announce4 assms(1)])
  with t counts_of_torrent [OF t(2), of h t] show thesis by (intro that) auto
qed

lemma announce6_refines:
  assumes "store_ok s" "length key = 18"
  obtains s' t where
    "announce_v6 ord s h key f numwant now out =
      Some (s', spec_counts (view s') h, write_compact ord (v6 t) numwant out)"
    "store_ok s'" "view s' = spec_step (Announce6 h key f now) (view s)" "torrent_at s' h = Some t"
    "torrent_ok t"
proof (rule fam6.announce_spec [OF assms, of ord h f numwant now out])
  fix t s'
  assume t: "announce_v6 ord s h key f numwant now out =
      Some (s', torrent_counts t, write_compact ord (v6 t) numwant out)"
    "store_ok s'" "torrent_at s' = (torrent_at s)(h \<mapsto> t)" "torrent_ok t"
  have "view s' = spec_step (Announce6 h key f now) (view s)"
    using t(1) assms(2) by (intro step_view [OF step_announce6 assms(1)])
  with t counts_of_torrent [OF t(2), of h t] show thesis by (intro that) auto
qed

lemma remove4_refines:
  assumes "store_ok s"
  obtains s' where "remove_v4 s h key now = Some (s', spec_counts (view s') h)" "store_ok s'"
    "view s' = spec_step (Remove4 h key now) (view s)"
proof (rule fam4.remove_spec [OF assms, of h key now])
  assume r: "remove_v4 s h key now = Some (s, counts_default)" "torrent_at s h = None"
  then have "spec_counts (view s) h = counts_default" by (simp add: spec_counts_def view_def)
  with that [OF _ assms step_view [OF step_remove4 [OF r(1)] assms]] r show thesis by simp
next
  fix t t0 s'
  assume t: "remove_v4 s h key now = Some (s', torrent_counts t)" "store_ok s'"
    "torrent_at s' = (torrent_at s)(h \<mapsto> t)"
  with counts_of_torrent [OF t(2), of h t] show thesis
    by (intro that [OF _ t(2) step_view [OF step_remove4 [OF t(1)] assms]]) simp
qed

lemma remove6_refines:
  assumes "store_ok s"
  obtains s' where "remove_v6 s h key now = Some (s', spec_counts (view s') h)" "store_ok s'"
    "view s' = spec_step (Remove6 h key now) (view s)"
proof (rule fam6.remove_spec [OF assms, of h key now])
  assume r: "remove_v6 s h key now = Some (s, counts_default)" "torrent_at s h = None"
  then have "spec_counts (view s) h = counts_default" by (simp add: spec_counts_def view_def)
  with that [OF _ assms step_view [OF step_remove6 [OF r(1)] assms]] r show thesis by simp
next
  fix t t0 s'
  assume t: "remove_v6 s h key now = Some (s', torrent_counts t)" "store_ok s'"
    "torrent_at s' = (torrent_at s)(h \<mapsto> t)"
  with counts_of_torrent [OF t(2), of h t] show thesis
    by (intro that [OF _ t(2) step_view [OF step_remove6 [OF t(1)] assms]]) simp
qed

lemma scrape_refines: "store_ok s \<Longrightarrow> scrape s h = Some (spec_counts (view s) h)"
  by (auto simp: scrape_def shard_at_ok torrent_at_shard counts_of_torrent spec_counts_def view_def
      split: option.split)

text \<open>On a well-formed store an announce of either family never panics,
  keeps the store well-formed, makes exactly the abstract change, and returns the exact counts
  of the swarm after it.\<close>

lemma announce_refines:
  assumes "store_ok s" "length key4 = 6" "length key6 = 18"
  shows "(\<exists>s' ps. announce_v4 ord s h key4 f numwant now out = Some (s', spec_counts (view s') h, out @ ps) \<and>
      store_ok s' \<and> view s' = spec_step (Announce4 h key4 f now) (view s)) \<and>
    (\<exists>s' ps. announce_v6 ord s h key6 f numwant now out = Some (s', spec_counts (view s') h, out @ ps) \<and>
      store_ok s' \<and> view s' = spec_step (Announce6 h key6 f now) (view s))"
  by (rule announce4_refines [OF assms(1,2), of ord h f numwant now out],
      rule announce6_refines [OF assms(1,3), of ord h f numwant now out])
    (unfold write_compact_eq, blast)

text \<open>A removal never panics, keeps the store well-formed, makes exactly the
  abstract change (the peer leaves its swarm, nothing happens to an unknown torrent), and
  returns the exact counts of what is left; a scrape returns the exact counts and changes
  nothing.\<close>

lemma remove_scrape_refine:
  assumes "store_ok s"
  shows "(\<exists>s'. remove_v4 s h key now = Some (s', spec_counts (view s') h) \<and> store_ok s' \<and>
      view s' = spec_step (Remove4 h key now) (view s)) \<and>
    (\<exists>s'. remove_v6 s h key now = Some (s', spec_counts (view s') h) \<and> store_ok s' \<and>
      view s' = spec_step (Remove6 h key now) (view s)) \<and>
    scrape s h = Some (spec_counts (view s) h)"
  using scrape_refines [OF assms, of h]
  by (rule_tac remove4_refines [OF assms, of h key now], rule_tac remove6_refines [OF assms, of h key now])
    blast

section \<open>Every interleaving\<close>

lemma step_enabled:
  assumes "store_ok s" "event_ok e"
  shows "\<exists>s'. store_step s e s' \<and> store_ok s'"
proof (cases e)
  case (Announce4 h key f now)
  with assms(2) have "length key = 6" by simp
  from fam4.announce_spec [OF assms(1) this] Announce4 this show ?thesis
    by (metis step_announce4)
next
  case (Announce6 h key f now)
  with assms(2) have "length key = 18" by simp
  from fam6.announce_spec [OF assms(1) this] Announce6 this show ?thesis
    by (metis step_announce6)
next
  case (Remove4 h key now)
  then show ?thesis
    by (metis fam4.remove_spec [OF assms(1)] step_remove4 assms(1))
next
  case (Remove6 h key now)
  then show ?thesis
    by (metis fam6.remove_spec [OF assms(1)] step_remove6 assms(1))
next
  case (Sweep now i)
  with assms show ?thesis by (auto intro: step_sweep gc_at_ok)
qed

interpretation store_live: live_machine "\<lambda>s. s = store_new" store_step store_ok event_ok
  by unfold_locales (use step_enabled in blast)

lemmas run_exists = store_live.run_exists

text \<open>C2. Whatever announces, removals and per-shard sweeps are interleaved, the
  store never gets stuck, and every run from the empty store ends in a well-formed state that
  shows exactly what the specification shows after the same events.\<close>

theorem run_refines:
  assumes "\<forall>e \<in> set es. event_ok e"
  shows "(\<exists>s. store_run store_new es s) \<and>
    (\<forall>s. store_run store_new es s \<longrightarrow> store_ok s \<and> view s = fold spec_step es Map.empty)"
  using run_exists [OF store_ok_new assms] run_ok [OF _ store_ok_new] run_view [OF _ store_ok_new]
  by (auto simp: view_new)

theorem run_refines_witness:
  "\<exists>s. store_run store_new [Announce4 (replicate 20 1) (replicate 6 2) SEEDING 7, Sweep 60 4] s \<and>
     view s = fold spec_step [Announce4 (replicate 20 1) (replicate 6 2) SEEDING 7, Sweep 60 4] Map.empty"
  using run_refines [of "[Announce4 (replicate 20 1) (replicate 6 2) SEEDING 7, Sweep 60 4]"]
  by (auto simp: SHARD_COUNT_def simp del: fold_simps)

section \<open>Peers handed out\<close>

lemma dom_peers_view: "dom (peers_view pl) = fst ` set (peers pl)"
  by (auto simp: peers_view_def dom_map_of_conv_image_fst [symmetric])

lemma card_peers_view: "pl_ok n pl \<Longrightarrow> card (dom (peers_view pl)) = length (peers pl)"
  using distinct_card [of "map fst (peers pl)"] by (simp add: dom_peers_view pl_okD)

text \<open>C12. The compact peer list that an announce appends consists of keys of the swarm,
  none twice, as many as asked for or as there are: first leechers, then seeders, and a seeder
  only when every leecher is handed out.\<close>

theorem write_compact_spec:
  assumes "pl_ok n pl" "iteration_order ord"
  shows "\<exists>kl ks. write_compact ord pl numwant out = out @ concat (kl @ ks) \<and>
    distinct (kl @ ks) \<and> length (kl @ ks) = min numwant (card (dom (peers_view pl))) \<and>
    (\<forall>k \<in> set kl. \<exists>p. peers_view pl k = Some p \<and> \<not> p_seed p) \<and>
    (\<forall>k \<in> set ks. \<exists>p. peers_view pl k = Some p \<and> p_seed p) \<and>
    (ks \<noteq> [] \<longrightarrow> set kl = {k. \<exists>p. peers_view pl k = Some p \<and> \<not> p_seed p})"
proof -
  let ?es = "ord (peers pl)"
  let ?L = "filter (\<lambda>e. \<not> is_seed (snd e)) ?es" and ?S = "filter (\<lambda>e. is_seed (snd e)) ?es"
  let ?kl = "map fst (take numwant ?L)" and ?ks = "map fst (take (numwant - length ?L) ?S)"
  have d: "distinct (map fst (peers pl))" using assms(1) by (rule pl_okD)
  have eq: "?kl @ ?ks = map fst (take numwant (handout ?es))"
    by (simp add: handout_def)
  have "distinct (map fst (handout ?es))"
    by (intro distinct_handout iteration_order_filter(2) [OF assms(2) d])
  then have "distinct (?kl @ ?ks)"
    unfolding eq by (simp add: distinct_take flip: take_map)
  moreover have "length (?kl @ ?ks) = min numwant (card (dom (peers_view pl)))"
    unfolding eq
    by (simp add: card_peers_view [OF assms(1)] iteration_order_length [OF assms(2)] min.commute)
  moreover have get: "peers_view pl k = Some p \<longleftrightarrow> (\<exists>v. (k, v) \<in> set ?es \<and> p = peer_view v)" for k p
    using d by (auto simp: peers_view_def iteration_order_set [OF assms(2)])
  moreover have "set ?kl = {k. \<exists>p. peers_view pl k = Some p \<and> \<not> p_seed p}" if "?ks \<noteq> []"
  proof -
    from that have "take numwant ?L = ?L" by simp
    then show ?thesis by (force simp: get peer_view_def)
  qed
  moreover have "\<exists>p. peers_view pl k = Some p \<and> \<not> p_seed p" if "k \<in> set ?kl" for k
    using that unfolding get by (force simp: peer_view_def dest: in_set_takeD)
  moreover have "\<exists>p. peers_view pl k = Some p \<and> p_seed p" if "k \<in> set ?ks" for k
    using that unfolding get by (force simp: peer_view_def dest: in_set_takeD)
  moreover have "write_compact ord pl numwant out = out @ concat (?kl @ ?ks)"
    unfolding eq by (rule write_compact_eq)
  ultimately show ?thesis by (intro exI [of _ ?kl] exI [of _ ?ks]) blast
qed

theorem write_compact_spec_witness:
  "\<exists>kl ks. write_compact rev (pl_announce (pl_announce peer_list_new [1] SEEDING 5) [2] 0 6) 9 [] =
      concat (kl @ ks) \<and> length (kl @ ks) \<le> 9"
proof -
  have "pl_ok 1 (pl_announce (pl_announce peer_list_new [1] SEEDING 5) [2] 0 6)"
    by (intro pl_ok_announce pl_ok_new) simp_all
  from write_compact_spec [OF this iteration_order_rev, of 9 "[]"] obtain kl ks where
    "write_compact rev (pl_announce (pl_announce peer_list_new [1] SEEDING 5) [2] 0 6) 9 [] =
      [] @ concat (kl @ ks)"
    "length (kl @ ks) =
      min 9 (card (dom (peers_view (pl_announce (pl_announce peer_list_new [1] SEEDING 5) [2] 0 6))))"
    by blast
  then show ?thesis by (metis append_Nil min.cobounded1)
qed

text \<open>The peers of a swarm in one family, and the lists of keys that answer an announce of a client
  of that family: no key twice, as many as it wants or as there are.\<close>

definition family_peers :: "bool \<Rightarrow> swarm \<Rightarrow> (bytes \<rightharpoonup> peer_info)" where
  "family_peers is_v4 w = (if is_v4 then sw4 w else sw6 w)"

definition answers :: "bool \<Rightarrow> nat \<Rightarrow> swarm option \<Rightarrow> bytes list \<Rightarrow> bool" where
  "answers is_v4 want wo ks \<longleftrightarrow> distinct ks \<and>
     (\<exists>w. wo = Some w \<and> set ks \<subseteq> dom (family_peers is_v4 w) \<and>
       length ks = min want (card (dom (family_peers is_v4 w))))"

lemma family_peers_view [simp]:
  "family_peers is_v4 (torrent_view t) = peers_view (if is_v4 then v4 t else v6 t)"
  by (simp add: family_peers_def torrent_view_def)

lemma compact_keys:
  assumes "pl_ok n pl" "iteration_order ord"
  shows "\<exists>ks. write_compact ord pl numwant out = out @ concat ks \<and> distinct ks \<and>
    length ks = min numwant (card (dom (peers_view pl))) \<and> set ks \<subseteq> dom (peers_view pl)"
proof (intro exI conjI)
  let ?ks = "map fst (take numwant (handout (ord (peers pl))))"
  have d: "distinct (map fst (peers pl))" using assms(1) by (rule pl_okD)
  show "write_compact ord pl numwant out = out @ concat ?ks" by (rule write_compact_eq)
  have "distinct (map fst (handout (ord (peers pl))))"
    by (intro distinct_handout iteration_order_filter(2) [OF assms(2) d])
  then show "distinct ?ks" by (simp add: distinct_take flip: take_map)
  show "length ?ks = min numwant (card (dom (peers_view pl)))"
    by (simp add: card_peers_view [OF assms(1)] iteration_order_length [OF assms(2)] min.commute)
  show "set ?ks \<subseteq> dom (peers_view pl)"
    using d by (auto simp: peers_view_def iteration_order_set [OF assms(2)] dest!: in_set_takeD)
qed

lemma compact_answers:
  assumes "torrent_at s h = Some t" "torrent_ok t" "iteration_order ord"
  obtains ks where "write_compact ord (if is_v4 then v4 t else v6 t) want out = out @ concat ks"
    "answers is_v4 want (view s h) ks"
proof -
  have "pl_ok (if is_v4 then 6 else 18) (if is_v4 then v4 t else v6 t)"
    using assms(2) by (simp add: torrent_ok_def)
  from compact_keys [OF this assms(3), of want out] obtain ks where
    "write_compact ord (if is_v4 then v4 t else v6 t) want out = out @ concat ks" "distinct ks"
    "length ks = min want (card (dom (family_peers is_v4 (torrent_view t))))"
    "set ks \<subseteq> dom (family_peers is_v4 (torrent_view t))"
    unfolding family_peers_view by blast
  with assms(1) that show thesis by (simp add: answers_def view_def)
qed

lemma answers_length: "answers is_v4 want wo ks \<Longrightarrow> length ks \<le> want"
  by (auto simp: answers_def)

lemma answers_all:
  assumes "answers is_v4 want (view s h) ks" "view s h = Some w"
    and "card (dom (family_peers is_v4 w)) \<le> want"
  shows "set ks = dom (family_peers is_v4 w)"
proof (rule card_subset_eq)
  from assms(2) show "finite (dom (family_peers is_v4 w))"
    by (auto simp: view_def dom_peers_view)
  from assms show "set ks \<subseteq> dom (family_peers is_v4 w)" "card (set ks) = card (dom (family_peers is_v4 w))"
    by (auto simp: answers_def distinct_card)
qed

section \<open>Completions\<close>

text \<open>
  The peer \<open>key\<close> of torrent \<open>h\<close> is in the swarm, stamped \<open>m\<close> or later, and counted as
  having completed when \<open>d\<close> asks for it; \<open>is_v4\<close> names the family.
\<close>

definition held :: "bool \<Rightarrow> tracker \<Rightarrow> info_hash \<Rightarrow> bytes \<Rightarrow> bool \<Rightarrow> u32 \<Rightarrow> bool" where
  "held is_v4 tr h key d m \<longleftrightarrow>
     (\<exists>w p. tr h = Some w \<and> family_peers is_v4 w key = Some p \<and> (d \<longrightarrow> p_done p) \<and> m \<le> p_seen p)"

text \<open>Events that cannot take a peer stamped \<open>m\<close> out of its swarm: announces that are not older
  than \<open>m\<close>, removals of other peers, and sweeps less than 45 minutes after \<open>m\<close>.\<close>

definition spares :: "bool \<Rightarrow> info_hash \<Rightarrow> bytes \<Rightarrow> u32 \<Rightarrow> store_event \<Rightarrow> bool" where
  "spares is_v4 h key m e \<longleftrightarrow>
     (case e of
        Announce4 h' key' f now \<Rightarrow> is_v4 \<and> h' = h \<and> key' = key \<longrightarrow> m \<le> now
      | Announce6 h' key' f now \<Rightarrow> \<not> is_v4 \<and> h' = h \<and> key' = key \<longrightarrow> m \<le> now
      | Remove4 h' key' now \<Rightarrow> \<not> (is_v4 \<and> h' = h \<and> key' = key)
      | Remove6 h' key' now \<Rightarrow> \<not> (\<not> is_v4 \<and> h' = h \<and> key' = key)
      | Sweep now i \<Rightarrow> unat now < unat m + 45)"

lemma sweep_held:
  assumes "family_peers is_v4 w key = Some p" "m \<le> p_seen p" "unat now < unat m + 45"
  shows "\<exists>w'. spec_sweep now w = Some w' \<and> family_peers is_v4 w' key = Some p"
proof -
  have "young now p" using assms(2,3) by (simp add: young_def word_le_nat_alt)
  with assms(1) have k: "keep_young now (family_peers is_v4 w) key = Some p" by (simp add: keep_young_def)
  then have "keep_young now (family_peers is_v4 w) \<noteq> Map.empty" by auto
  with k show ?thesis by (auto simp: spec_sweep_def Let_def family_peers_def)
qed

lemma step_held:
  assumes "held is_v4 tr h key d m" "spares is_v4 h key m e"
  shows "held is_v4 (spec_step e tr) h key d m"
proof -
  obtain w p where w: "tr h = Some w" "family_peers is_v4 w key = Some p" "d \<longrightarrow> p_done p" "m \<le> p_seen p"
    using assms(1) by (auto simp: held_def)
  show ?thesis
  proof (cases e)
    case (Sweep now i)
    with sweep_held [OF w(2,4), of now] assms(2) w show ?thesis
      by (auto simp: held_def spares_def)
  qed (use assms(2) w in \<open>auto simp: held_def family_peers_def spares_def announced_def Let_def
    split: option.split\<close>)
qed

lemma run_held:
  "held is_v4 tr h key d m \<Longrightarrow> \<forall>e \<in> set es. spares is_v4 h key m e \<Longrightarrow>
   held is_v4 (fold spec_step es tr) h key d m"
  by (induction es arbitrary: tr) (simp_all add: step_held)

lemma announced_held:
  "held True (spec_step (Announce4 h key f now) tr) h key False now"
  "held False (spec_step (Announce6 h key f now) tr) h key False now"
  by (simp_all add: held_def family_peers_def announced_def Let_def)

text \<open>C11. A peer that has announced stays listed, whatever the other peers do, as long as
  it does not stop and every sweep comes less than 45 minutes after its last announce.\<close>

theorem peer_not_lost:
  assumes "store_ok s" "length key = (if is_v4 then 6 else 18)" "store_run s1 es s2"
    and "(if is_v4 then announce_v4 else announce_v6) ord s h key f numwant now out = Some (s1, c, out1)"
    and "\<forall>e \<in> set es. spares is_v4 h key now e"
  shows "held is_v4 (view s2) h key False now"
proof -
  have st: "store_step s (if is_v4 then Announce4 h key f now else Announce6 h key f now) s1"
    using assms(2,4) by (auto intro: step_announce4 step_announce6 split: if_splits)
  have "held is_v4 (view s1) h key False now"
    using step_view [OF st assms(1)] announced_held [of h key f now "view s"]
    by (simp del: spec_step.simps split: if_splits)
  then show ?thesis
    using run_view [OF assms(3)] step_refines [OF st assms(1)] run_held [OF _ assms(5)] by simp
qed

theorem peer_not_lost_witness:
  "\<exists>s1 c out1 s2. announce_v4 rev store_new (replicate 20 1) (replicate 6 2) 0 50 7 [] = Some (s1, c, out1) \<and>
     store_run s1 [Announce4 (replicate 20 1) (replicate 6 3) SEEDING 9, Sweep 51 4] s2 \<and>
     held True (view s2) (replicate 20 1) (replicate 6 2) False 7"
proof -
  let ?es = "[Announce4 (replicate 20 1) (replicate 6 3) SEEDING 9, Sweep 51 4]"
  have k: "length (replicate 6 (2 :: u8)) = 6" by simp
  obtain s1 c out1 where a: "announce_v4 rev store_new (replicate 20 1) (replicate 6 2) 0 50 7 [] = Some (s1, c, out1)"
    and ok: "store_ok s1"
    by (rule announce4_refines [OF store_ok_new k])
  have "\<forall>e \<in> set ?es. event_ok e" by (simp add: SHARD_COUNT_def)
  from run_exists [OF ok this] obtain s2 where r: "store_run s1 ?es s2" ..
  have "\<forall>e \<in> set ?es. spares True (replicate 20 1) (replicate 6 2) 7 e"
    by (simp add: spares_def)
  from peer_not_lost [where ?is_v4.0 = True, OF store_ok_new _ r _ this] a k r show ?thesis by auto
qed


definition family_done :: "bool \<Rightarrow> tracker \<Rightarrow> info_hash \<Rightarrow> u64" where
  "family_done is_v4 tr h =
     (case tr h of None \<Rightarrow> 0 | Some w \<Rightarrow> if is_v4 then done4 w else done6 w)"





section \<open>The sweep\<close>

lemma gc_run:
  "\<forall>i \<in> set is. i < SHARD_COUNT \<Longrightarrow>
   store_run s (map (Sweep now) is) (foldl (\<lambda>s i. gc_at now i s) s is)"
  by (induction "is" arbitrary: s) (auto simp: run_simps intro: step_sweep)

lemma gc_spec_view:
  assumes "store_ok s"
  shows "view (gc now s) = (\<lambda>h. Option.bind (view s h) (spec_sweep now))"
proof
  fix h
  show "view (gc now s) h = Option.bind (view s h) (spec_sweep now)"
  proof (cases "torrent_at s h")
    case (Some t)
    with swept_view [OF torrent_at_ok [OF assms Some], of now] show ?thesis
      by (cases "swept now t") (simp_all add: view_def torrent_at_gc [OF assms])
  qed (simp add: view_def torrent_at_gc [OF assms])
qed

text \<open>C32. A full sweep is 1024 independent shard sweeps; it keeps the store well-formed, drops
  exactly the peers silent for 45 minutes or more, and then exactly the torrents without peers
  and without completions that nobody used for a day.\<close>

theorem gc_spec:
  assumes "store_ok s"
  shows "store_run s (map (Sweep now) [0..<SHARD_COUNT]) (gc now s) \<and> store_ok (gc now s) \<and>
    view (gc now s) = (\<lambda>h. Option.bind (view s h) (spec_sweep now))"
proof (intro conjI)
  show "store_run s (map (Sweep now) [0..<SHARD_COUNT]) (gc now s)"
    using gc_run [of "[0..<SHARD_COUNT]" s now] assms by (simp add: gc_def store_ok_def)
  show "store_ok (gc now s)" using assms by (rule gc_ok)
  show "view (gc now s) = (\<lambda>h. Option.bind (view s h) (spec_sweep now))"
    using assms by (rule gc_spec_view)
qed

theorem gc_spec_witness:
  "store_ok (gc 9 store_new) \<and> view (gc 9 store_new) = Map.empty"
  using gc_spec [OF store_ok_new, of 9] by (simp add: view_new)

lemma spec_sweep_Some:
  "spec_sweep now w = Some w' \<Longrightarrow>
   sw4 w' = keep_young now (sw4 w) \<and> sw6 w' = keep_young now (sw6 w) \<and>
   done4 w' = done4 w \<and> done6 w' = done6 w"
  by (auto simp: spec_sweep_def Let_def split: if_splits)

lemma keep_young_Some: "keep_young now m k = Some p \<longleftrightarrow> m k = Some p \<and> young now p"
  by (auto simp: keep_young_def split: option.splits if_splits)

text \<open>After a full sweep a swarm lists a peer exactly when it listed it before and
  has heard of it in the last 45 minutes; torrents that survive keep their counters.\<close>

lemma gc_no_silent_peers:
  assumes "store_ok s" "view (gc now s) h = Some w"
  shows "\<exists>w0. view s h = Some w0 \<and> done4 w = done4 w0 \<and> done6 w = done6 w0 \<and>
    (\<forall>key p. sw4 w key = Some p \<longleftrightarrow> sw4 w0 key = Some p \<and> unat now < unat (p_seen p) + 45) \<and>
    (\<forall>key p. sw6 w key = Some p \<longleftrightarrow> sw6 w0 key = Some p \<and> unat now < unat (p_seen p) + 45)"
proof -
  have "Option.bind (view s h) (spec_sweep now) = Some w"
    using assms(2) by (simp add: gc_spec_view [OF assms(1)])
  then obtain w0 where w0: "view s h = Some w0" "spec_sweep now w0 = Some w"
    by (auto simp: panic_iff)
  from spec_sweep_Some [OF w0(2)] w0(1) show ?thesis
    by (intro exI [of _ w0]) (simp add: keep_young_Some young_def)
qed

lemma family_done_bound:
  assumes "tr h = Some w" "unat (family_done is_v4 tr h) + 1 < 2 ^ 64" "0 < family_done True tr h \<or> 0 < family_done False tr h"
  shows "spec_step e tr h \<noteq> None \<and> unat (family_done is_v4 tr h) \<le> unat (family_done is_v4 (spec_step e tr) h) \<and>
    unat (family_done is_v4 (spec_step e tr) h) \<le> unat (family_done is_v4 tr h) + 1"
proof (cases e)
  case (Sweep now i)
  have "done4 w \<noteq> 0 \<or> done6 w \<noteq> 0" using assms(1,3) by (auto simp: family_done_def)
  with Sweep assms(1) show ?thesis by (auto simp: family_done_def spec_sweep_def Let_def)
qed (use assms(1,2) in \<open>auto simp: family_done_def completions_def unat_word_ariths Let_def split: option.split\<close>)

text \<open>C31. A torrent with a recorded completion, of an IPv4 or of an IPv6 peer, is never collected,
  and neither family's counter ever goes back, as long as these 64-bit counters do not wrap.\<close>

theorem completed_torrent_kept:
  assumes "store_ok s" "store_run s es s'"
    and "0 < family_done True (view s) h \<or> 0 < family_done False (view s) h"
    and "unat (family_done True (view s) h) + length es < 2 ^ 64"
    and "unat (family_done False (view s) h) + length es < 2 ^ 64"
  shows "view s' h \<noteq> None \<and>
    unat (family_done is_v4 (view s) h) \<le> unat (family_done is_v4 (view s') h) \<and>
    unat (family_done is_v4 (view s') h) \<le> unat (family_done is_v4 (view s) h) + length es"
proof -
  have some: "tr h \<noteq> None" if "0 < family_done True tr h \<or> 0 < family_done False tr h" for tr
    using that by (auto simp: family_done_def split: option.splits)
  have "fold spec_step es tr h \<noteq> None \<and>
      (\<forall>v. unat (family_done v tr h) \<le> unat (family_done v (fold spec_step es tr) h) \<and>
        unat (family_done v (fold spec_step es tr) h) \<le> unat (family_done v tr h) + length es)"
    if "0 < family_done True tr h \<or> 0 < family_done False tr h"
      "\<forall>v. unat (family_done v tr h) + length es < 2 ^ 64" for es tr
    using that
  proof (induction es arbitrary: tr)
    case (Cons e es)
    from some [OF Cons.prems(1)] obtain w where w: "tr h = Some w" by blast
    have one: "spec_step e tr h \<noteq> None \<and> unat (family_done v tr h) \<le> unat (family_done v (spec_step e tr) h) \<and>
        unat (family_done v (spec_step e tr) h) \<le> unat (family_done v tr h) + 1" for v
      by (rule family_done_bound [OF w _ Cons.prems(1)]) (use Cons.prems(2) [rule_format, of v] in simp)
    have "0 < family_done True (spec_step e tr) h \<or> 0 < family_done False (spec_step e tr) h"
      using Cons.prems(1) one [of True] one [of False] by (auto simp: word_less_nat_alt)
    moreover have "\<forall>v. unat (family_done v (spec_step e tr) h) + length es < 2 ^ 64"
    proof
      fix v
      show "unat (family_done v (spec_step e tr) h) + length es < 2 ^ 64"
        using one [of v] Cons.prems(2) [rule_format, of v] by simp
    qed
    ultimately show ?case using Cons.IH [of "spec_step e tr"] one by (auto intro: order_trans)
  qed (use some in simp)
  moreover have "\<forall>v. unat (family_done v (view s) h) + length es < 2 ^ 64"
    using assms(4,5) by (metis (full_types))
  ultimately show ?thesis using assms(3) unfolding run_view [OF assms(2,1)] by blast
qed

theorem completed_torrent_kept_witness:
  "\<exists>s s'. family_done False (view s) (replicate 20 1) = 1 \<and>
     store_run s [Remove6 (replicate 20 1) (replicate 18 2) 8, Sweep 9999 4] s' \<and>
     view s' (replicate 20 1) \<noteq> None"
proof -
  let ?h = "replicate 20 (1 :: u8)" and ?k = "replicate 18 (2 :: u8)"
  let ?es = "[Remove6 ?h ?k 8, Sweep 9999 4]"
  have "event_ok (Announce6 ?h ?k (SEEDING OR COMPLETED) 7)" by simp
  then obtain s where st: "store_step store_new (Announce6 ?h ?k (SEEDING OR COMPLETED) 7) s"
    using run_exists [OF store_ok_new, of "[Announce6 ?h ?k (SEEDING OR COMPLETED) 7]"] by (auto simp: run_simps)
  have ok: "store_ok s" using step_refines [OF st store_ok_new] by simp
  have d: "family_done False (view s) ?h = 1" "family_done True (view s) ?h = 0"
    unfolding step_view [OF st store_ok_new]
    by (simp_all add: family_done_def completions_def view_simps empty_swarm_def Let_def completed_def
        seeding_def flag_defs)
  have "\<forall>e \<in> set ?es. event_ok e" by (simp add: SHARD_COUNT_def)
  from run_exists [OF ok this] obtain s' where r: "store_run s ?es s'" ..
  from completed_torrent_kept [OF ok r, of ?h] have "view s' ?h \<noteq> None" by (simp add: d)
  with d r show ?thesis by blast
qed

section \<open>Totals\<close>

text \<open>No two shards hold the same hash.\<close>

lemma distinct_concat_indexed:
  "\<forall>i < length L. distinct (L ! i) \<and> (\<forall>x \<in> set (L ! i). f x = i) \<Longrightarrow> distinct (concat L)"
proof (induction L rule: rev_induct)
  case (snoc x L)
  have L: "\<forall>i < length L. distinct (L ! i) \<and> (\<forall>x \<in> set (L ! i). f x = i)"
  proof (intro allI impI)
    fix i assume "i < length L"
    with snoc.prems [rule_format, of i] show "distinct (L ! i) \<and> (\<forall>x \<in> set (L ! i). f x = i)"
      by (simp add: nth_append)
  qed
  have x: "distinct x" "\<forall>y \<in> set x. f y = length L"
    using snoc.prems [rule_format, of "length L"] by simp_all
  have "f y < length L" if "y \<in> set (concat L)" for y
    using that L by (auto simp: in_set_conv_nth [of _ L])
  with x(2) have "set (concat L) \<inter> set x = {}" by fastforce
  with snoc.IH [OF L] x(1) show ?case by auto
qed simp

lemma store_keys:
  assumes "store_ok s"
  shows "distinct (map fst (concat (shards s)))" "set (map fst (concat (shards s))) = dom (view s)"
proof -
  let ?keys = "concat (map (map fst) (shards s))"
  have keys: "map fst (concat (shards s)) = ?keys" by (simp add: map_concat)
  have ok: "length (shards s) = SHARD_COUNT" "\<And>i. i < SHARD_COUNT \<Longrightarrow> shard_ok i (shards s ! i)"
    using assms by (auto simp: store_ok_def)
  show "distinct (map fst (concat (shards s)))"
    unfolding keys
    by (rule distinct_concat_indexed [where f = shard_index])
      (use ok in \<open>auto simp: shard_ok_def\<close>)
  show "set (map fst (concat (shards s))) = dom (view s)"
    unfolding keys
  proof (intro set_eqI)
    fix h
    have "h \<in> dom (view s) \<longleftrightarrow> h \<in> fst ` set (shards s ! shard_index h)"
      using ok(1) by (simp add: view_def torrent_at_def domIff map_of_eq_None_iff)
    also have "\<dots> \<longleftrightarrow> (\<exists>i < SHARD_COUNT. h \<in> fst ` set (shards s ! i))"
    proof
      show "h \<in> fst ` set (shards s ! shard_index h) \<Longrightarrow> \<exists>i < SHARD_COUNT. h \<in> fst ` set (shards s ! i)"
        using shard_index_bound by blast
      assume "\<exists>i < SHARD_COUNT. h \<in> fst ` set (shards s ! i)"
      then obtain i where i: "i < SHARD_COUNT" "h \<in> fst ` set (shards s ! i)" by blast
      with ok(2) [OF i(1)] have "shard_index h = i" by (auto simp: shard_ok_def)
      with i show "h \<in> fst ` set (shards s ! shard_index h)" by simp
    qed
    also have "\<dots> \<longleftrightarrow> h \<in> set ?keys"
      using ok(1) by (force simp: in_set_conv_nth [of _ "shards s"])
    finally show "h \<in> set ?keys \<longleftrightarrow> h \<in> dom (view s)" by simp
  qed
qed

lemma torrent_count_card:
  assumes "store_ok s"
  shows "torrent_count s = card (dom (view s))"
proof -
  have "card (dom (view s)) = length (map fst (concat (shards s)))"
    using store_keys [OF assms] by (metis distinct_card)
  then show ?thesis by (simp add: torrent_count_def length_concat comp_def)
qed

lemma view_pair:
  assumes "store_ok s" "(h, t) \<in> set (concat (shards s))"
  shows "view s h = Some (torrent_view t)"
proof -
  have ok: "length (shards s) = SHARD_COUNT" "\<And>i. i < SHARD_COUNT \<Longrightarrow> shard_ok i (shards s ! i)"
    using assms(1) by (auto simp: store_ok_def)
  obtain i where i: "i < SHARD_COUNT" "(h, t) \<in> set (shards s ! i)"
    using assms(2) ok(1) by (auto simp: in_set_conv_nth [of _ "shards s"])
  with ok(2) [OF i(1)] have "shard_index h = i" "map_of (shards s ! i) h = Some t"
    by (auto simp: shard_ok_def)
  with i(1) ok(1) show ?thesis by (simp add: view_def torrent_at_def)
qed

lemma sum_torrents:
  assumes "store_ok s"
  shows "(\<Sum>t\<leftarrow>all_torrents s. g (torrent_view t)) = (\<Sum>h \<in> dom (view s). g (the (view s h)))"
proof -
  let ?ps = "concat (shards s)"
  have "(\<Sum>t\<leftarrow>all_torrents s. g (torrent_view t)) = (\<Sum>p\<leftarrow>?ps. g (torrent_view (snd p)))"
    by (simp add: all_torrents_def map_concat comp_def)
  also have "\<dots> = (\<Sum>p\<leftarrow>?ps. g (the (view s (fst p))))"
  proof (intro arg_cong [where f = sum_list] map_cong refl)
    fix p assume "p \<in> set ?ps"
    then have "(fst p, snd p) \<in> set ?ps" by simp
    from view_pair [OF assms this] show "g (torrent_view (snd p)) = g (the (view s (fst p)))" by simp
  qed
  also have "\<dots> = (\<Sum>h\<leftarrow>map fst ?ps. g (the (view s h)))" by (simp add: comp_def)
  also have "\<dots> = (\<Sum>h \<in> dom (view s). g (the (view s h)))"
    using store_keys [OF assms] by (simp add: sum_list_distinct_conv_sum_set del: map_map)
  finally show ?thesis .
qed

text \<open>C33. The totals that the metrics report are exact: the number of distinct info-hashes known,
  and the numbers of seeders and of leechers, of both address families, summed over these
  torrents, each as a 64-bit count.\<close>

theorem totals_exact:
  assumes "store_ok s"
  shows "totals_of s =
    \<lparr>tot_torrents = word_of_nat (card (dom (view s))),
     tot_seeders = word_of_nat (\<Sum>h \<in> dom (view s).
       seeds (sw4 (the (view s h))) + seeds (sw6 (the (view s h)))),
     tot_leechers = word_of_nat (\<Sum>h \<in> dom (view s).
       leeches (sw4 (the (view s h))) + leeches (sw6 (the (view s h))))\<rparr>"
proof -
  have "length (all_torrents s) = torrent_count s"
    by (simp add: all_torrents_def torrent_count_def length_concat comp_def)
  then show ?thesis
    using totals_of_exact [OF assms] torrent_count_card [OF assms]
      sum_torrents [OF assms, of "\<lambda>w. seeds (sw4 w) + seeds (sw6 w)"]
      sum_torrents [OF assms, of "\<lambda>w. leeches (sw4 w) + leeches (sw6 w)"]
    by (simp add: torrent_view_def n_peers_view)
qed

theorem totals_exact_witness:
  "\<exists>s. view s (replicate 20 1) \<noteq> None \<and> totals_of s = \<lparr>tot_torrents = 1, tot_seeders = 0, tot_leechers = 1\<rparr>"
proof -
  let ?h = "replicate 20 (1 :: u8)" and ?k = "replicate 6 (2 :: u8)"
  have k: "length ?k = 6" by simp
  obtain s where ok: "store_ok s" and v: "view s = spec_step (Announce4 ?h ?k 0 7) (view store_new)"
    by (rule announce4_refines [OF store_ok_new k, of rev ?h 0 50 7 "[]"])
  have w: "dom (view s) = {?h}" "view s ?h \<noteq> None" "sw6 (the (view s ?h)) = Map.empty"
    "sw4 (the (view s ?h)) = [?k \<mapsto> announced None 0 7]"
    unfolding v by (simp_all add: view_new empty_swarm_def Let_def)
  have "seeds Map.empty = 0" "leeches Map.empty = 0" "seeds [?k \<mapsto> announced None 0 7] = 0"
    "{k. \<exists>p. [?k \<mapsto> announced None 0 7] k = Some p \<and> \<not> p_seed p} = {?k}"
    by (auto simp: seeds_def leeches_def announced_def seeding_def flag_defs split: if_splits)
  then have "leeches [?k \<mapsto> announced None 0 7] = 1" "seeds Map.empty = 0" "leeches Map.empty = 0"
    "seeds [?k \<mapsto> announced None 0 7] = 0"
    by (simp_all add: leeches_def)
  with totals_exact [OF ok] w show ?thesis by (intro exI [of _ s]) simp
qed

end
