(* ===== verification/Proto_Udp.thy ===== *)
theory Proto_Udp
  imports Core
begin

text \<open>
  crates/bf-proto/src/udp.rs: the BEP-15 wire format. Parsing and serialisation index and
  copy slices, which can panic, so every function here returns an option; errors that the
  code returns are \<open>Inl\<close>. The lemmas show that no panic is reachable, and that requests
  and responses survive a round trip through an independent encoder and decoder.
\<close>

definition PROTOCOL_ID :: u64 where "PROTOCOL_ID = 0x41727101980"
definition MIN_PACKET :: nat where "MIN_PACKET = 16"
definition ANNOUNCE_MIN :: nat where "ANNOUNCE_MIN = 98"
definition PEER4_LEN :: nat where "PEER4_LEN = 6"
definition PEER6_LEN :: nat where "PEER6_LEN = 18"
definition MAX_SCRAPE_HASHES :: nat where "MAX_SCRAPE_HASHES = 75"

lemmas size_defs = MIN_PACKET_def ANNOUNCE_MIN_def MAX_SCRAPE_HASHES_def HASH_LEN_def

record announce =
  an_connection_id :: u64
  an_transaction_id :: u32
  an_info_hash :: info_hash
  an_peer_id :: peer_id
  an_downloaded :: u64
  an_left :: u64
  an_uploaded :: u64
  an_event :: event
  an_declared_ip :: u32
  an_key :: u32
  an_num_want :: i32
  an_port :: u16

record scrape_req =
  sc_connection_id :: u64
  sc_transaction_id :: u32
  sc_hashes :: bytes

datatype request = Connect u32 | Announce announce | Scrape scrape_req

datatype parse_error = TooShort | BadProtocolId | AnnounceTooShort | UnknownAction u32

section \<open>Parsing\<close>

text \<open>The fixed-width readers panic on a slice of the wrong length.\<close>

definition be_u16 :: "bytes \<Rightarrow> u16 option" where
  "be_u16 b = (if length b = 2 then Some (from_be b) else None)"

definition be_u32 :: "bytes \<Rightarrow> u32 option" where
  "be_u32 b = (if length b = 4 then Some (from_be b) else None)"

definition be_u64 :: "bytes \<Rightarrow> u64 option" where
  "be_u64 b = (if length b = 8 then Some (from_be b) else None)"

definition hash_ref :: "bytes \<Rightarrow> info_hash option" where
  "hash_ref b = (if length b = HASH_LEN then Some b else None)"

text \<open>\<open>slice::chunks_exact\<close>: whole strides, the rest is dropped.\<close>

function chunks_exact :: "nat \<Rightarrow> 'a list \<Rightarrow> 'a list list" where
  "chunks_exact n xs =
     (if n = 0 \<or> length xs < n then [] else take n xs # chunks_exact n (drop n xs))"
  by pat_completeness auto
termination
  by (relation "measure (\<lambda>(n, xs). length xs)") auto

declare chunks_exact.simps [simp del]

definition iter_hashes :: "scrape_req \<Rightarrow> info_hash list option" where
  "iter_hashes s = those (map hash_ref (chunks_exact HASH_LEN (sc_hashes s)))"

definition parse_announce :: "bytes \<Rightarrow> u64 \<Rightarrow> u32 \<Rightarrow> announce option" where
  "parse_announce buf connection_id transaction_id =
     do {
       info_hash \<leftarrow> slice buf 16 36 \<bind> hash_ref;
       peer_id \<leftarrow> slice buf 36 56 \<bind> hash_ref;
       downloaded \<leftarrow> slice buf 56 64 \<bind> be_u64;
       left \<leftarrow> slice buf 64 72 \<bind> be_u64;
       uploaded \<leftarrow> slice buf 72 80 \<bind> be_u64;
       event \<leftarrow> slice buf 80 84 \<bind> be_u32;
       declared_ip \<leftarrow> slice buf 84 88 \<bind> be_u32;
       key \<leftarrow> slice buf 88 92 \<bind> be_u32;
       num_want \<leftarrow> slice buf 92 96 \<bind> be_u32;
       port \<leftarrow> slice buf 96 98 \<bind> be_u16;
       Some \<lparr>an_connection_id = connection_id, an_transaction_id = transaction_id,
         an_info_hash = info_hash, an_peer_id = peer_id, an_downloaded = downloaded,
         an_left = left, an_uploaded = uploaded, an_event = from_udp event,
         an_declared_ip = declared_ip, an_key = key, an_num_want = num_want, an_port = port\<rparr>
     }"

definition parse :: "bytes \<Rightarrow> (parse_error + request) option" where
  "parse buf =
     (if length buf < MIN_PACKET then Some (Inl TooShort)
      else do {
        connection_id \<leftarrow> slice buf 0 8 \<bind> be_u64;
        action \<leftarrow> slice buf 8 12 \<bind> be_u32;
        transaction_id \<leftarrow> slice buf 12 16 \<bind> be_u32;
        if action = 0 then
          (if connection_id \<noteq> PROTOCOL_ID then Some (Inl BadProtocolId)
           else Some (Inr (Connect transaction_id)))
        else if action = 1 then
          (if length buf < ANNOUNCE_MIN then Some (Inl AnnounceTooShort)
           else do {
             a \<leftarrow> parse_announce buf connection_id transaction_id;
             Some (Inr (Announce a))
           })
        else if action = 2 then
          (let full = min ((length buf - MIN_PACKET) div HASH_LEN) MAX_SCRAPE_HASHES
           in do {
             hashes \<leftarrow> slice buf MIN_PACKET (MIN_PACKET + full * HASH_LEN);
             Some (Inr (Scrape \<lparr>sc_connection_id = connection_id,
               sc_transaction_id = transaction_id, sc_hashes = hashes\<rparr>))
           })
        else Some (Inl (UnknownAction action))
      })"

section \<open>Serialisation\<close>

definition write_connect :: "bytes \<Rightarrow> u32 \<Rightarrow> u64 \<Rightarrow> bytes option" where
  "write_connect out transaction_id connection_id =
     do {
       out \<leftarrow> copy_into out 0 4 (u32_be 0);
       out \<leftarrow> copy_into out 4 8 (u32_be transaction_id);
       copy_into out 8 16 (u64_be connection_id)
     }"

definition write_announce ::
  "bytes \<Rightarrow> u32 \<Rightarrow> u32 \<Rightarrow> u32 \<Rightarrow> u32 \<Rightarrow> bytes \<Rightarrow> (bytes \<times> nat) option" where
  "write_announce out transaction_id interval leech seed ps =
     do {
       out \<leftarrow> copy_into out 0 4 (u32_be 1);
       out \<leftarrow> copy_into out 4 8 (u32_be transaction_id);
       out \<leftarrow> copy_into out 8 12 (u32_be interval);
       out \<leftarrow> copy_into out 12 16 (u32_be leech);
       out \<leftarrow> copy_into out 16 20 (u32_be seed);
       out \<leftarrow> copy_into out 20 (20 + length ps) ps;
       Some (out, 20 + length ps)
     }"

fun scrape_entries :: "bytes \<Rightarrow> nat \<Rightarrow> (u32 \<times> u32 \<times> u32) list \<Rightarrow> (bytes \<times> nat) option" where
  "scrape_entries out off [] = Some (out, off)"
| "scrape_entries out off ((seed, down, leech) # es) =
     do {
       out \<leftarrow> copy_into out off (off + 4) (u32_be seed);
       out \<leftarrow> copy_into out (off + 4) (off + 8) (u32_be down);
       out \<leftarrow> copy_into out (off + 8) (off + 12) (u32_be leech);
       scrape_entries out (off + 12) es
     }"

definition write_scrape :: "bytes \<Rightarrow> u32 \<Rightarrow> (u32 \<times> u32 \<times> u32) list \<Rightarrow> (bytes \<times> nat) option" where
  "write_scrape out transaction_id entries =
     do {
       out \<leftarrow> copy_into out 0 4 (u32_be 2);
       out \<leftarrow> copy_into out 4 8 (u32_be transaction_id);
       scrape_entries out 8 entries
     }"

definition write_error :: "bytes \<Rightarrow> u32 \<Rightarrow> bytes \<Rightarrow> (bytes \<times> nat) option" where
  "write_error out transaction_id message =
     do {
       out \<leftarrow> copy_into out 0 4 (u32_be 3);
       out \<leftarrow> copy_into out 4 8 (u32_be transaction_id);
       out \<leftarrow> copy_into out 8 (8 + length message) message;
       Some (out, 8 + length message)
     }"

section \<open>Parsing without panics\<close>

lemma read_slice:
  "j \<le> length b \<Longrightarrow> j = i + 2 \<Longrightarrow> slice b i j \<bind> be_u16 = Some (from_be (take 2 (drop i b)))"
  "j \<le> length b \<Longrightarrow> j = i + 4 \<Longrightarrow> slice b i j \<bind> be_u32 = Some (from_be (take 4 (drop i b)))"
  "j \<le> length b \<Longrightarrow> j = i + 8 \<Longrightarrow> slice b i j \<bind> be_u64 = Some (from_be (take 8 (drop i b)))"
  "j \<le> length b \<Longrightarrow> j = i + 20 \<Longrightarrow> slice b i j \<bind> hash_ref = Some (take 20 (drop i b))"
  by (simp_all add: slice_def be_u16_def be_u32_def be_u64_def hash_ref_def HASH_LEN_def)

text \<open>The fields of an announce of sufficient length.\<close>

definition announce_fields :: "bytes \<Rightarrow> announce" where
  "announce_fields buf =
     \<lparr>an_connection_id = from_be (take 8 buf), an_transaction_id = from_be (take 4 (drop 12 buf)),
      an_info_hash = take 20 (drop 16 buf), an_peer_id = take 20 (drop 36 buf),
      an_downloaded = from_be (take 8 (drop 56 buf)), an_left = from_be (take 8 (drop 64 buf)),
      an_uploaded = from_be (take 8 (drop 72 buf)),
      an_event = from_udp (from_be (take 4 (drop 80 buf))),
      an_declared_ip = from_be (take 4 (drop 84 buf)), an_key = from_be (take 4 (drop 88 buf)),
      an_num_want = from_be (take 4 (drop 92 buf)), an_port = from_be (take 2 (drop 96 buf))\<rparr>"

lemma parse_announce_eq:
  "98 \<le> length buf \<Longrightarrow>
   parse_announce buf (from_be (take 8 buf)) (from_be (take 4 (drop 12 buf))) = Some (announce_fields buf)"
  by (simp add: parse_announce_def read_slice announce_fields_def)

definition scrape_fields :: "bytes \<Rightarrow> scrape_req" where
  "scrape_fields buf =
     \<lparr>sc_connection_id = from_be (take 8 buf), sc_transaction_id = from_be (take 4 (drop 12 buf)),
      sc_hashes = take (min ((length buf - 16) div 20) 75 * 20) (drop 16 buf)\<rparr>"

lemma scrape_span: "16 \<le> l \<Longrightarrow> 16 + min ((l - 16) div 20) 75 * 20 \<le> (l :: nat)"
proof -
  assume "16 \<le> l"
  have "min ((l - 16) div 20) 75 * 20 \<le> (l - 16) div 20 * 20"
    by (rule mult_le_mono1) simp
  also have "\<dots> \<le> l - 16" by (rule div_times_less_eq_dividend)
  finally show ?thesis using \<open>16 \<le> l\<close> by simp
qed

lemma parse_eq:
  "parse buf = Some
     (if length buf < 16 then Inl TooShort
      else let action = (from_be (take 4 (drop 8 buf)) :: u32)
      in if action = 0 then
           (if (from_be (take 8 buf) :: u64) \<noteq> PROTOCOL_ID then Inl BadProtocolId
            else Inr (Connect (from_be (take 4 (drop 12 buf)))))
         else if action = 1 then
           (if length buf < 98 then Inl AnnounceTooShort else Inr (Announce (announce_fields buf)))
         else if action = 2 then Inr (Scrape (scrape_fields buf))
         else Inl (UnknownAction action))"
proof (cases "length buf < 16")
  case True
  then show ?thesis by (simp add: parse_def size_defs)
next
  case False
  then have l: "16 \<le> length buf" by simp
  have sl: "slice buf 16 (16 + min ((length buf - 16) div 20) 75 * 20) =
      Some (take (min ((length buf - 16) div 20) 75 * 20) (drop 16 buf))"
    using scrape_span [OF l] by (subst slice_Some) simp_all
  have hd: "slice buf 0 8 \<bind> be_u64 = Some (from_be (take 8 buf))"
    "slice buf 8 12 \<bind> be_u32 = Some (from_be (take 4 (drop 8 buf)))"
    "slice buf 12 16 \<bind> be_u32 = Some (from_be (take 4 (drop 12 buf)))"
    using l by (simp_all add: read_slice)
  show ?thesis
  proof (cases "(from_be (take 4 (drop 8 buf)) :: u32) = 2")
    case True
    with l show ?thesis by (simp add: parse_def size_defs hd sl scrape_fields_def Let_def)
  next
    case False
    with l show ?thesis
      using parse_announce_eq [of buf] by (simp add: parse_def size_defs hd Let_def not_less)
  qed
qed

lemma parse_cases:
  obtains e where "parse buf = Some (Inl e)" | r where "parse buf = Some (Inr r)"
  using parse_eq [of buf] by (metis sum.exhaust)

lemma parse_Announce_iff:
  "parse buf = Some (Inr (Announce a)) \<longleftrightarrow>
     98 \<le> length buf \<and> (from_be (take 4 (drop 8 buf)) :: u32) = 1 \<and> a = announce_fields buf"
  by (auto simp: parse_eq Let_def)

lemma parse_Scrape_iff:
  "parse buf = Some (Inr (Scrape s)) \<longleftrightarrow>
     16 \<le> length buf \<and> (from_be (take 4 (drop 8 buf)) :: u32) = 2 \<and> s = scrape_fields buf"
  by (auto simp: parse_eq Let_def)

lemma announce_hash_length:
  "parse buf = Some (Inr (Announce a)) \<Longrightarrow> length (an_info_hash a) = 20 \<and> length (an_peer_id a) = 20"
  by (auto simp: parse_Announce_iff announce_fields_def)

lemma length_chunks_exact: "0 < n \<Longrightarrow> length (chunks_exact n xs) = length xs div n"
proof (induction n xs rule: chunks_exact.induct)
  case (1 n xs)
  then show ?case
    by (subst chunks_exact.simps) (auto simp: le_div_geq)
qed

lemma set_chunks_exact: "c \<in> set (chunks_exact n xs) \<Longrightarrow> length c = n"
proof (induction n xs rule: chunks_exact.induct)
  case (1 n xs)
  then show ?case
    by (subst (asm) (2) chunks_exact.simps) (auto split: if_splits)
qed

lemma concat_chunks_exact: "concat (chunks_exact n xs) = take (length xs div n * n) xs"
proof (induction n xs rule: chunks_exact.induct)
  case (1 n xs)
  show ?case
  proof (cases "n = 0 \<or> length xs < n")
    case True
    then show ?thesis by (subst chunks_exact.simps) auto
  next
    case False
    then have "length xs div n * n = n + (length xs - n) div n * n"
      by (simp add: le_div_geq)
    with False 1 show ?thesis
      by (subst chunks_exact.simps) (simp add: take_add)
  qed
qed

lemma those_map_Some: "(\<forall>x \<in> set xs. g x = Some x) \<Longrightarrow> those (map g xs) = Some xs"
  by (induction xs) auto

lemma iter_hashes_eq: "iter_hashes s = Some (chunks_exact 20 (sc_hashes s))"
  unfolding iter_hashes_def HASH_LEN_def
  by (rule those_map_Some) (auto simp: hash_ref_def HASH_LEN_def dest: set_chunks_exact)

lemma scrape_hash_count:
  "length (chunks_exact 20 (sc_hashes (scrape_fields buf))) = min ((length buf - 16) div 20) 75"
proof (cases "16 \<le> length buf")
  case True
  then show ?thesis
    using scrape_span [OF True] by (simp add: length_chunks_exact scrape_fields_def)
next
  case False
  then show ?thesis by (simp add: length_chunks_exact scrape_fields_def)
qed

section \<open>What the writers produce\<close>

lemma write_connect_eq:
  "16 \<le> length out \<Longrightarrow>
   write_connect out tx cid = Some (u32_be 0 @ u32_be tx @ u64_be cid @ drop 16 out)"
  by (simp add: write_connect_def copy_into_def)

lemma write_announce_eq:
  "20 + length ps \<le> length out \<Longrightarrow>
   write_announce out tx interval leech seed ps =
     Some (u32_be 1 @ u32_be tx @ u32_be interval @ u32_be leech @ u32_be seed @ ps @
       drop (20 + length ps) out, 20 + length ps)"
  by (simp add: write_announce_def copy_into_def add.commute)

definition scrape_body :: "(u32 \<times> u32 \<times> u32) list \<Rightarrow> bytes" where
  "scrape_body es = concat (map (\<lambda>(s, d, l). u32_be s @ u32_be d @ u32_be l) es)"

lemma scrape_body_simps [simp]:
  "scrape_body [] = []"
  "scrape_body ((s, d, l) # es) = u32_be s @ u32_be d @ u32_be l @ scrape_body es"
  by (simp_all add: scrape_body_def)

lemma length_scrape_body [simp]: "length (scrape_body es) = 12 * length es"
  by (induction es) auto

lemma scrape_entries_eq:
  "length a = off \<Longrightarrow> 12 * length es \<le> length b \<Longrightarrow>
   scrape_entries (a @ b) off es =
     Some (a @ scrape_body es @ drop (12 * length es) b, off + 12 * length es)"
proof (induction es arbitrary: a b off)
  case (Cons e es)
  obtain s d l where e: "e = (s, d, l)" by (cases e)
  have "scrape_entries (a @ b) off (e # es) =
      scrape_entries ((a @ u32_be s @ u32_be d @ u32_be l) @ drop 12 b) (off + 12) es"
    using Cons.prems by (simp add: e copy_into_def)
  also have "\<dots> = Some ((a @ u32_be s @ u32_be d @ u32_be l) @ scrape_body es @
      drop (12 * length es) (drop 12 b), off + 12 + 12 * length es)"
    by (rule Cons.IH) (use Cons.prems in simp_all)
  finally show ?case by (simp add: e add.commute)
qed simp

lemma write_scrape_eq:
  assumes "8 + 12 * length es \<le> length out"
  shows "write_scrape out tx es =
    Some (u32_be 2 @ u32_be tx @ scrape_body es @ drop (8 + 12 * length es) out, 8 + 12 * length es)"
proof -
  have "write_scrape out tx es = scrape_entries ((u32_be 2 @ u32_be tx) @ drop 8 out) 8 es"
    using assms by (simp add: write_scrape_def copy_into_def)
  with assms show ?thesis
    using scrape_entries_eq [of "u32_be 2 @ u32_be tx" 8 es "drop 8 out"]
    by (simp add: add.commute)
qed

lemma write_error_eq:
  "8 + length m \<le> length out \<Longrightarrow>
   write_error out tx m = Some (u32_be 3 @ u32_be tx @ m @ drop (8 + length m) out, 8 + length m)"
  by (simp add: write_error_def copy_into_def add.commute)

end
