(* ===== verification/Proto_Udp_Spec.thy ===== *)
theory Proto_Udp_Spec
  imports Proto_Udp
begin

text \<open>
  The other end of the wire, written from BEP-15: an encoder for the requests a client
  sends and a decoder for the responses it receives. The properties state that the tracker's
  parser and writers are inverse to them.
\<close>

fun event_code :: "event \<Rightarrow> u32" where
  "event_code EvNone = 0"
| "event_code EvCompleted = 1"
| "event_code EvStopped = 3"

lemma from_udp_event_code [simp]: "from_udp (event_code e) = e"
  by (cases e) simp_all

definition encode_announce :: "announce \<Rightarrow> bytes" where
  "encode_announce a =
     u64_be (an_connection_id a) @ u32_be 1 @ u32_be (an_transaction_id a) @
     an_info_hash a @ an_peer_id a @ u64_be (an_downloaded a) @ u64_be (an_left a) @
     u64_be (an_uploaded a) @ u32_be (event_code (an_event a)) @ u32_be (an_declared_ip a) @
     u32_be (an_key a) @ u32_be (an_num_want a) @ u16_be (an_port a)"

fun encode_request :: "request \<Rightarrow> bytes" where
  "encode_request (Connect tx) = u64_be PROTOCOL_ID @ u32_be 0 @ u32_be tx"
| "encode_request (Announce a) = encode_announce a"
| "encode_request (Scrape s) =
     u64_be (sc_connection_id s) @ u32_be 2 @ u32_be (sc_transaction_id s) @ sc_hashes s"

text \<open>The requests a client can put on the wire, and the padding that may follow them.\<close>

fun sendable :: "request \<Rightarrow> bool" where
  "sendable (Connect tx) \<longleftrightarrow> True"
| "sendable (Announce a) \<longleftrightarrow> length (an_info_hash a) = 20 \<and> length (an_peer_id a) = 20"
| "sendable (Scrape s) \<longleftrightarrow> length (sc_hashes s) mod 20 = 0 \<and> length (sc_hashes s) div 20 \<le> 75"

fun padding_ok :: "request \<Rightarrow> bytes \<Rightarrow> bool" where
  "padding_ok (Scrape s) pad \<longleftrightarrow> length pad < 20 \<or> length (sc_hashes s) div 20 = 75"
| "padding_ok _ pad \<longleftrightarrow> True"

datatype response =
  RConnect u32 u64
| RAnnounce u32 u32 u32 u32 bytes
| RScrape u32 "(u32 \<times> u32 \<times> u32) list"
| RError u32 bytes

definition decode_entry :: "bytes \<Rightarrow> u32 \<times> u32 \<times> u32" where
  "decode_entry b = (from_be (take 4 b), from_be (take 4 (drop 4 b)), from_be (take 4 (drop 8 b)))"

definition decode_response :: "bytes \<Rightarrow> response option" where
  "decode_response b =
     (let action = (from_be (take 4 b) :: u32); tx = from_be (take 4 (drop 4 b)); body = drop 8 b
      in if length b < 8 then None
         else if action = 0 \<and> length b = 16 then Some (RConnect tx (from_be body))
         else if action = 1 \<and> 20 \<le> length b then
           Some (RAnnounce tx (from_be (take 4 body)) (from_be (take 4 (drop 4 body)))
             (from_be (take 4 (drop 8 body))) (drop 12 body))
         else if action = 2 \<and> length body mod 12 = 0 then
           Some (RScrape tx (map decode_entry (chunks_exact 12 body)))
         else if action = 3 then Some (RError tx body)
         else None)"

text \<open>C22. \<open>udp::parse\<close> never panics, whatever the datagram, and its outcome is decided by the
  length, the action field and the magic alone. Each error is given in exactly its case: less than
  16 bytes, a connect without the BEP-15 magic, an announce of less than 98 bytes, an action above
  2, which is reported. Otherwise the request is the one the action names, and the hashes of a
  scrape are the whole strides of 20 bytes that follow the header, at most 75 of them.\<close>

theorem parse_total:
  "\<exists>r. parse buf = Some r \<and>
    (case r of
       Inl TooShort \<Rightarrow> length buf < 16
     | Inl BadProtocolId \<Rightarrow> 16 \<le> length buf \<and> (from_be (take 4 (drop 8 buf)) :: u32) = 0 \<and>
         (from_be (take 8 buf) :: u64) \<noteq> 0x41727101980
     | Inl AnnounceTooShort \<Rightarrow> 16 \<le> length buf \<and> length buf < 98 \<and> (from_be (take 4 (drop 8 buf)) :: u32) = 1
     | Inl (UnknownAction n) \<Rightarrow> 16 \<le> length buf \<and> n = from_be (take 4 (drop 8 buf)) \<and> 2 < unat n
     | Inr (Connect tx) \<Rightarrow> 16 \<le> length buf \<and> (from_be (take 4 (drop 8 buf)) :: u32) = 0 \<and>
         (from_be (take 8 buf) :: u64) = 0x41727101980 \<and> tx = from_be (take 4 (drop 12 buf))
     | Inr (Announce a) \<Rightarrow> 98 \<le> length buf \<and> (from_be (take 4 (drop 8 buf)) :: u32) = 1 \<and>
         length (an_info_hash a) = 20 \<and> length (an_peer_id a) = 20
     | Inr (Scrape s) \<Rightarrow> 16 \<le> length buf \<and> (from_be (take 4 (drop 8 buf)) :: u32) = 2 \<and>
         iter_hashes s = Some (chunks_exact 20 (sc_hashes s)) \<and>
         concat (chunks_exact 20 (sc_hashes s)) = sc_hashes s \<and>
         sc_hashes s = take (length (sc_hashes s)) (drop 16 buf) \<and>
         length (chunks_exact 20 (sc_hashes s)) = min ((length buf - 16) div 20) 75)"
proof -
  let ?act = "from_be (take 4 (drop 8 buf)) :: u32"
  have unknown: "2 < unat ?act" if "?act \<noteq> 0" "?act \<noteq> 1" "?act \<noteq> 2"
  proof -
    have "unat ?act \<noteq> unat (0 :: u32)" "unat ?act \<noteq> unat (1 :: u32)" "unat ?act \<noteq> unat (2 :: u32)"
      using that by (simp_all only: word_unat_eq_iff not_False_eq_True simp_thms)
    then show ?thesis by simp
  qed
  have "concat (chunks_exact 20 (sc_hashes (scrape_fields buf))) = sc_hashes (scrape_fields buf)"
    unfolding concat_chunks_exact by (simp add: scrape_fields_def)
  moreover have "take n xs = take (length (take n xs)) xs" for n and xs :: bytes
    by (cases "n \<le> length xs") simp_all
  then have "sc_hashes (scrape_fields buf) = take (length (sc_hashes (scrape_fields buf))) (drop 16 buf)"
    unfolding scrape_fields_def scrape_req.select_convs .
  ultimately have hashes: "concat (chunks_exact 20 (sc_hashes (scrape_fields buf))) = sc_hashes (scrape_fields buf)"
    "sc_hashes (scrape_fields buf) = take (length (sc_hashes (scrape_fields buf))) (drop 16 buf)" .
  have announce: "length (an_info_hash (announce_fields buf)) = 20 \<and> length (an_peer_id (announce_fields buf)) = 20"
    if "98 \<le> length buf" using that by (simp add: announce_fields_def)
  consider "length buf < 16" | "16 \<le> length buf" "?act = 0" | "16 \<le> length buf" "?act = 1"
    | "16 \<le> length buf" "?act = 2" | "16 \<le> length buf" "?act \<noteq> 0" "?act \<noteq> 1" "?act \<noteq> 2"
    by linarith
  then show ?thesis
  proof cases
    case 4
    then have "parse buf = Some (Inr (Scrape (scrape_fields buf)))" by (simp add: parse_Scrape_iff)
    then show ?thesis
      by (intro exI [of _ "Inr (Scrape (scrape_fields buf))"] conjI)
        (unfold sum.case request.case, assumption, intro conjI 4 hashes scrape_hash_count iter_hashes_eq)
  next
    case 5
    then have "parse buf = Some (Inl (UnknownAction ?act))" by (simp add: parse_eq Let_def)
    with 5 unknown show ?thesis by (intro exI [of _ "Inl (UnknownAction ?act)"]) simp
  qed (use announce in \<open>simp_all add: parse_eq Let_def PROTOCOL_ID_def not_less\<close>)
qed

lemma chunks_exact_append:
  "0 < n \<Longrightarrow> length c = n \<Longrightarrow> chunks_exact n (c @ xs) = c # chunks_exact n xs"
  by (subst chunks_exact.simps) simp

lemma chunks_scrape_body: "map decode_entry (chunks_exact 12 (scrape_body es)) = es"
proof (induction es)
  case Nil
  then show ?case by (simp add: chunks_exact.simps)
next
  case (Cons e es)
  obtain s d l where e: "e = (s, d, l)" by (cases e)
  have "chunks_exact 12 (scrape_body (e # es)) =
      (u32_be s @ u32_be d @ u32_be l) # chunks_exact 12 (scrape_body es)"
    using chunks_exact_append [of 12 "u32_be s @ u32_be d @ u32_be l" "scrape_body es"]
    by (simp add: e)
  with Cons show ?case by (simp add: e decode_entry_def)
qed

lemma encode_parse:
  assumes "sendable r" "padding_ok r pad"
  shows "parse (encode_request r @ pad) = Some (Inr r)"
proof (cases r)
  case (Connect tx)
  then show ?thesis by (simp add: parse_eq Let_def)
next
  case (Announce a)
  with assms show ?thesis
    by (simp add: parse_eq Let_def encode_announce_def announce_fields_def)
next
  case (Scrape s)
  let ?n = "length (sc_hashes s)"
  from assms Scrape have n: "?n = ?n div 20 * 20" "?n div 20 \<le> 75"
    and pad: "length pad < 20 \<or> ?n div 20 = 75"
    by auto
  have "(?n + length pad) div 20 = ?n div 20 + length pad div 20"
    by (subst n(1)) (simp add: div_mult_self3)
  with n(2) pad have "min ((?n + length pad) div 20) 75 = ?n div 20" by auto
  with n(1) Scrape show ?thesis
    by (simp add: parse_eq Let_def scrape_fields_def)
qed

text \<open>C21. Every request a client encodes as BEP-15 prescribes is parsed back
  field by field, and the bytes that may follow it are ignored.\<close>

theorem request_roundtrip:
  assumes "sendable r" "padding_ok r pad"
  shows "parse (encode_request r @ pad) = Some (Inr r)"
  using assms by (rule encode_parse)

theorem request_roundtrip_witness:
  "parse (encode_request (Scrape \<lparr>sc_connection_id = 7, sc_transaction_id = 9,
      sc_hashes = replicate 20 1\<rparr>) @ [1, 2, 3]) =
    Some (Inr (Scrape \<lparr>sc_connection_id = 7, sc_transaction_id = 9, sc_hashes = replicate 20 1\<rparr>))"
  by (rule request_roundtrip) simp_all

text \<open>Each writer, given a buffer large enough, writes a datagram from
  whose announced length a client reads back exactly the values written: the connection id,
  the interval, the leecher and seeder counts and the compact peers, the scrape triples, the
  error message.\<close>

lemma response_roundtrip:
  assumes "16 \<le> length out1" "20 + length ps \<le> length out2" "8 + 12 * length es \<le> length out3"
    "8 + length msg \<le> length out4"
  shows "map_option (\<lambda>o1. decode_response (take 16 o1)) (write_connect out1 tx cid) =
      Some (Some (RConnect tx cid)) \<and>
    map_option (\<lambda>(o2, n). decode_response (take n o2)) (write_announce out2 tx iv le se ps) =
      Some (Some (RAnnounce tx iv le se ps)) \<and>
    map_option (\<lambda>(o3, n). decode_response (take n o3)) (write_scrape out3 tx es) =
      Some (Some (RScrape tx es)) \<and>
    map_option (\<lambda>(o4, n). decode_response (take n o4)) (write_error out4 tx msg) =
      Some (Some (RError tx msg))"
  using assms
  by (simp add: write_connect_eq write_announce_eq write_scrape_eq write_error_eq
      decode_response_def chunks_scrape_body Let_def)

end
