(* ===== verification/Bencode.thy ===== *)
theory Bencode
  imports Core Store
begin

text \<open>
  crates/bf-proto/src/bencode.rs: the streaming bencode writer and the three HTTP bodies.
  The writer appends to a byte buffer; an \<open>Encoder\<close> is that buffer. Integers are formatted
  by the third-party crate itoa, the parameter \<open>itoa\<close>, which formats in decimal
  (\<open>itoa_decimal\<close>). The bodies are checked against an independent bencode reader.
\<close>

section \<open>Text as bytes\<close>

definition str :: "string \<Rightarrow> bytes" where
  "str s = map of_char s"

text \<open>Decimal digits, the reference for integer formatting.\<close>

fun dec :: "nat \<Rightarrow> bytes" where
  "dec n = (if n < 10 then [word_of_nat (0x30 + n)] else dec (n div 10) @ [word_of_nat (0x30 + n mod 10)])"

declare dec.simps [simp del]

definition itoa_decimal :: "(u64 \<Rightarrow> bytes) \<Rightarrow> bool" where
  "itoa_decimal itoa \<longleftrightarrow> (\<forall>v. itoa v = dec (unat v))"

lemma itoa_decimal_dec [simp]: "itoa_decimal (\<lambda>v. dec (unat v))"
  by (simp add: itoa_decimal_def)

section \<open>The writer\<close>

type_synonym itoa = "u64 \<Rightarrow> bytes"

definition write_uint :: "itoa \<Rightarrow> u64 \<Rightarrow> bytes \<Rightarrow> bytes" where
  "write_uint itoa v out = out @ itoa v"

definition enc_int :: "itoa \<Rightarrow> u64 \<Rightarrow> bytes \<Rightarrow> bytes" where
  "enc_int itoa v out = write_uint itoa v (out @ str ''i'') @ str ''e''"

definition enc_bytes :: "itoa \<Rightarrow> bytes \<Rightarrow> bytes \<Rightarrow> bytes" where
  "enc_bytes itoa b out = (write_uint itoa (word_of_nat (length b)) out @ str '':'') @ b"

definition enc_dict :: "bytes \<Rightarrow> bytes" where "enc_dict out = out @ str ''d''"
definition enc_list :: "bytes \<Rightarrow> bytes" where "enc_list out = out @ str ''l''"
definition enc_end :: "bytes \<Rightarrow> bytes" where "enc_end out = out @ str ''e''"

definition announce_response :: "itoa \<Rightarrow> bytes \<Rightarrow> counts \<Rightarrow> u32 \<Rightarrow> bytes \<Rightarrow> bytes \<Rightarrow> bytes" where
  "announce_response itoa out c interval peers4 peers6 =
     (let out = enc_dict out;
          out = enc_bytes itoa (str ''complete'') out;
          out = enc_int itoa (ucast (complete c)) out;
          out = enc_bytes itoa (str ''downloaded'') out;
          out = enc_int itoa (ucast (c_downloaded c)) out;
          out = enc_bytes itoa (str ''incomplete'') out;
          out = enc_int itoa (ucast (incomplete c)) out;
          out = enc_bytes itoa (str ''interval'') out;
          out = enc_int itoa (ucast interval) out;
          out = enc_bytes itoa (str ''min interval'') out;
          out = enc_int itoa (ucast (interval div 2)) out;
          out = enc_bytes itoa (str ''peers'') out;
          out = enc_bytes itoa peers4 out;
          out = enc_bytes itoa (str ''peers6'') out;
          out = enc_bytes itoa peers6 out
      in enc_end out)"

definition scrape_file :: "itoa \<Rightarrow> bytes \<Rightarrow> info_hash \<times> counts \<Rightarrow> bytes" where
  "scrape_file itoa out f =
     (let out = enc_bytes itoa (fst f) out;
          out = enc_dict out;
          out = enc_bytes itoa (str ''complete'') out;
          out = enc_int itoa (ucast (complete (snd f))) out;
          out = enc_bytes itoa (str ''downloaded'') out;
          out = enc_int itoa (ucast (c_downloaded (snd f))) out;
          out = enc_bytes itoa (str ''incomplete'') out;
          out = enc_int itoa (ucast (incomplete (snd f))) out
      in enc_end out)"

definition scrape_response :: "itoa \<Rightarrow> bytes \<Rightarrow> (info_hash \<times> counts) list \<Rightarrow> bytes" where
  "scrape_response itoa out files =
     enc_end (enc_end (foldl (scrape_file itoa) (enc_dict (enc_bytes itoa (str ''files'') (enc_dict out))) files))"

definition failure :: "itoa \<Rightarrow> bytes \<Rightarrow> bytes \<Rightarrow> bytes" where
  "failure itoa out reason =
     enc_end (enc_bytes itoa reason (enc_bytes itoa (str ''failure reason'') (enc_dict out)))"

section \<open>A bencode reader\<close>

datatype bvalue = BInt nat | BStr bytes | BList "bvalue list" | BDict "(bytes \<times> bvalue) list"

definition is_digit :: "u8 \<Rightarrow> bool" where
  "is_digit b \<longleftrightarrow> 0x30 \<le> unat b \<and> unat b \<le> 0x39"

definition digits_val :: "bytes \<Rightarrow> nat" where
  "digits_val ds = foldl (\<lambda>a d. 10 * a + (unat d - 0x30)) 0 ds"

definition read_uint :: "bytes \<Rightarrow> (nat \<times> bytes) option" where
  "read_uint b =
     (let ds = takeWhile is_digit b in if ds = [] then None else Some (digits_val ds, dropWhile is_digit b))"

definition read_str :: "bytes \<Rightarrow> (bytes \<times> bytes) option" where
  "read_str b =
     (case read_uint b of
        Some (n, c # rest) \<Rightarrow>
          if c = 0x3a \<and> n \<le> length rest then Some (take n rest, drop n rest) else None
      | _ \<Rightarrow> None)"

fun read_value :: "nat \<Rightarrow> bytes \<Rightarrow> (bvalue \<times> bytes) option"
  and read_items :: "nat \<Rightarrow> bytes \<Rightarrow> (bvalue list \<times> bytes) option"
  and read_entries :: "nat \<Rightarrow> bytes \<Rightarrow> ((bytes \<times> bvalue) list \<times> bytes) option" where
  "read_value 0 b = None"
| "read_value (Suc fuel) [] = None"
| "read_value (Suc fuel) (c # b) =
     (if c = 0x69 then
        (case read_uint b of
           Some (n, e # rest) \<Rightarrow> if e = 0x65 then Some (BInt n, rest) else None
         | _ \<Rightarrow> None)
      else if c = 0x6c then map_option (\<lambda>(vs, rest). (BList vs, rest)) (read_items fuel b)
      else if c = 0x64 then map_option (\<lambda>(es, rest). (BDict es, rest)) (read_entries fuel b)
      else map_option (\<lambda>(s, rest). (BStr s, rest)) (read_str (c # b)))"
| "read_items 0 b = None"
| "read_items (Suc fuel) b =
     (case b of
        [] \<Rightarrow> None
      | c # b' \<Rightarrow>
          if c = 0x65 then Some ([], b')
          else do {
            (v, b1) \<leftarrow> read_value fuel b;
            (vs, b2) \<leftarrow> read_items fuel b1;
            Some (v # vs, b2)
          })"
| "read_entries 0 b = None"
| "read_entries (Suc fuel) b =
     (case b of
        [] \<Rightarrow> None
      | c # b' \<Rightarrow>
          if c = 0x65 then Some ([], b')
          else do {
            (k, b0) \<leftarrow> read_str b;
            (v, b1) \<leftarrow> read_value fuel b0;
            (es, b2) \<leftarrow> read_entries fuel b1;
            Some ((k, v) # es, b2)
          })"

text \<open>Reading one whole body: as much fuel as there are bytes, nothing left over.\<close>

definition read_body :: "bytes \<Rightarrow> bvalue option" where
  "read_body b =
     (case read_value (Suc (length b)) b of Some (v, []) \<Rightarrow> Some v | _ \<Rightarrow> None)"

section \<open>Reading decimal numbers back\<close>

lemma unat_digit [simp]: "n < 10 \<Longrightarrow> unat (0x30 + word_of_nat n :: u8) = 0x30 + n"
  using unat_of_nat [of "0x30 + n", where 'a = 8] by simp

lemma is_digit_of: "n < 10 \<Longrightarrow> is_digit (word_of_nat (0x30 + n))"
  by (simp add: is_digit_def)

lemma dec_digits: "\<forall>d \<in> set (dec n). is_digit d"
proof (induction n rule: dec.induct)
  case (1 n)
  then show ?case
    using is_digit_of [of n] is_digit_of [of "n mod 10"] by (subst dec.simps) auto
qed

lemma dec_nonempty [simp]: "dec n \<noteq> []"
  by (subst dec.simps) simp

lemma digits_val_snoc [simp]: "digits_val (ds @ [d]) = 10 * digits_val ds + (unat d - 0x30)"
  by (simp add: digits_val_def)

lemma digits_val_dec: "digits_val (dec n) = n"
proof (induction n rule: dec.induct)
  case (1 n)
  show ?case
  proof (cases "n < 10")
    case True
    then show ?thesis by (subst dec.simps) (simp add: digits_val_def)
  next
    case False
    with 1 show ?thesis by (subst dec.simps) simp
  qed
qed

lemma read_uint_dec: "\<not> is_digit c \<Longrightarrow> read_uint (dec n @ c # rest) = Some (n, c # rest)"
  using dec_digits [of n]
  by (simp add: read_uint_def digits_val_dec Let_def)

lemma read_str_dec: "read_str (dec (length s) @ 0x3a # s @ rest) = Some (s, rest)"
  by (simp add: read_str_def read_uint_dec is_digit_def)

lemma dec_hd: "is_digit (hd (dec n))"
  using dec_digits [of n] by (cases "dec n") auto

section \<open>Reading back what is written\<close>

fun bser :: "bvalue \<Rightarrow> bytes" where
  "bser (BInt n) = 0x69 # dec n @ [0x65]"
| "bser (BStr s) = dec (length s) @ 0x3a # s"
| "bser (BList vs) = 0x6c # concat (map bser vs) @ [0x65]"
| "bser (BDict es) = 0x64 # concat (map (\<lambda>e. dec (length (fst e)) @ 0x3a # fst e @ bser (snd e)) es) @ [0x65]"

lemma digit_neq: "is_digit d \<Longrightarrow> d \<noteq> 0x65 \<and> d \<noteq> 0x69 \<and> d \<noteq> 0x6c \<and> d \<noteq> 0x64"
  by (auto simp: is_digit_def)

lemma dec_Cons: obtains d ds where "dec n = d # ds" "d \<noteq> 0x65" "d \<noteq> 0x69" "d \<noteq> 0x6c" "d \<noteq> 0x64"
  using dec_hd [of n] dec_nonempty [of n] digit_neq by (cases "dec n") auto

lemma bser_Cons: obtains c cs where "bser v = c # cs" "c \<noteq> 0x65"
proof (cases v)
  case (BStr s)
  then show ?thesis by (metis append_Cons bser.simps(2) dec_Cons that)
qed (use that in auto)

lemma bser_length: "1 \<le> length (bser v)"
  by (rule bser_Cons [of v]) simp

lemma read_items_ser:
  assumes "\<And>v f rest. v \<in> set vs \<Longrightarrow> length (bser v) \<le> f \<Longrightarrow> read_value f (bser v @ rest) = Some (v, rest)"
  shows "length (concat (map bser vs)) < f \<Longrightarrow>
    read_items f (concat (map bser vs) @ 0x65 # rest) = Some (vs, rest)"
  using assms
proof (induction vs arbitrary: f)
  case Nil
  then obtain f' where "f = Suc f'" by (cases f) auto
  then show ?case by simp
next
  case (Cons v vs)
  then obtain f' where f: "f = Suc f'" by (cases f) auto
  obtain c cs where c: "bser v = c # cs" "c \<noteq> 0x65" by (rule bser_Cons)
  let ?rest = "concat (map bser vs) @ 0x65 # rest"
  have v: "read_value f' (bser v @ ?rest) = Some (v, ?rest)"
    using Cons.prems f by simp
  have "read_items f' ?rest = Some (vs, rest)"
    using Cons.prems f bser_length [of v] by (intro Cons.IH) auto
  with v c show ?case by (simp add: f)
qed

lemma read_entries_ser:
  assumes "\<And>e f rest. e \<in> set es \<Longrightarrow> length (bser (snd e)) \<le> f \<Longrightarrow>
      read_value f (bser (snd e) @ rest) = Some (snd e, rest)"
  shows "length (concat (map (\<lambda>e. dec (length (fst e)) @ 0x3a # fst e @ bser (snd e)) es)) < f \<Longrightarrow>
    read_entries f (concat (map (\<lambda>e. dec (length (fst e)) @ 0x3a # fst e @ bser (snd e)) es) @ 0x65 # rest)
      = Some (es, rest)"
  using assms
proof (induction es arbitrary: f)
  case Nil
  then obtain f' where "f = Suc f'" by (cases f) auto
  then show ?case by simp
next
  case (Cons e es)
  let ?ser = "\<lambda>e. dec (length (fst e)) @ 0x3a # fst e @ bser (snd e)"
  from Cons.prems obtain f' where f: "f = Suc f'" by (cases f) auto
  obtain d ds where d: "dec (length (fst e)) = d # ds" "d \<noteq> 0x65" by (rule dec_Cons)
  let ?rest = "concat (map ?ser es) @ 0x65 # rest"
  have k: "read_str (?ser e @ ?rest) = Some (fst e, bser (snd e) @ ?rest)"
    using read_str_dec [of "fst e"] by simp
  have v: "read_value f' (bser (snd e) @ ?rest) = Some (snd e, ?rest)"
    using Cons.prems f by simp
  have es: "read_entries f' ?rest = Some (es, rest)"
    using Cons.prems f by (intro Cons.IH) auto
  from d have hd: "\<exists>cs. ?ser e @ ?rest = d # cs" by simp
  have "read_entries f (?ser e @ ?rest) = Some (e # es, rest)"
    using hd d(2) k v es by (auto simp: f)
  then show ?case by simp
qed

lemma read_value_ser: "length (bser v) \<le> f \<Longrightarrow> read_value f (bser v @ rest) = Some (v, rest)"
proof (induction v arbitrary: f rest)
  case (BInt n)
  then obtain f' where "f = Suc f'" by (cases f) auto
  then show ?case by (simp add: read_uint_dec is_digit_def)
next
  case (BStr s)
  then obtain f' where f: "f = Suc f'" using bser_length [of "BStr s"] by (cases f) auto
  obtain d ds where d: "dec (length s) = d # ds" "d \<noteq> 0x65" "d \<noteq> 0x69" "d \<noteq> 0x6c" "d \<noteq> 0x64"
    by (rule dec_Cons)
  show ?case using read_str_dec [of s rest] d by (simp add: f)
next
  case (BList vs)
  then obtain f' where f: "f = Suc f'" by (cases f) auto
  with BList show ?case using read_items_ser [of vs f' rest] by simp
next
  case (BDict es)
  then obtain f' where f: "f = Suc f'" by (cases f) auto
  have "read_value g (bser (snd e) @ rest) = Some (snd e, rest)"
    if "e \<in> set es" "length (bser (snd e)) \<le> g" for e g rest
    using that by (intro BDict.IH [of e "snd e"]) (auto simp: snds.simps)
  with f BDict.prems show ?case using read_entries_ser [of es f' rest] by simp
qed

lemma read_body_ser: "read_body (bser v) = Some v"
  using read_value_ser [of v "Suc (length (bser v))" "[]"] by (simp add: read_body_def)

section \<open>The bodies as dictionaries\<close>

lemma str_bytes:
  "str ''i'' = [0x69]" "str ''e'' = [0x65]" "str '':'' = [0x3a]" "str ''d'' = [0x64]" "str ''l'' = [0x6c]"
  by (simp_all add: str_def)

lemma length_str [simp]: "length (str s) = length s"
  by (simp add: str_def)

lemma enc_int_eq: "itoa_decimal itoa \<Longrightarrow> enc_int itoa v out = out @ bser (BInt (unat v))"
  by (simp add: enc_int_def write_uint_def str_bytes itoa_decimal_def)

lemma enc_bytes_eq:
  "itoa_decimal itoa \<Longrightarrow> length b < 2 ^ 64 \<Longrightarrow> enc_bytes itoa b out = out @ bser (BStr b)"
  by (simp add: enc_bytes_def write_uint_def str_bytes itoa_decimal_def unat_of_nat)

lemmas enc_simps = enc_int_eq enc_bytes_eq enc_dict_def enc_list_def enc_end_def str_bytes

lemma unat_ucast_u32: "unat (ucast (w :: u32) :: u64) = unat w"
  using unat_bound [of w] by (simp add: unsigned_ucast_eq take_bit_eq_mod)

definition announce_dict :: "counts \<Rightarrow> u32 \<Rightarrow> bytes \<Rightarrow> bytes \<Rightarrow> (bytes \<times> bvalue) list" where
  "announce_dict c interval peers4 peers6 =
     [(str ''complete'', BInt (unat (complete c))),
      (str ''downloaded'', BInt (unat (c_downloaded c))),
      (str ''incomplete'', BInt (unat (incomplete c))),
      (str ''interval'', BInt (unat interval)),
      (str ''min interval'', BInt (unat interval div 2)),
      (str ''peers'', BStr peers4),
      (str ''peers6'', BStr peers6)]"

lemma announce_response_eq:
  assumes "itoa_decimal itoa" "length peers4 < 2 ^ 64" "length peers6 < 2 ^ 64"
  shows "announce_response itoa out c interval peers4 peers6 =
    out @ bser (BDict (announce_dict c interval peers4 peers6))"
  using assms
  by (simp add: announce_response_def announce_dict_def enc_simps Let_def unat_ucast_u32 unat_div_distrib)

lemma announce_body_dict:
  assumes "itoa_decimal itoa" "length peers4 < 2 ^ 64" "length peers6 < 2 ^ 64"
  shows "read_body (announce_response itoa [] c interval peers4 peers6) =
    Some (BDict (announce_dict c interval peers4 peers6))"
  by (simp only: announce_response_eq [OF assms] append_Nil read_body_ser)

definition file_dict :: "counts \<Rightarrow> (bytes \<times> bvalue) list" where
  "file_dict c =
     [(str ''complete'', BInt (unat (complete c))),
      (str ''downloaded'', BInt (unat (c_downloaded c))),
      (str ''incomplete'', BInt (unat (incomplete c)))]"

lemma scrape_file_eq:
  assumes "itoa_decimal itoa" "length (fst f) < 2 ^ 64"
  shows "scrape_file itoa out f =
    out @ dec (length (fst f)) @ 0x3a # fst f @ bser (BDict (file_dict (snd f)))"
  using assms
  by (simp add: scrape_file_def file_dict_def enc_simps Let_def unat_ucast_u32)

lemma scrape_response_eq:
  assumes "itoa_decimal itoa" "\<forall>f \<in> set files. length (fst f) < 2 ^ 64"
  shows "scrape_response itoa out files =
    out @ bser (BDict [(str ''files'', BDict (map (\<lambda>f. (fst f, BDict (file_dict (snd f)))) files))])"
proof -
  have "foldl (scrape_file itoa) out files = out @ concat (map (\<lambda>f. dec (length (fst f)) @ 0x3a #
      fst f @ bser (BDict (file_dict (snd f)))) files)" for out
    using assms(2)
    by (induction files arbitrary: out) (simp_all add: scrape_file_eq [OF assms(1)] del: bser.simps)
  with assms(1) show ?thesis
    by (simp add: scrape_response_def enc_simps comp_def)
qed

lemma failure_eq:
  assumes "itoa_decimal itoa" "length reason < 2 ^ 64"
  shows "failure itoa out reason = out @ bser (BDict [(str ''failure reason'', BStr reason)])"
  using assms by (simp add: failure_def enc_simps)

section \<open>Properties\<close>

text \<open>Byte strings in the order a bencode dictionary requires.\<close>

definition bytes_less :: "bytes \<Rightarrow> bytes \<Rightarrow> bool" where
  "bytes_less a b \<longleftrightarrow> (a, b) \<in> lexord {(x, y). x < y}"

lemma bytes_less_simps [simp]:
  "\<not> bytes_less a []" "bytes_less [] (y # b)"
  "bytes_less (x # a) (y # b) \<longleftrightarrow> x < y \<or> x = y \<and> bytes_less a b"
  by (auto simp: bytes_less_def)

text \<open>The announce body is one complete bencode dictionary: a bencode reader
  consumes it to the last byte and gets the swarm counts, the interval, half of it as the
  minimum interval and the two compact peer strings, under keys in strictly ascending order.\<close>

lemma announce_body_reads_back:
  assumes "itoa_decimal itoa" "length peers4 < 2 ^ 64" "length peers6 < 2 ^ 64"
  shows "read_body (announce_response itoa [] c interval peers4 peers6) =
      Some (BDict (announce_dict c interval peers4 peers6)) \<and>
    sorted_wrt bytes_less (map fst (announce_dict c interval peers4 peers6))"
proof
  show "read_body (announce_response itoa [] c interval peers4 peers6) =
      Some (BDict (announce_dict c interval peers4 peers6))"
    using assms by (rule announce_body_dict)
  show "sorted_wrt bytes_less (map fst (announce_dict c interval peers4 peers6))"
    by (simp add: announce_dict_def str_def)
qed

text \<open>The scrape body reads back as a dictionary \<open>files\<close> with one entry per
  listed hash, in the order listed and with its counts; the failure body reads back as its
  reason.\<close>

lemma scrape_body_reads_back:
  assumes "itoa_decimal itoa" "\<forall>f \<in> set files. length (fst f) = 20" "length reason < 2 ^ 64"
  shows "read_body (scrape_response itoa [] files) =
      Some (BDict [(str ''files'', BDict (map (\<lambda>(h, c). (h, BDict
        [(str ''complete'', BInt (unat (complete c))),
         (str ''downloaded'', BInt (unat (c_downloaded c))),
         (str ''incomplete'', BInt (unat (incomplete c)))])) files))]) \<and>
    read_body (failure itoa [] reason) = Some (BDict [(str ''failure reason'', BStr reason)])"
proof -
  have "\<forall>f \<in> set files. length (fst f) < 2 ^ 64" using assms(2) by simp
  note s = scrape_response_eq [OF assms(1) this, of "[]", unfolded append_Nil]
  note f = failure_eq [OF assms(1,3), of "[]", unfolded append_Nil]
  show ?thesis
    unfolding s f read_body_ser by (simp add: file_dict_def case_prod_beta)
qed

end
