(* ===== verification/Udp_Handler.thy ===== *)
theory Udp_Handler
  imports Connid Store_Claims Proto_Udp_Spec
begin

text \<open>
  crates/bf-udp/src/lib.rs: the handler that turns a datagram into a response by driving the
  connection ids, the codec and the store. The store is shared state and is passed explicitly;
  the output vector is an argument and a result, so that what a call leaves in it is visible.
\<close>

definition NUMWANT_MAX_V4 :: nat where "NUMWANT_MAX_V4 = 200"
definition NUMWANT_MAX_V6 :: nat where "NUMWANT_MAX_V6 = 66"

lemmas numwant_defs = NUMWANT_MAX_V4_def NUMWANT_MAX_V6_def

datatype action = Reply nat | Drop | ConnidMismatch

definition numwant :: "i32 \<Rightarrow> bool \<Rightarrow> nat" where
  "numwant requested is_v4 =
     (let mx = (if is_v4 then NUMWANT_MAX_V4 else NUMWANT_MAX_V6)
      in if requested <s 0 then mx else min (unat requested) mx)"

definition v4_key :: "bytes \<Rightarrow> u16 \<Rightarrow> bytes option" where
  "v4_key src_ip port =
     do {
       let k = replicate 6 0;
       s \<leftarrow> slice src_ip 12 16;
       k \<leftarrow> copy_into k 0 4 s;
       copy_into k 4 6 (u16_be port)
     }"

definition v6_key :: "bytes \<Rightarrow> u16 \<Rightarrow> bytes option" where
  "v6_key src_ip port =
     do {
       let k = replicate 18 0;
       k \<leftarrow> copy_into k 0 16 src_ip;
       copy_into k 16 18 (u16_be port)
     }"

definition udp_flags :: "announce \<Rightarrow> u8" where
  "udp_flags a =
     (let f = 0;
          f = (if an_left a = 0 then f OR SEEDING else f);
          f = (if an_event a = EvCompleted then f OR COMPLETED else f)
      in f)"

definition udp_apply_announce ::
  "peer_order \<Rightarrow> store \<Rightarrow> announce \<Rightarrow> bytes \<Rightarrow> bool \<Rightarrow> u64 \<Rightarrow> bytes \<Rightarrow> (store \<times> counts \<times> bytes) option" where
  "udp_apply_announce ord s a src_ip is_v4 now_secs out =
     (let now_min = (ucast (now_secs div 60) :: u32);
          hash = an_info_hash a;
          f = udp_flags a;
          stopped = (an_event a = EvStopped)
      in if is_v4 then do {
           key \<leftarrow> v4_key src_ip (an_port a);
           if stopped then do {
             (s, c) \<leftarrow> remove_v4 s hash key now_min;
             Some (s, c, out)
           } else announce_v4 ord s hash key f (numwant (an_num_want a) True) now_min out
         } else do {
           key \<leftarrow> v6_key src_ip (an_port a);
           if stopped then do {
             (s, c) \<leftarrow> remove_v6 s hash key now_min;
             Some (s, c, out)
           } else announce_v6 ord s hash key f (numwant (an_num_want a) False) now_min out
         })"

text \<open>The triple that a scrape reports for a hash.\<close>

definition scrape_entry :: "store \<Rightarrow> info_hash \<Rightarrow> (u32 \<times> u32 \<times> u32) option" where
  "scrape_entry s h = map_option (\<lambda>c. (complete c, c_downloaded c, incomplete c)) (scrape s h)"

definition udp_handle ::
  "mac \<Rightarrow> connid \<Rightarrow> peer_order \<Rightarrow> store \<Rightarrow> bytes \<Rightarrow> bytes \<Rightarrow> bool \<Rightarrow> u64 \<Rightarrow> u32 \<Rightarrow> bytes \<Rightarrow>
    (store \<times> bytes \<times> action) option" where
  "udp_handle mac ci ord s buf src_ip is_v4 now_secs interval out =
     do {
       r \<leftarrow> parse buf;
       case r of
         Inl e \<Rightarrow> Some (s, out, Drop)
       | Inr (Connect transaction_id) \<Rightarrow>
           do {
             let cid = generate mac ci src_ip now_secs;
             let out = replicate 16 0;
             out \<leftarrow> write_connect out transaction_id cid;
             Some (s, out, Reply 16)
           }
       | Inr (Announce a) \<Rightarrow>
           if \<not> validate mac ci (an_connection_id a) src_ip now_secs then Some (s, out, ConnidMismatch)
           else do {
             let out = replicate 20 0;
             (s, c, out) \<leftarrow> udp_apply_announce ord s a src_ip is_v4 now_secs out;
             (out, _) \<leftarrow> write_announce out (an_transaction_id a) interval (incomplete c) (complete c) [];
             Some (s, out, Reply (length out))
           }
       | Inr (Scrape q) \<Rightarrow>
           if \<not> validate mac ci (sc_connection_id q) src_ip now_secs then Some (s, out, ConnidMismatch)
           else do {
             hashes \<leftarrow> iter_hashes q;
             entries \<leftarrow> those (map (scrape_entry s) hashes);
             let out = replicate (8 + length entries * 12) 0;
             (out, n) \<leftarrow> write_scrape out (sc_transaction_id q) entries;
             Some (s, out, Reply n)
           }
     }"

section \<open>Peer keys\<close>

lemma v4_key_eq: "length ip = 16 \<Longrightarrow> v4_key ip port = Some (drop 12 ip @ u16_be port)"
  by (simp add: v4_key_def slice_def copy_into_def)

lemma v6_key_eq: "length ip = 16 \<Longrightarrow> v6_key ip port = Some (ip @ u16_be port)"
  by (simp add: v6_key_def copy_into_def)

definition peer_key :: "bool \<Rightarrow> bytes \<Rightarrow> u16 \<Rightarrow> bytes" where
  "peer_key is_v4 ip port = (if is_v4 then drop 12 ip else ip) @ u16_be port"

lemma length_peer_key: "length ip = 16 \<Longrightarrow> length (peer_key is_v4 ip port) = (if is_v4 then 6 else 18)"
  by (simp add: peer_key_def)

lemma key_eq:
  "length ip = 16 \<Longrightarrow> v4_key ip port = Some (peer_key True ip port)"
  "length ip = 16 \<Longrightarrow> v6_key ip port = Some (peer_key False ip port)"
  by (simp_all add: v4_key_eq v6_key_eq peer_key_def)

lemma numwant_cap: "numwant q v \<le> (if v then 200 else 66)"
  by (simp add: numwant_def Let_def numwant_defs)

lemma flags_bits [simp]: "seeding (udp_flags a) \<longleftrightarrow> an_left a = 0" "completed (udp_flags a) \<longleftrightarrow> an_event a = EvCompleted"
  by (simp_all add: udp_flags_def seeding_def completed_def flag_defs Let_def)

section \<open>Announces\<close>

text \<open>The store event that an announce request stands for.\<close>

definition udp_event :: "announce \<Rightarrow> bytes \<Rightarrow> bool \<Rightarrow> u64 \<Rightarrow> store_event" where
  "udp_event a ip is_v4 now_secs =
     (let key = peer_key is_v4 ip (an_port a); m = ucast (now_secs div 60); h = an_info_hash a
      in if an_event a = EvStopped then (if is_v4 then Remove4 h key m else Remove6 h key m)
         else if is_v4 then Announce4 h key (udp_flags a) m else Announce6 h key (udp_flags a) m)"

lemma apply_announce_refines:
  assumes "store_ok s" "length ip = 16" "iteration_order ord"
  obtains s' ps where
    "udp_apply_announce ord s a ip is_v4 now out = Some (s', spec_counts (view s') (an_info_hash a), out @ ps)"
    "store_ok s'" "view s' = spec_step (udp_event a ip is_v4 now) (view s)"
    "length ps \<le> 1200" "an_event a = EvStopped \<Longrightarrow> ps = []"
    "an_event a \<noteq> EvStopped \<Longrightarrow> \<exists>t. torrent_at s' (an_info_hash a) = Some t \<and>
      ps = write_compact ord (if is_v4 then v4 t else v6 t) (numwant (an_num_want a) is_v4) [] \<and>
      torrent_ok t"
proof -
  let ?h = "an_info_hash a" and ?m = "ucast (now div 60) :: u32"
  have l: "length (peer_key True ip (an_port a)) = 6" "length (peer_key False ip (an_port a)) = 18"
    using length_peer_key [OF assms(2)] by simp_all
  have len: "length (write_compact ord pl nw []) \<le> 1200"
    if "pl_ok n pl" "n * nw \<le> 1200" for n pl nw
  proof -
    have "n * min nw (length (peers pl)) \<le> n * nw" by (intro mult_le_mono2) simp
    also note that(2)
    finally show ?thesis by (simp add: length_write_compact [OF that(1) assms(3)])
  qed
  show thesis
  proof (cases "an_event a = EvStopped")
    case True
    show thesis
    proof (cases is_v4)
      case v: True
      show thesis
        by (rule remove4_refines [OF assms(1), of ?h "peer_key True ip (an_port a)" ?m], rule that)
          (use True v assms(2) in \<open>auto simp: udp_apply_announce_def Let_def key_eq udp_event_def
            simp del: spec_step.simps\<close>)
    next
      case v: False
      show thesis
        by (rule remove6_refines [OF assms(1), of ?h "peer_key False ip (an_port a)" ?m], rule that)
          (use True v assms(2) in \<open>auto simp: udp_apply_announce_def Let_def key_eq udp_event_def
            simp del: spec_step.simps\<close>)
    qed
  next
    case False
    show thesis
    proof (cases is_v4)
      case v: True
      obtain s' t where t: "announce_v4 ord s ?h (peer_key True ip (an_port a)) (udp_flags a)
            (numwant (an_num_want a) True) ?m out =
          Some (s', spec_counts (view s') ?h, write_compact ord (v4 t) (numwant (an_num_want a) True) out)"
        "store_ok s'" "view s' = spec_step (Announce4 ?h (peer_key True ip (an_port a)) (udp_flags a) ?m) (view s)"
        "torrent_at s' ?h = Some t" "torrent_ok t"
        by (rule announce4_refines [OF assms(1) l(1)])
      show thesis
        by (rule that [of s' "write_compact ord (v4 t) (numwant (an_num_want a) True) []"])
          (use t False v assms(2) len [of 6 "v4 t"] numwant_cap [of "an_num_want a" True] in
            \<open>auto simp: udp_apply_announce_def Let_def key_eq udp_event_def write_compact_eq torrent_ok_def
              simp del: spec_step.simps\<close>)
    next
      case v: False
      obtain s' t where t: "announce_v6 ord s ?h (peer_key False ip (an_port a)) (udp_flags a)
            (numwant (an_num_want a) False) ?m out =
          Some (s', spec_counts (view s') ?h, write_compact ord (v6 t) (numwant (an_num_want a) False) out)"
        "store_ok s'" "view s' = spec_step (Announce6 ?h (peer_key False ip (an_port a)) (udp_flags a) ?m) (view s)"
        "torrent_at s' ?h = Some t" "torrent_ok t"
        by (rule announce6_refines [OF assms(1) l(2)])
      show thesis
        by (rule that [of s' "write_compact ord (v6 t) (numwant (an_num_want a) False) []"])
          (use t False v assms(2) len [of 18 "v6 t"] numwant_cap [of "an_num_want a" False] in
            \<open>auto simp: udp_apply_announce_def Let_def key_eq udp_event_def write_compact_eq torrent_ok_def
              simp del: spec_step.simps\<close>)
    qed
  qed
qed

section \<open>Datagrams\<close>

lemma handle_connect:
  assumes "parse buf = Some (Inr (Connect tx))"
  shows "udp_handle mac ci ord s buf ip is_v4 now interval out =
    Some (s, u32_be 0 @ u32_be tx @ u64_be (generate mac ci ip now), Reply 16)"
  using assms by (simp add: udp_handle_def write_connect_eq)

lemma handle_mismatch:
  assumes "parse buf = Some (Inr (Announce a)) \<and> \<not> validate mac ci (an_connection_id a) ip now \<or>
    parse buf = Some (Inr (Scrape q)) \<and> \<not> validate mac ci (sc_connection_id q) ip now"
  shows "udp_handle mac ci ord s buf ip is_v4 now interval out = Some (s, out, ConnidMismatch)"
  using assms by (auto simp: udp_handle_def)

lemma handle_announce:
  assumes "store_ok s" "length ip = 16" "iteration_order ord" "parse buf = Some (Inr (Announce a))"
    and "validate mac ci (an_connection_id a) ip now"
  obtains s' ps where
    "udp_handle mac ci ord s buf ip is_v4 now interval out = Some (s',
      u32_be 1 @ u32_be (an_transaction_id a) @ u32_be interval @
        u32_be (incomplete (spec_counts (view s') (an_info_hash a))) @
        u32_be (complete (spec_counts (view s') (an_info_hash a))) @ ps,
      Reply (20 + length ps))"
    "store_ok s'" "view s' = spec_step (udp_event a ip is_v4 now) (view s)"
    "length ps \<le> 1200" "an_event a = EvStopped \<Longrightarrow> ps = []"
    "an_event a \<noteq> EvStopped \<Longrightarrow> \<exists>t. torrent_at s' (an_info_hash a) = Some t \<and>
      ps = write_compact ord (if is_v4 then v4 t else v6 t) (numwant (an_num_want a) is_v4) [] \<and>
      torrent_ok t"
proof (rule apply_announce_refines [OF assms(1-3), of a is_v4 now "replicate 20 0"])
  fix s' ps
  assume r: "udp_apply_announce ord s a ip is_v4 now (replicate 20 0) =
      Some (s', spec_counts (view s') (an_info_hash a), replicate 20 0 @ ps)"
    "store_ok s'" "view s' = spec_step (udp_event a ip is_v4 now) (view s)"
    "length ps \<le> 1200" "an_event a = EvStopped \<Longrightarrow> ps = []"
    "an_event a \<noteq> EvStopped \<Longrightarrow> \<exists>t. torrent_at s' (an_info_hash a) = Some t \<and>
      ps = write_compact ord (if is_v4 then v4 t else v6 t) (numwant (an_num_want a) is_v4) [] \<and>
      torrent_ok t"
  have "udp_handle mac ci ord s buf ip is_v4 now interval out = Some (s',
      u32_be 1 @ u32_be (an_transaction_id a) @ u32_be interval @
        u32_be (incomplete (spec_counts (view s') (an_info_hash a))) @
        u32_be (complete (spec_counts (view s') (an_info_hash a))) @ ps,
      Reply (20 + length ps))"
    using assms(4,5) r(1) by (simp add: udp_handle_def write_announce_eq)
  with r(2-6) show thesis by (rule that [rotated])
qed

lemma scrape_entries_total:
  assumes "store_ok s"
  shows "those (map (scrape_entry s) hs) = Some (map (\<lambda>h. let c = spec_counts (view s) h
    in (complete c, c_downloaded c, incomplete c)) hs)"
  by (induction hs) (simp_all add: scrape_entry_def scrape_refines [OF assms] Let_def)

lemma handle_scrape:
  assumes "store_ok s" "parse buf = Some (Inr (Scrape q))"
    and "validate mac ci (sc_connection_id q) ip now"
  shows "udp_handle mac ci ord s buf ip is_v4 now interval out =
    (let hs = chunks_exact 20 (sc_hashes q);
         es = map (\<lambda>h. let c = spec_counts (view s) h in (complete c, c_downloaded c, incomplete c)) hs
     in Some (s, u32_be 2 @ u32_be (sc_transaction_id q) @ scrape_body es, Reply (8 + 12 * length hs)))"
  using assms
  by (simp add: udp_handle_def iter_hashes_eq scrape_entries_total write_scrape_eq Let_def mult.commute)

lemma handle_cases:
  assumes "store_ok s" "length ip = 16" "iteration_order ord"
    and "udp_handle mac ci ord s buf ip is_v4 now interval out = Some (s', out', act)"
  shows "store_ok s' \<and> (\<forall>n. act = Reply n \<longrightarrow> n = length out' \<and> n \<le> 1220) \<and>
    ((\<forall>n. act \<noteq> Reply n) \<longrightarrow> s' = s \<and> out' = out) \<and>
    (s' = s \<or> (\<exists>a. parse buf = Some (Inr (Announce a)) \<and> validate mac ci (an_connection_id a) ip now \<and>
      view s' = spec_step (udp_event a ip is_v4 now) (view s)))"
proof (cases rule: parse_cases [of buf])
  case (1 e)
  with assms show ?thesis by (simp add: udp_handle_def)
next
  case (2 r)
  show ?thesis
  proof (cases r)
    case (Connect tx)
    with 2 handle_connect [of buf tx] assms show ?thesis by auto
  next
    case (Announce a)
    with 2 have p: "parse buf = Some (Inr (Announce a))" by simp
    show ?thesis
    proof (cases "validate mac ci (an_connection_id a) ip now")
      case True
      show ?thesis
        by (rule handle_announce [OF assms(1-3) p True, of is_v4 interval out])
          (use assms(4) p True in auto)
    next
      case False
      with p handle_mismatch [of buf a mac ci ip now] assms(1,4) show ?thesis by auto
    qed
  next
    case (Scrape q)
    with 2 have p: "parse buf = Some (Inr (Scrape q))" by simp
    then have n: "length (chunks_exact 20 (sc_hashes q)) \<le> 75"
      using scrape_hash_count [of buf] by (auto simp: parse_Scrape_iff)
    show ?thesis
    proof (cases "validate mac ci (sc_connection_id q) ip now")
      case True
      with handle_scrape [OF assms(1) p True] n assms(1,4) show ?thesis by (auto simp: Let_def)
    next
      case False
      with p handle_mismatch [of buf undefined mac ci ip now q] assms(1,4) show ?thesis by auto
    qed
  qed
qed

lemma handle_total:
  assumes "store_ok s" "length ip = 16" "iteration_order ord"
  shows "udp_handle mac ci ord s buf ip is_v4 now interval out \<noteq> None"
proof (cases rule: parse_cases [of buf])
  case (1 e)
  then show ?thesis by (simp add: udp_handle_def)
next
  case (2 r)
  show ?thesis
  proof (cases r)
    case (Connect tx)
    with 2 show ?thesis by (simp add: handle_connect)
  next
    case (Announce a)
    with 2 have p: "parse buf = Some (Inr (Announce a))" by simp
    show ?thesis
    proof (cases "validate mac ci (an_connection_id a) ip now")
      case True
      show ?thesis
        by (rule handle_announce [OF assms p True, of is_v4 interval out]) simp
    qed (use p handle_mismatch [of buf a mac ci ip now] in auto)
  next
    case (Scrape q)
    with 2 have p: "parse buf = Some (Inr (Scrape q))" by simp
    show ?thesis
      using handle_scrape [OF assms(1) p] p handle_mismatch [of buf undefined mac ci ip now q]
      by (cases "validate mac ci (sc_connection_id q) ip now") (simp_all add: Let_def)
  qed
qed

section \<open>Properties\<close>

text \<open>Whatever the datagram, the handler returns without a panic, keeps the store
  well-formed, and announces a reply of exactly the bytes it wrote, at most 1220, which fits an
  unfragmented packet; a dropped datagram leaves the store and the output as they were.\<close>

lemma udp_handle_total:
  assumes "store_ok s" "length ip = 16" "iteration_order ord"
  shows "\<exists>s' out' act. udp_handle mac ci ord s buf ip is_v4 now interval out = Some (s', out', act) \<and>
    store_ok s' \<and> (\<forall>n. act = Reply n \<longrightarrow> n = length out' \<and> n \<le> 1220) \<and>
    (act = Drop \<or> act = ConnidMismatch \<longrightarrow> s' = s \<and> out' = out)"
proof -
  obtain s' out' act where r: "udp_handle mac ci ord s buf ip is_v4 now interval out = Some (s', out', act)"
    using handle_total [OF assms] by (metis not_None_eq prod_cases3)
  from handle_cases [OF assms r] r show ?thesis by auto
qed

text \<open>C9. A source that has not been handed a connection id cannot change the store of the tracker
  or use it as an amplifier: when the first eight bytes of a datagram do not validate for its
  address, the handler leaves the store as it is and a reply, if any, is not longer than the
  datagram. What the worker does with the outcome afterwards, counting it and scoring the source,
  is not part of this.\<close>

theorem unproven_source_harmless:
  assumes "store_ok s" "length ip = 16" "iteration_order ord"
    and "udp_handle mac ci ord s buf ip is_v4 now interval out = Some (s', out', act)"
    and "\<not> validate mac ci (from_be (take 8 buf)) ip now"
  shows "s' = s \<and> (\<forall>n. act = Reply n \<longrightarrow> n \<le> length buf)"
proof (cases rule: parse_cases [of buf])
  case (1 e)
  with assms(4) show ?thesis by (simp add: udp_handle_def)
next
  case (2 r)
  show ?thesis
  proof (cases r)
    case (Connect tx)
    moreover from 2 this have "16 \<le> length buf" by (simp add: parse_eq Let_def split: if_splits)
    ultimately show ?thesis using 2 assms(4) by (auto simp: handle_connect)
  next
    case (Announce a)
    with 2 have p: "parse buf = Some (Inr (Announce a))" by simp
    then have "an_connection_id a = from_be (take 8 buf)"
      by (simp add: parse_Announce_iff announce_fields_def)
    with p assms(4,5) handle_mismatch [of buf a mac ci ip now] show ?thesis by simp
  next
    case (Scrape q)
    with 2 have p: "parse buf = Some (Inr (Scrape q))" by simp
    then have "sc_connection_id q = from_be (take 8 buf)"
      by (simp add: parse_Scrape_iff scrape_fields_def)
    with p assms(4,5) handle_mismatch [of buf undefined mac ci ip now q] show ?thesis by simp
  qed
qed

lemma be_val_zeros: "be_val (replicate n 0) = 0"
proof (induction n)
  case (Suc n)
  have "replicate (Suc n) (0 :: u8) = replicate n 0 @ [0]" by (simp add: replicate_append_same)
  with Suc show ?case by (simp only: be_val_snoc) simp
qed simp

theorem unproven_source_harmless_witness:
  "\<exists>s' out' act. udp_handle (\<lambda>k m. replicate 32 0) (connid_new [] 60) rev store_new
      (encode_request (Connect 5)) (replicate 16 0) True 0 1800 [] = Some (s', out', act) \<and>
    s' = store_new \<and> (\<forall>n. act = Reply n \<longrightarrow> n \<le> 16)"
proof -
  obtain s' out' act where r: "udp_handle (\<lambda>k m. replicate 32 0) (connid_new [] 60) rev store_new
      (encode_request (Connect 5)) (replicate 16 0) True 0 1800 [] = Some (s', out', act)"
    using handle_total [OF store_ok_new, of "replicate 16 0" rev] by fastforce
  have "\<not> validate (\<lambda>k m. replicate 32 0) (connid_new [] 60)
      (from_be (take 8 (encode_request (Connect 5)))) (replicate 16 0) 0"
    by (simp add: validate_iff for_window_def from_le_def be_val_zeros PROTOCOL_ID_def)
  from unproven_source_harmless [OF store_ok_new _ _ r this] r show ?thesis by simp
qed

text \<open>C10. The BEP-15 handshake works: the reply to a connect carries, to a client that
  decodes it, its transaction id and a connection id with which an announce from the same
  address, sent within the id's window, is answered.\<close>

theorem handshake_accepted:
  assumes "store_ok s" "length ip = 16" "iteration_order ord" "length h = 20" "length pid = 20"
    and "unat t \<le> unat t'" "unat t' \<le> unat t + unat (max w 1)"
  shows "\<exists>out1 cid. udp_handle mac (connid_new key w) ord s (encode_request (Connect tx)) ip is_v4 t iv out =
      Some (s, out1, Reply (length out1)) \<and>
    decode_response out1 = Some (RConnect tx cid) \<and>
    (\<forall>a. an_connection_id a = cid \<and> an_info_hash a = h \<and> an_peer_id a = pid \<longrightarrow>
      (\<exists>s' out2 n. udp_handle mac (connid_new key w) ord s (encode_request (Announce a)) ip is_v4 t' iv out1 =
        Some (s', out2, Reply n)))"
proof -
  let ?ci = "connid_new key w"
  let ?out1 = "u32_be 0 @ u32_be tx @ u64_be (generate mac ?ci ip t)"
  have p: "parse (encode_request r) = Some (Inr r)" if "sendable r" "padding_ok r []" for r
    using encode_parse [OF that] by simp
  have "udp_handle mac ?ci ord s (encode_request (Connect tx)) ip is_v4 t iv out = Some (s, ?out1, Reply (length ?out1))"
    by (subst handle_connect [OF p]) simp_all
  moreover have "decode_response ?out1 = Some (RConnect tx (generate mac ?ci ip t))"
    by (simp add: decode_response_def Let_def)
  moreover have "\<exists>s' out2 n. udp_handle mac ?ci ord s (encode_request (Announce a)) ip is_v4 t' iv ?out1 =
      Some (s', out2, Reply n)"
    if a: "an_connection_id a = generate mac ?ci ip t" "an_info_hash a = h" "an_peer_id a = pid" for a
  proof -
    have "parse (encode_request (Announce a)) = Some (Inr (Announce a))"
      using a assms(4,5) by (intro p) simp_all
    moreover have "validate mac ?ci (an_connection_id a) ip t'"
      unfolding a(1) using assms(6,7) by (rule cid.live)
    ultimately show ?thesis
      by (rule handle_announce [OF assms(1-3), of _ a mac ?ci t' is_v4 iv ?out1]) blast
  qed
  ultimately show ?thesis by blast
qed

theorem handshake_accepted_witness:
  "\<exists>out1 cid. udp_handle (\<lambda>k m. m) (connid_new [] 60) rev store_new (encode_request (Connect 5))
      (replicate 16 3) True 119 1800 [] = Some (store_new, out1, Reply (length out1)) \<and>
    decode_response out1 = Some (RConnect 5 cid)"
  using handshake_accepted [OF store_ok_new, of "replicate 16 3" rev "replicate 20 1" "replicate 20 2"
      119 179 60 "\<lambda>k m. m" "[]" 5 True 1800 "[]"]
  by (auto simp: max_def word_le_nat_alt)

definition sample_announce :: announce where
  "sample_announce =
     \<lparr>an_connection_id = 0, an_transaction_id = 9, an_info_hash = replicate 20 1,
      an_peer_id = replicate 20 2, an_downloaded = 0, an_left = 100, an_uploaded = 0,
      an_event = EvNone, an_declared_ip = 0, an_key = 7, an_num_want = - 1, an_port = 6881\<rparr>"

lemma announce_reply:
  assumes "store_ok s" "length ip = 16" "iteration_order ord" "parse buf = Some (Inr (Announce a))"
    and "validate mac ci (an_connection_id a) ip now"
  obtains s' out' ks where
    "udp_handle mac ci ord s buf ip is_v4 now interval out = Some (s', out', Reply (length out'))"
    "store_ok s'" "view s' = spec_step (udp_event a ip is_v4 now) (view s)"
    "decode_response out' = Some (RAnnounce (an_transaction_id a) interval
      (incomplete (spec_counts (view s') (an_info_hash a)))
      (complete (spec_counts (view s') (an_info_hash a))) (concat ks))"
    "if an_event a = EvStopped then ks = []
     else answers is_v4 (numwant (an_num_want a) is_v4) (view s' (an_info_hash a)) ks"
proof (rule handle_announce [OF assms, of is_v4 interval out])
  fix s' ps
  let ?h = "an_info_hash a" and ?nw = "numwant (an_num_want a) is_v4"
  let ?out = "u32_be 1 @ u32_be (an_transaction_id a) @ u32_be interval @
    u32_be (incomplete (spec_counts (view s') (an_info_hash a))) @
    u32_be (complete (spec_counts (view s') (an_info_hash a))) @ ps"
  assume h: "udp_handle mac ci ord s buf ip is_v4 now interval out =
      Some (s', ?out, Reply (20 + length ps))"
    and s': "store_ok s'" "view s' = spec_step (udp_event a ip is_v4 now) (view s)"
    and stop: "an_event a = EvStopped \<Longrightarrow> ps = []"
    and go: "an_event a \<noteq> EvStopped \<Longrightarrow> \<exists>t. torrent_at s' ?h = Some t \<and>
      ps = write_compact ord (if is_v4 then v4 t else v6 t) ?nw [] \<and> torrent_ok t"
  have "\<exists>ks. ps = concat ks \<and> (if an_event a = EvStopped then ks = [] else answers is_v4 ?nw (view s' ?h) ks)"
  proof (cases "an_event a = EvStopped")
    case True
    with stop show ?thesis by (intro exI [of _ "[]"]) simp
  next
    case False
    from go [OF this] obtain t where t: "torrent_at s' ?h = Some t" "torrent_ok t"
      "ps = write_compact ord (if is_v4 then v4 t else v6 t) ?nw []" by blast
    show ?thesis
      by (rule compact_answers [OF t(1,2) assms(3), of is_v4 ?nw "[]"]) (use t(3) False in auto)
  qed
  moreover have "decode_response ?out = Some (RAnnounce (an_transaction_id a) interval
      (incomplete (spec_counts (view s') ?h)) (complete (spec_counts (view s') ?h)) ps)"
    by (simp add: decode_response_def Let_def)
  ultimately show thesis using that [of s' ?out] h s' by auto
qed

text \<open>C8. A valid announce performs the store operation it stands for and nothing
  else, and a client that decodes the reply reads its own transaction id, the interval, the
  exact leecher and seeder counts of the swarm after the announce, and a list of distinct peers
  of that swarm in its own address family: empty when it stopped, else as many as it wanted or
  as there are, and never more than 200 (v4) or 66 (v6).\<close>

theorem udp_announce_reply:
  assumes "store_ok s" "length ip = 16" "iteration_order ord" "parse buf = Some (Inr (Announce a))"
    and "validate mac ci (an_connection_id a) ip now"
  shows "\<exists>s' out' ks. udp_handle mac ci ord s buf ip is_v4 now interval out = Some (s', out', Reply (length out')) \<and>
    view s' = spec_step (udp_event a ip is_v4 now) (view s) \<and>
    decode_response out' = Some (RAnnounce (an_transaction_id a) interval
      (incomplete (spec_counts (view s') (an_info_hash a)))
      (complete (spec_counts (view s') (an_info_hash a))) (concat ks)) \<and>
    (if an_event a = EvStopped then ks = []
     else answers is_v4 (numwant (an_num_want a) is_v4) (view s' (an_info_hash a)) ks) \<and>
    length ks \<le> (if is_v4 then 200 else 66)"
proof (rule announce_reply [OF assms, of is_v4 interval out])
  fix s' out' ks
  assume r: "if an_event a = EvStopped then ks = []
     else answers is_v4 (numwant (an_num_want a) is_v4) (view s' (an_info_hash a)) ks"
  then have "length ks \<le> (if is_v4 then 200 else 66)"
    using numwant_cap [of "an_num_want a" is_v4] by (auto dest!: answers_length split: if_splits)
  moreover assume "udp_handle mac ci ord s buf ip is_v4 now interval out = Some (s', out', Reply (length out'))"
    "view s' = spec_step (udp_event a ip is_v4 now) (view s)"
    "decode_response out' = Some (RAnnounce (an_transaction_id a) interval
      (incomplete (spec_counts (view s') (an_info_hash a)))
      (complete (spec_counts (view s') (an_info_hash a))) (concat ks))"
  ultimately show ?thesis using r by blast
qed

theorem udp_announce_reply_witness:
  "\<exists>s' out'. udp_handle (\<lambda>k m. replicate 32 0) (connid_new [] 60) rev store_new
      (encode_request (Announce sample_announce)) (replicate 16 3) True 60 1800 [] =
      Some (s', out', Reply (length out')) \<and>
    view s' = spec_step (udp_event sample_announce (replicate 16 3) True 60) (view store_new)"
proof -
  have "parse (encode_request (Announce sample_announce)) = Some (Inr (Announce sample_announce))"
    using encode_parse [of "Announce sample_announce" "[]"] by (simp add: sample_announce_def)
  moreover have "validate (\<lambda>k m. replicate 32 0) (connid_new [] 60)
      (an_connection_id sample_announce) (replicate 16 3) 60"
    by (simp add: sample_announce_def validate_iff for_window_def from_le_def be_val_zeros)
  ultimately obtain s' out' where "udp_handle (\<lambda>k m. replicate 32 0) (connid_new [] 60) rev store_new
      (encode_request (Announce sample_announce)) (replicate 16 3) True 60 1800 [] =
      Some (s', out', Reply (length out'))"
    "view s' = spec_step (udp_event sample_announce (replicate 16 3) True 60) (view store_new)"
    using udp_announce_reply [OF store_ok_new _ iteration_order_rev, of "replicate 16 3"
      "encode_request (Announce sample_announce)" sample_announce "\<lambda>k m. replicate 32 0"
      "connid_new [] 60" 60 True 1800 "[]"]
    by (metis length_replicate)
  then show ?thesis by blast
qed

text \<open>C23. A valid scrape changes nothing, and a client that decodes the reply reads one
  triple per hash it asked for, in its order (at most the first 75): the exact numbers of
  seeders, of completions and of leechers the tracker knows, zeros for an unknown torrent.\<close>

theorem udp_scrape_reply:
  assumes "store_ok s" "validate mac ci (sc_connection_id q) ip now" "sendable (Scrape q)"
  shows "\<exists>out'. udp_handle mac ci ord s (encode_request (Scrape q)) ip is_v4 now interval out =
      Some (s, out', Reply (length out')) \<and>
    decode_response out' = Some (RScrape (sc_transaction_id q)
      (map (\<lambda>h. (complete (spec_counts (view s) h), c_downloaded (spec_counts (view s) h),
                incomplete (spec_counts (view s) h))) (chunks_exact 20 (sc_hashes q))))"
proof -
  have "parse (encode_request (Scrape q)) = Some (Inr (Scrape q))"
    using encode_parse [OF assms(3), of "[]"] by simp
  from handle_scrape [OF assms(1) this assms(2)] show ?thesis
    by (simp add: Let_def decode_response_def chunks_scrape_body)
qed

theorem udp_scrape_reply_witness:
  "\<exists>out'. udp_handle (\<lambda>k m. replicate 32 0) (connid_new [] 60) rev store_new
      (encode_request (Scrape \<lparr>sc_connection_id = 0, sc_transaction_id = 9, sc_hashes = replicate 40 1\<rparr>))
      (replicate 16 3) True 60 1800 [] = Some (store_new, out', Reply (length out'))"
  using udp_scrape_reply [OF store_ok_new, of "\<lambda>k m. replicate 32 0" "connid_new [] 60"
      "\<lparr>sc_connection_id = 0, sc_transaction_id = 9, sc_hashes = replicate 40 1\<rparr>"
      "replicate 16 3" 60 rev True 1800 "[]"]
  by (auto simp: validate_iff for_window_def from_le_def be_val_zeros)

end
