(* ===== verification/Tracker_Claims.thy ===== *)
theory Tracker_Claims
  imports Udp_Handler
begin

text \<open>
  What the UDP handler and the store together promise to the users of the tracker: peers of a
  torrent find each other.
\<close>

section \<open>Reading the peers of a reply\<close>

definition stride :: "bool \<Rightarrow> nat" where
  "stride is_v4 = (if is_v4 then 6 else 18)"

lemma chunks_exact_concat:
  assumes "0 < n" "\<forall>k \<in> set ks. length k = n"
  shows "chunks_exact n (concat ks) = ks"
  using assms(2)
proof (induction ks)
  case Nil
  show ?case using assms(1) by (subst chunks_exact.simps) simp
qed (use assms(1) in \<open>simp add: chunks_exact_append\<close>)

lemma swarm_key_length:
  assumes "store_ok s" "view s h = Some w" "k \<in> dom (family_peers is_v4 w)"
  shows "length k = stride is_v4"
proof -
  obtain t where t: "torrent_at s h = Some t" "w = torrent_view t"
    using assms(2) by (auto simp: view_def)
  then have "torrent_ok t" using torrent_at_ok [OF assms(1)] by blast
  with assms(3) t(2) show ?thesis
    by (auto simp: dom_peers_view stride_def torrent_ok_def split: if_splits dest: pl_okD(2))
qed

lemma answers_keys:
  assumes "store_ok s" "answers is_v4 want (view s h) ks"
  shows "chunks_exact (stride is_v4) (concat ks) = ks"
proof (rule chunks_exact_concat)
  show "\<forall>k \<in> set ks. length k = stride is_v4"
    using assms swarm_key_length [OF assms(1)] unfolding answers_def by blast
qed (simp add: stride_def)

lemma announce_held:
  assumes "view s1 = spec_step (udp_event a ip is_v4 now) tr" "an_event a \<noteq> EvStopped"
  shows "held is_v4 (view s1) (an_info_hash a) (peer_key is_v4 ip (an_port a)) False (ucast (now div 60))"
  using assms(2) announced_held [of "an_info_hash a" "peer_key is_v4 ip (an_port a)" "udp_flags a"
      "ucast (now div 60)" tr]
  by (cases is_v4) (simp_all add: assms(1) udp_event_def Let_def del: spec_step.simps)

section \<open>Peers find each other\<close>

text \<open>C6. Two clients that announce the same torrent in the same address family find each
  other: once the first one's announce was answered, and whatever the tracker does for others
  in between, every later announce of the torrent is answered with the first client among the
  peers, provided that neither announce is a stop, that the first client has neither
  stopped in between nor announced under an earlier clock, that no sweep came 45 minutes or more
  after its announce, and that the second client is
  given room for as many peers as the swarm of its family has (its wish, capped by the tracker).\<close>

theorem peers_find_each_other:
  assumes "store_ok s" "length ip_a = 16" "length ip_b = 16" "iteration_order ord_a" "iteration_order ord_b"
    and "parse buf_a = Some (Inr (Announce a))" "parse buf_b = Some (Inr (Announce b))"
    and "validate mac ci (an_connection_id a) ip_a now_a" "validate mac ci (an_connection_id b) ip_b now_b"
    and "an_info_hash b = an_info_hash a" "an_event a \<noteq> EvStopped" "an_event b \<noteq> EvStopped"
    and "udp_handle mac ci ord_a s buf_a ip_a is_v4 now_a interval_a out_a = Some (s1, out1, act)"
    and "store_run s1 es s2"
    and "\<forall>e \<in> set (es @ [udp_event b ip_b is_v4 now_b]).
      spares is_v4 (an_info_hash a) (peer_key is_v4 ip_a (an_port a)) (ucast (now_a div 60)) e"
  shows "\<exists>s3 out3 w leechers seeders body.
    udp_handle mac ci ord_b s2 buf_b ip_b is_v4 now_b interval_b out_b = Some (s3, out3, Reply (length out3)) \<and>
    view s3 (an_info_hash a) = Some w \<and>
    decode_response out3 = Some (RAnnounce (an_transaction_id b) interval_b leechers seeders body) \<and>
    (card (dom (family_peers is_v4 w)) \<le> numwant (an_num_want b) is_v4 \<longrightarrow>
      peer_key is_v4 ip_a (an_port a) \<in> set (chunks_exact (stride is_v4) body))"
proof -
  let ?h = "an_info_hash a" and ?k = "peer_key is_v4 ip_a (an_port a)"
  have s1: "store_ok s1" "view s1 = spec_step (udp_event a ip_a is_v4 now_a) (view s)"
    using assms(13)
    by (auto intro: announce_reply [OF assms(1,2,4,6,8), of is_v4 interval_a out_a])
  have "held is_v4 (view s2) ?h ?k False (ucast (now_a div 60))"
    using announce_held [OF s1(2) assms(11)] run_view [OF assms(14) s1(1)] assms(15)
    by (simp add: run_held)
  then have held: "held is_v4 (spec_step (udp_event b ip_b is_v4 now_b) (view s2)) ?h ?k False (ucast (now_a div 60))"
    using assms(15) by (simp add: step_held)
  show ?thesis
  proof (rule announce_reply [OF run_ok [OF assms(14) s1(1)] assms(3,5,7,9), of is_v4 interval_b out_b])
    fix s3 out3 ks
    assume r: "udp_handle mac ci ord_b s2 buf_b ip_b is_v4 now_b interval_b out_b =
        Some (s3, out3, Reply (length out3))" "store_ok s3"
      "view s3 = spec_step (udp_event b ip_b is_v4 now_b) (view s2)"
      "decode_response out3 = Some (RAnnounce (an_transaction_id b) interval_b
        (incomplete (spec_counts (view s3) (an_info_hash b)))
        (complete (spec_counts (view s3) (an_info_hash b))) (concat ks))"
      "if an_event b = EvStopped then ks = []
       else answers is_v4 (numwant (an_num_want b) is_v4) (view s3 (an_info_hash b)) ks"
    have ans: "answers is_v4 (numwant (an_num_want b) is_v4) (view s3 ?h) ks"
      using r(5) assms(10,12) by simp
    obtain w where w: "view s3 ?h = Some w" "?k \<in> dom (family_peers is_v4 w)"
      using held r(3) by (auto simp: held_def)
    have "?k \<in> set (chunks_exact (stride is_v4) (concat ks))"
      if "card (dom (family_peers is_v4 w)) \<le> numwant (an_num_want b) is_v4"
      unfolding answers_keys [OF r(2) ans] answers_all [OF ans w(1) that] by (rule w(2))
    with r(1,4) w(1) show ?thesis by blast
  qed
qed

theorem peers_find_each_other_witness:
  "\<exists>s1 out1 s2 s3 out3 leechers seeders body.
    udp_handle (\<lambda>k m. replicate 32 0) (connid_new [] 60) rev store_new
      (encode_request (Announce sample_announce)) (replicate 16 3) True 60 1800 [] = Some (s1, out1, Reply (length out1)) \<and>
    store_run s1 [Remove4 (replicate 20 2) (replicate 6 9) 3] s2 \<and>
    udp_handle (\<lambda>k m. replicate 32 0) (connid_new [] 60) rev s2
      (encode_request (Announce sample_announce)) (replicate 16 4) True 120 1800 [] = Some (s3, out3, Reply (length out3)) \<and>
    decode_response out3 = Some (RAnnounce 9 1800 leechers seeders body) \<and>
    peer_key True (replicate 16 3) 6881 \<in> set (chunks_exact 6 body)"
proof -
  let ?mac = "\<lambda>(k :: bytes) (m :: bytes). replicate 32 (0 :: u8)" and ?ci = "connid_new [] 60" and ?h = "replicate 20 (1 :: u8)"
  let ?buf = "encode_request (Announce sample_announce)" and ?es = "[Remove4 (replicate 20 2) (replicate 6 9) 3]"
  have p: "parse ?buf = Some (Inr (Announce sample_announce))"
    using encode_parse [of "Announce sample_announce" "[]"] by (simp add: sample_announce_def)
  have v: "validate ?mac ?ci (an_connection_id sample_announce) ip now" for ip now
    by (simp add: sample_announce_def validate_iff for_window_def from_le_def be_val_zeros)
  have l: "length (replicate 16 (3 :: u8)) = 16" "length (replicate 16 (4 :: u8)) = 16" by simp_all
  let ?ka = "peer_key True (replicate 16 3) 6881" and ?kb = "peer_key True (replicate 16 4) 6881"
  have ev: "udp_event sample_announce (replicate 16 3) True 60 = Announce4 ?h ?ka 0 1"
    "udp_event sample_announce (replicate 16 4) True 120 = Announce4 ?h ?kb 0 2"
    by (simp_all add: udp_event_def sample_announce_def udp_flags_def)
  obtain s1 out1 where 1: "udp_handle ?mac ?ci rev store_new ?buf (replicate 16 3) True 60 1800 [] =
      Some (s1, out1, Reply (length out1))" "store_ok s1"
    "view s1 = spec_step (Announce4 ?h ?ka 0 1) (view store_new)"
    by (rule announce_reply [where now = 60 and ?is_v4.0 = True and interval = 1800 and out = "[]",
      OF store_ok_new l(1) iteration_order_rev p v]) (simp only: ev)
  have "\<forall>e \<in> set ?es. event_ok e" by simp
  from run_exists [OF 1(2) this] obtain s2 where 2: "store_run s1 ?es s2" ..
  obtain s3 out3 where 3: "udp_handle ?mac ?ci rev s2 ?buf (replicate 16 4) True 120 1800 [] =
      Some (s3, out3, Reply (length out3))"
    "view s3 = spec_step (Announce4 ?h ?kb 0 2) (view s2)"
    by (rule announce_reply [where now = 120 and ?is_v4.0 = True and interval = 1800 and out = "[]",
      OF run_ok [OF 2 1(2)] l(2) iteration_order_rev p v]) (simp only: ev)
  have "dom (family_peers True w) \<subseteq> {?ka, ?kb}"
    if "view s3 ?h = Some w" for w
    using that run_view [OF 2 1(2)]
    by (auto simp: 3(2) 1(3) view_new family_peers_def empty_swarm_def Let_def split: if_splits)
  then have card: "card (dom (family_peers True w)) \<le> numwant (an_num_want sample_announce) True"
    if "view s3 ?h = Some w" for w
    using card_mono [of "{?ka, ?kb}" "dom (family_peers True w)"] card_insert_le_m1 [of 2 "{?kb}" ?ka] that
    by (simp add: sample_announce_def numwant_def numwant_defs)
  have n: "an_info_hash sample_announce = ?h" "an_port sample_announce = 6881"
    "an_transaction_id sample_announce = 9" "an_event sample_announce \<noteq> EvStopped"
    by (simp_all add: sample_announce_def)
  have "\<forall>e \<in> set (?es @ [udp_event sample_announce (replicate 16 4) True 120]).
      spares True (an_info_hash sample_announce)
        (peer_key True (replicate 16 3) (an_port sample_announce)) (ucast ((60 :: u64) div 60)) e"
    unfolding ev n by (simp add: spares_def)
  from peers_find_each_other [OF store_ok_new l iteration_order_rev iteration_order_rev p p v v refl n(4,4) 1(1) 2 this,
      of 1800 "[]"] show ?thesis
    using 1(1) 2 3(1) card unfolding n by (auto simp: stride_def)
qed

end
