(* ===== verification/Http_Query.thy ===== *)
theory Http_Query
  imports Bencode
begin

text \<open>
  The query parsing of crates/bf-http/src/lib.rs: percent decoding, the split of a query into
  pairs, and the parts of Rust's standard library it calls on strings (\<open>split\<close>, \<open>split_once\<close>
  and \<open>parse\<close> for unsigned integers), on the UTF-8 bytes of the request target. The separators
  are ASCII, so splitting at bytes is splitting at characters.
\<close>

section \<open>Percent decoding\<close>

definition hex_val :: "u8 \<Rightarrow> u8 option" where
  "hex_val c =
     (if of_char CHR ''0'' \<le> c \<and> c \<le> of_char CHR ''9'' then Some (c - of_char CHR ''0'')
      else if of_char CHR ''a'' \<le> c \<and> c \<le> of_char CHR ''f'' then Some (c - of_char CHR ''a'' + 10)
      else if of_char CHR ''A'' \<le> c \<and> c \<le> of_char CHR ''F'' then Some (c - of_char CHR ''A'' + 10)
      else None)"

text \<open>The loop over the input position, as recursion over the rest of the input. The second
  component is the output vector, which keeps what was decoded before a malformed escape.\<close>

fun percent_decode :: "bytes \<Rightarrow> bytes \<Rightarrow> bool \<times> bytes" where
  "percent_decode [] out = (True, out)"
| "percent_decode (c # rest) out =
     (if c = of_char CHR ''%'' then
        (case rest of
           h # l # rest' \<Rightarrow>
             (case (hex_val h, hex_val l) of
                (Some h, Some l) \<Rightarrow> percent_decode rest' (out @ [push_bit 4 h OR l])
              | _ \<Rightarrow> (False, out))
         | _ \<Rightarrow> (False, out))
      else if c = of_char CHR ''+'' then percent_decode rest (out @ [of_char CHR '' ''])
      else percent_decode rest (out @ [c]))"

section \<open>Splitting\<close>

text \<open>\<open>str::split\<close> and \<open>str::split_once\<close> at one character.\<close>

fun split_on :: "u8 \<Rightarrow> bytes \<Rightarrow> bytes list" where
  "split_on d [] = [[]]"
| "split_on d (c # cs) =
     (if c = d then [] # split_on d cs
      else (case split_on d cs of p # ps \<Rightarrow> (c # p) # ps | [] \<Rightarrow> [[c]]))"

fun split_once :: "u8 \<Rightarrow> bytes \<Rightarrow> (bytes \<times> bytes) option" where
  "split_once d [] = None"
| "split_once d (c # cs) =
     (if c = d then Some ([], cs) else map_option (\<lambda>(a, b). (c # a, b)) (split_once d cs))"

definition query_pairs :: "bytes \<Rightarrow> (bytes \<times> bytes) list" where
  "query_pairs query =
     map (\<lambda>p. case split_once (of_char CHR ''='') p of Some kv \<Rightarrow> kv | None \<Rightarrow> (p, []))
       (filter (\<lambda>p. p \<noteq> []) (split_on (of_char CHR ''&'') query))"

section \<open>Parsing unsigned integers\<close>

text \<open>\<open>str::parse\<close> at an unsigned type with greatest value \<open>mx\<close>: an optional plus sign, at least
  one digit, overflow checked at every multiplication and addition.\<close>

fun parse_digits :: "nat \<Rightarrow> nat \<Rightarrow> bytes \<Rightarrow> nat option" where
  "parse_digits mx acc [] = Some acc"
| "parse_digits mx acc (c # cs) =
     (if \<not> is_digit c then None
      else if acc * 10 > mx then None
      else if acc * 10 + (unat c - 0x30) > mx then None
      else parse_digits mx (acc * 10 + (unat c - 0x30)) cs)"

definition parse_uint :: "nat \<Rightarrow> bytes \<Rightarrow> nat option" where
  "parse_uint mx s =
     (case s of
        [] \<Rightarrow> None
      | c # cs \<Rightarrow>
          if cs = [] \<and> (c = of_char CHR ''+'' \<or> c = of_char CHR ''-'') then None
          else if c = of_char CHR ''+'' then parse_digits mx 0 cs
          else parse_digits mx 0 s)"

section \<open>What parsing inverts\<close>

definition hex_digit :: "nat \<Rightarrow> u8" where
  "hex_digit n = (if n < 10 then of_char CHR ''0'' + word_of_nat n else of_char CHR ''A'' + word_of_nat (n - 10))"

text \<open>A client may leave any bytes but \<open>%\<close> and \<open>+\<close> as they are and escapes the others.\<close>

definition percent_encode :: "(u8 \<Rightarrow> bool) \<Rightarrow> bytes \<Rightarrow> bytes" where
  "percent_encode plain bs =
     concat (map (\<lambda>b. if plain b then [b]
       else [of_char CHR ''%'', hex_digit (unat b div 16), hex_digit (unat b mod 16)]) bs)"

definition url_safe :: "(u8 \<Rightarrow> bool) \<Rightarrow> bool" where
  "url_safe plain \<longleftrightarrow> \<not> plain (of_char CHR ''%'') \<and> \<not> plain (of_char CHR ''+'') \<and> \<not> plain (of_char CHR ''&'')"

lemma hex_val_digit: "n < 16 \<Longrightarrow> hex_val (hex_digit n) = Some (word_of_nat n)"
proof -
  assume "n < 16"
  moreover have "\<forall>n \<in> set [0..<16]. hex_val (hex_digit n) = Some (word_of_nat n)"
    by code_simp
  ultimately show ?thesis by simp
qed

lemma nibbles: "push_bit 4 (word_of_nat (unat b div 16)) OR word_of_nat (unat b mod 16) = (b :: u8)"
proof -
  have "word_of_nat (unat b div 16) = drop_bit 4 b"
    by (simp add: word_unat_eq_iff unat_of_nat drop_bit_eq_div unat_div_distrib take_bit_eq_mod)
      (use unat_bound [of b] in simp)
  moreover have "word_of_nat (unat b mod 16) = take_bit 4 b"
    by (simp add: word_unat_eq_iff unat_of_nat take_bit_eq_mod unat_mod_distrib)
  ultimately show ?thesis
    by (auto simp: bit_eq_iff bit_simps not_less)
qed

lemma percent_decode_encode:
  assumes "url_safe plain"
  shows "percent_decode (percent_encode plain bs) out = (True, out @ bs)"
proof (induction bs arbitrary: out)
  case (Cons b bs)
  have "unat b div 16 < 16" using unat_bound [of b] by simp
  then show ?case
    using Cons [of "out @ [b]"] assms
    by (cases "plain b")
      (auto simp: percent_encode_def url_safe_def hex_val_digit nibbles)
qed (simp add: percent_encode_def)

lemma split_on_notin: "d \<notin> set p \<Longrightarrow> split_on d p = [p]"
  by (induction p) auto

lemma split_on_append: "d \<notin> set p \<Longrightarrow> split_on d (p @ d # q) = p # split_on d q"
  by (induction p) auto

lemma split_once_append: "d \<notin> set p \<Longrightarrow> split_once d (p @ d # q) = Some (p, q)"
  by (induction p) auto

lemma split_once_notin: "d \<notin> set p \<Longrightarrow> split_once d p = None"
  by (induction p) auto

text \<open>A query as a client joins it.\<close>

fun join_query :: "(bytes \<times> bytes) list \<Rightarrow> bytes" where
  "join_query [] = []"
| "join_query [(k, v)] = k @ of_char CHR ''='' # v"
| "join_query ((k, v) # kvs) = k @ of_char CHR ''='' # v @ of_char CHR ''&'' # join_query kvs"

definition pair_ok :: "bytes \<times> bytes \<Rightarrow> bool" where
  "pair_ok kv \<longleftrightarrow> of_char CHR ''='' \<notin> set (fst kv) \<and> of_char CHR ''&'' \<notin> set (fst kv) \<and>
     of_char CHR ''&'' \<notin> set (snd kv)"

lemma query_pairs_join: "\<forall>kv \<in> set kvs. pair_ok kv \<Longrightarrow> query_pairs (join_query kvs) = kvs"
proof (induction kvs rule: join_query.induct)
  case 1
  then show ?case by (simp add: query_pairs_def)
next
  case (2 k v)
  then have "split_on (of_char CHR ''&'') (k @ of_char CHR ''='' # v) = [k @ of_char CHR ''='' # v]"
    by (intro split_on_notin) (auto simp: pair_ok_def)
  with 2 show ?case by (simp add: query_pairs_def pair_ok_def split_once_append)
next
  case (3 k v kv kvs)
  have "split_on (of_char CHR ''&'') ((k @ of_char CHR ''='' # v) @ of_char CHR ''&'' # join_query (kv # kvs)) =
      (k @ of_char CHR ''='' # v) # split_on (of_char CHR ''&'') (join_query (kv # kvs))"
    using 3(2) by (intro split_on_append) (auto simp: pair_ok_def)
  with 3 show ?case by (simp add: query_pairs_def pair_ok_def split_once_append)
qed

lemma digits_foldl_ge: "acc \<le> foldl (\<lambda>a d. 10 * a + (unat d - 0x30)) acc (es :: bytes)"
proof (induction es arbitrary: acc)
  case (Cons e es)
  from Cons [of "10 * acc + (unat e - 0x30)"] show ?case by simp
qed simp

lemma parse_digits_Some:
  "acc \<le> mx \<Longrightarrow> parse_digits mx acc ds = Some n \<longleftrightarrow>
     (\<forall>d \<in> set ds. is_digit d) \<and> n = foldl (\<lambda>a d. 10 * a + (unat d - 0x30)) acc ds \<and> n \<le> mx"
proof (induction ds arbitrary: acc)
  case (Cons d ds)
  let ?acc = "10 * acc + (unat d - 0x30)"
  show ?case
  proof (cases "?acc \<le> mx")
    case True
    with Cons.IH [of ?acc] show ?thesis by (auto simp: mult.commute)
  next
    case False
    with digits_foldl_ge [of ?acc ds] show ?thesis by (auto simp: mult.commute)
  qed
qed auto

lemma parse_uint_dec: "parse_uint mx (dec n) = (if n \<le> mx then Some n else None)"
proof -
  have d: "\<forall>d \<in> set (dec n). is_digit d" by (rule dec_digits)
  have "\<not> is_digit (of_char CHR ''+'')" "\<not> is_digit (of_char CHR ''-'')"
    by (simp_all add: is_digit_def)
  then have "hd (dec n) \<noteq> of_char CHR ''+'' \<and> hd (dec n) \<noteq> of_char CHR ''-''"
    using dec_hd [of n] by metis
  then have "parse_uint mx (dec n) = parse_digits mx 0 (dec n)"
    using dec_nonempty [of n] by (cases "dec n") (auto simp: parse_uint_def)
  moreover have "parse_digits mx 0 (dec n) = Some m \<longleftrightarrow> m = n \<and> n \<le> mx" for m
    using d digits_val_dec [of n] by (auto simp: parse_digits_Some digits_val_def)
  ultimately show ?thesis by (cases "parse_digits mx 0 (dec n)") auto
qed

text \<open>Percent decoding inverts percent encoding, for every choice a client makes about
  which bytes to escape.\<close>

lemma percent_roundtrip:
  assumes "url_safe plain"
  shows "percent_decode (percent_encode plain bs) [] = (True, bs)"
  using percent_decode_encode [OF assms, of bs "[]"] by simp

lemma parse_uint_iff:
  "parse_uint mx s = Some n \<longleftrightarrow>
     (\<exists>ds. (s = ds \<or> s = of_char CHR ''+'' # ds) \<and> ds \<noteq> [] \<and> (\<forall>d \<in> set ds. is_digit d) \<and>
       digits_val ds = n \<and> n \<le> mx)"
proof -
  have d: "parse_digits mx 0 ds = Some n \<and> ds \<noteq> [] \<longleftrightarrow>
      ds \<noteq> [] \<and> (\<forall>d \<in> set ds. is_digit d) \<and> digits_val ds = n \<and> n \<le> mx" for ds
    by (auto simp: parse_digits_Some digits_val_def)
  have nd: "\<not> is_digit (of_char CHR ''+'')" "\<not> is_digit (of_char CHR ''-'')"
    by (simp_all add: is_digit_def)
  show ?thesis
  proof (cases s)
    case (Cons c cs)
    show ?thesis
    proof (cases "c = of_char CHR ''+''")
      case True
      then have "parse_uint mx s = Some n \<longleftrightarrow> parse_digits mx 0 cs = Some n \<and> cs \<noteq> []"
        by (auto simp: Cons parse_uint_def)
      with d [of cs] nd True show ?thesis by (auto simp: Cons)
    next
      case False
      then have "parse_uint mx s = Some n \<longleftrightarrow> parse_digits mx 0 s = Some n \<and> s \<noteq> []"
        using nd by (auto simp: Cons parse_uint_def)
      with d [of s] False show ?thesis by (auto simp: Cons)
    qed
  qed (simp add: parse_uint_def)
qed

text \<open>The integer parser accepts exactly the decimal numerals, with an optional plus
  sign, whose value fits the type; everything else is refused.\<close>

lemma parse_uint_spec:
  "parse_uint mx s = Some n \<longleftrightarrow>
     (\<exists>ds. (s = ds \<or> s = of_char CHR ''+'' # ds) \<and> ds \<noteq> [] \<and> (\<forall>d \<in> set ds. is_digit d) \<and>
       digits_val ds = n \<and> n \<le> mx)"
  by (rule parse_uint_iff)

end
