(* ===== verification/Http_Handler.thy ===== *)
theory Http_Handler
  imports Udp_Handler Http_Query
begin

text \<open>
  crates/bf-http/src/lib.rs: the HTTP tracker handler, from the raw request target to the
  response. As for UDP the shared store is passed explicitly, a panic is \<open>None\<close>, and the
  early returns of the parameter loop are \<open>Inl\<close>.
\<close>

definition NUMWANT_MAX :: nat where "NUMWANT_MAX = 200"
definition NUMWANT_DEFAULT :: nat where "NUMWANT_DEFAULT = 50"
definition HTTP_MAX_SCRAPE_HASHES :: nat where "HTTP_MAX_SCRAPE_HASHES = 75"

datatype http_response = Body bytes | Redirect | BadRequest | NotFound

definition to_hash :: "bytes \<Rightarrow> info_hash option" where
  "to_hash b = (if length b = HASH_LEN then Some b else None)"

definition http_v4_key :: "bytes \<Rightarrow> u16 \<Rightarrow> bytes option" where
  "http_v4_key src_ip port =
     do {
       let k = replicate 6 0;
       s \<leftarrow> slice src_ip 12 16;
       k \<leftarrow> copy_into k 0 4 s;
       copy_into k 4 6 (u16_be port)
     }"

definition http_v6_key :: "bytes \<Rightarrow> u16 \<Rightarrow> bytes option" where
  "http_v6_key src_ip port =
     do {
       let k = replicate 18 0;
       k \<leftarrow> copy_into k 0 16 src_ip;
       copy_into k 16 18 (u16_be port)
     }"

text \<open>The local variables of the parameter loop.\<close>

record http_params =
  hp_info_hash :: "info_hash option"
  hp_port :: "u16 option"
  hp_left :: u64
  hp_event :: bytes
  hp_numwant :: nat

definition params_init :: http_params where
  "params_init = \<lparr>hp_info_hash = None, hp_port = None, hp_left = 1, hp_event = [],
     hp_numwant = NUMWANT_DEFAULT\<rparr>"

definition u16_max :: nat where "u16_max = 2 ^ 16 - 1"
definition u64_max :: nat where "u64_max = 2 ^ 64 - 1"

definition announce_param :: "http_params \<Rightarrow> bytes \<times> bytes \<Rightarrow> (http_response + http_params) option" where
  "announce_param p kv =
     (case kv of (key, raw) \<Rightarrow>
        if key = str ''info_hash'' then
          (case percent_decode raw [] of (ok, buf) \<Rightarrow>
             if \<not> ok \<or> length buf \<noteq> HASH_LEN then Some (Inl BadRequest)
             else do {
               h \<leftarrow> to_hash buf;
               Some (Inr (p\<lparr>hp_info_hash := Some h\<rparr>))
             })
        else if key = str ''port'' then
          (case parse_uint u16_max raw of
             Some n \<Rightarrow> Some (Inr (p\<lparr>hp_port := Some (word_of_nat n)\<rparr>))
           | None \<Rightarrow> Some (Inl BadRequest))
        else if key = str ''left'' then
          Some (Inr (p\<lparr>hp_left := (case parse_uint u64_max raw of Some n \<Rightarrow> word_of_nat n | None \<Rightarrow> 1)\<rparr>))
        else if key = str ''event'' then Some (Inr (p\<lparr>hp_event := raw\<rparr>))
        else if key = str ''compact'' then
          (if raw = str ''0'' then Some (Inl BadRequest) else Some (Inr p))
        else if key = str ''numwant'' then
          (case parse_uint u64_max raw of
             Some n \<Rightarrow> Some (Inr (p\<lparr>hp_numwant := min n NUMWANT_MAX\<rparr>))
           | None \<Rightarrow> Some (Inr p))
        else Some (Inr p))"

fun announce_params :: "http_params \<Rightarrow> (bytes \<times> bytes) list \<Rightarrow> (http_response + http_params) option" where
  "announce_params p [] = Some (Inr p)"
| "announce_params p (kv # kvs) =
     (case announce_param p kv of
        None \<Rightarrow> None
      | Some (Inl r) \<Rightarrow> Some (Inl r)
      | Some (Inr p) \<Rightarrow> announce_params p kvs)"

definition http_flags :: "http_params \<Rightarrow> u8" where
  "http_flags p =
     (let f = 0;
          f = (if hp_left p = 0 then f OR SEEDING else f);
          f = (if hp_event p = str ''completed'' then f OR COMPLETED else f)
      in f)"

text \<open>The store operation of an announce, with the two peer vectors it fills.\<close>

definition http_apply ::
  "peer_order \<Rightarrow> store \<Rightarrow> info_hash \<Rightarrow> u16 \<Rightarrow> http_params \<Rightarrow> bytes \<Rightarrow> bool \<Rightarrow> u32 \<Rightarrow>
    (store \<times> counts \<times> bytes \<times> bytes) option" where
  "http_apply ord s hash port p src_ip is_v4 now =
     (if hp_event p = str ''stopped'' then
        (if is_v4 then do {
           key \<leftarrow> http_v4_key src_ip port;
           (s, c) \<leftarrow> remove_v4 s hash key now;
           Some (s, c, [], [])
         } else do {
           key \<leftarrow> http_v6_key src_ip port;
           (s, c) \<leftarrow> remove_v6 s hash key now;
           Some (s, c, [], [])
         })
      else if is_v4 then do {
        key \<leftarrow> http_v4_key src_ip port;
        (s, c, peers4) \<leftarrow> announce_v4 ord s hash key (http_flags p) (hp_numwant p) now [];
        Some (s, c, peers4, [])
      } else do {
        key \<leftarrow> http_v6_key src_ip port;
        (s, c, peers6) \<leftarrow> announce_v6 ord s hash key (http_flags p) (hp_numwant p) now [];
        Some (s, c, [], peers6)
      })"

definition http_announce ::
  "itoa \<Rightarrow> peer_order \<Rightarrow> store \<Rightarrow> bytes \<Rightarrow> bytes \<Rightarrow> bool \<Rightarrow> u32 \<Rightarrow> u32 \<Rightarrow> (store \<times> http_response) option" where
  "http_announce itoa ord s query src_ip is_v4 now interval =
     do {
       r \<leftarrow> announce_params params_init (query_pairs query);
       case r of
         Inl resp \<Rightarrow> Some (s, resp)
       | Inr p \<Rightarrow>
           (case (hp_info_hash p, hp_port p) of
              (Some hash, Some port) \<Rightarrow>
                do {
                  (s, c, peers4, peers6) \<leftarrow> http_apply ord s hash port p src_ip is_v4 now;
                  Some (s, Body (announce_response itoa [] c interval peers4 peers6))
                }
            | _ \<Rightarrow> Some (s, Body (failure itoa [] (str ''Your client forgot to send your torrent's info_hash.''))))
     }"

fun scrape_files ::
  "store \<Rightarrow> (info_hash \<times> counts) list \<Rightarrow> (bytes \<times> bytes) list \<Rightarrow>
    (http_response + (info_hash \<times> counts) list) option" where
  "scrape_files s files [] = Some (Inr files)"
| "scrape_files s files ((key, raw) # kvs) =
     (if key = str ''info_hash'' then
        (if length files \<ge> HTTP_MAX_SCRAPE_HASHES then Some (Inr files)
         else (case percent_decode raw [] of (ok, buf) \<Rightarrow>
           if \<not> ok \<or> length buf \<noteq> HASH_LEN then Some (Inl BadRequest)
           else do {
             hash \<leftarrow> to_hash buf;
             c \<leftarrow> scrape s hash;
             scrape_files s (files @ [(hash, c)]) kvs
           }))
      else scrape_files s files kvs)"

definition http_scrape :: "itoa \<Rightarrow> store \<Rightarrow> bytes \<Rightarrow> http_response option" where
  "http_scrape itoa s query =
     map_option (\<lambda>r. case r of Inl resp \<Rightarrow> resp | Inr files \<Rightarrow> Body (scrape_response itoa [] files))
       (scrape_files s [] (query_pairs query))"

definition http_handle ::
  "itoa \<Rightarrow> peer_order \<Rightarrow> store \<Rightarrow> bytes \<Rightarrow> bytes \<Rightarrow> bool \<Rightarrow> u32 \<Rightarrow> u32 \<Rightarrow> (store \<times> http_response) option" where
  "http_handle itoa ord s target src_ip is_v4 now interval =
     (case (case split_once (of_char CHR ''?'') target of Some pq \<Rightarrow> pq | None \<Rightarrow> (target, [])) of
        (path, query) \<Rightarrow>
          if path = str ''/'' then Some (s, Redirect)
          else if path = str ''/announce'' then http_announce itoa ord s query src_ip is_v4 now interval
          else if path = str ''/scrape'' then map_option (\<lambda>r. (s, r)) (http_scrape itoa s query)
          else Some (s, NotFound))"

section \<open>The parameter loop\<close>

lemma http_key_eq:
  "length ip = 16 \<Longrightarrow> http_v4_key ip port = Some (peer_key True ip port)"
  "length ip = 16 \<Longrightarrow> http_v6_key ip port = Some (peer_key False ip port)"
  using key_eq [of ip port] by (simp_all add: http_v4_key_def http_v6_key_def v4_key_def v6_key_def)

text \<open>What the loop leaves: never a panic, a hash of twenty bytes, a bounded number of peers.\<close>

definition params_ok :: "http_params \<Rightarrow> bool" where
  "params_ok p \<longleftrightarrow> (\<forall>h. hp_info_hash p = Some h \<longrightarrow> length h = 20) \<and> hp_numwant p \<le> 200"

lemma params_ok_init: "params_ok params_init"
  by (simp add: params_ok_def params_init_def NUMWANT_DEFAULT_def)

lemma announce_param_hash:
  "announce_param p (str ''info_hash'', raw) =
    (let (ok, buf) = percent_decode raw []
     in if ok \<and> length buf = 20 then Some (Inr (p\<lparr>hp_info_hash := Some buf\<rparr>)) else Some (Inl BadRequest))"
  by (simp add: announce_param_def to_hash_def HASH_LEN_def Let_def split: prod.split)

lemma announce_param_other:
  assumes "key \<noteq> str ''info_hash''"
  shows "announce_param p (key, raw) = Some (Inl BadRequest) \<or>
    (\<exists>p'. announce_param p (key, raw) = Some (Inr p') \<and> hp_info_hash p' = hp_info_hash p \<and>
      hp_numwant p' \<le> max (hp_numwant p) 200)"
  using assms
  by (simp add: announce_param_def NUMWANT_MAX_def min_le_iff_disj le_max_iff_disj split: option.split)

lemma announce_param_total:
  assumes "params_ok p"
  shows "announce_param p kv = Some (Inl BadRequest) \<or>
    (\<exists>p'. announce_param p kv = Some (Inr p') \<and> params_ok p')"
proof (cases kv)
  case (Pair key raw)
  show ?thesis
  proof (cases "key = str ''info_hash''")
    case True
    with Pair assms show ?thesis
      by (simp add: announce_param_hash params_ok_def Let_def split: prod.split)
  next
    case False
    from announce_param_other [OF this, of p raw] Pair assms show ?thesis
      by (auto simp: params_ok_def)
  qed
qed

lemma announce_params_total:
  assumes "params_ok p"
  obtains "announce_params p kvs = Some (Inl BadRequest)"
  | p' where "announce_params p kvs = Some (Inr p')" "params_ok p'"
proof -
  have "announce_params p kvs = Some (Inl BadRequest) \<or>
      (\<exists>p'. announce_params p kvs = Some (Inr p') \<and> params_ok p')"
    using assms
  proof (induction kvs arbitrary: p)
    case (Cons kv kvs)
    from announce_param_total [OF Cons.prems, of kv] show ?case
    proof (elim disjE exE conjE)
      fix p'
      assume "announce_param p kv = Some (Inr p')" "params_ok p'"
      with Cons.IH [of p'] show ?case by simp
    qed simp
  qed simp
  with that show thesis by blast
qed

section \<open>Announces\<close>

definition http_event :: "info_hash \<Rightarrow> u16 \<Rightarrow> http_params \<Rightarrow> bytes \<Rightarrow> bool \<Rightarrow> u32 \<Rightarrow> store_event" where
  "http_event hash port p ip is_v4 now =
     (let key = peer_key is_v4 ip port
      in if hp_event p = str ''stopped'' then (if is_v4 then Remove4 hash key now else Remove6 hash key now)
         else if is_v4 then Announce4 hash key (http_flags p) now else Announce6 hash key (http_flags p) now)"

lemma compact_short:
  assumes "pl_ok n pl" "iteration_order ord" "nw \<le> 200" "n \<le> 18"
  shows "length (write_compact ord pl nw []) < 2 ^ 64"
proof -
  have "n * min nw (length (peers pl)) \<le> 18 * 200"
    using assms(3,4) by (intro mult_le_mono) simp_all
  then show ?thesis by (simp add: length_write_compact [OF assms(1,2)])
qed

lemma http_apply_refines:
  assumes "store_ok s" "length ip = 16" "iteration_order ord" "params_ok p"
  obtains s' peers4 peers6 where
    "http_apply ord s hash port p ip is_v4 now = Some (s', spec_counts (view s') hash, peers4, peers6)"
    "store_ok s'" "view s' = spec_step (http_event hash port p ip is_v4 now) (view s)"
    "length peers4 < 2 ^ 64" "length peers6 < 2 ^ 64"
    "hp_event p = str ''stopped'' \<longrightarrow> peers4 = [] \<and> peers6 = []"
    "hp_event p \<noteq> str ''stopped'' \<longrightarrow> (\<exists>t. torrent_at s' hash = Some t \<and> torrent_ok t \<and>
      (if is_v4 then peers4 = write_compact ord (v4 t) (hp_numwant p) [] \<and> peers6 = []
       else peers6 = write_compact ord (v6 t) (hp_numwant p) [] \<and> peers4 = []))"
proof -
  have l: "length (peer_key True ip port) = 6" "length (peer_key False ip port) = 18"
    using length_peer_key [OF assms(2)] by simp_all
  have nw: "hp_numwant p \<le> 200" using assms(4) by (simp add: params_ok_def)
  show thesis
  proof (cases "hp_event p = str ''stopped''")
    case True
    show thesis
    proof (cases is_v4)
      case v: True
      show thesis
        by (rule remove4_refines [OF assms(1), of hash "peer_key True ip port" now], rule that)
          (use True v assms(2) in \<open>simp_all add: http_apply_def http_key_eq http_event_def Let_def
            del: spec_step.simps\<close>)
    next
      case v: False
      show thesis
        by (rule remove6_refines [OF assms(1), of hash "peer_key False ip port" now], rule that)
          (use True v assms(2) in \<open>simp_all add: http_apply_def http_key_eq http_event_def Let_def
            del: spec_step.simps\<close>)
    qed
  next
    case False
    show thesis
    proof (cases is_v4)
      case v: True
      obtain s' t where t: "announce_v4 ord s hash (peer_key True ip port) (http_flags p) (hp_numwant p) now [] =
          Some (s', spec_counts (view s') hash, write_compact ord (v4 t) (hp_numwant p) [])"
        "store_ok s'" "view s' = spec_step (Announce4 hash (peer_key True ip port) (http_flags p) now) (view s)"
        "torrent_at s' hash = Some t" "torrent_ok t"
        by (rule announce4_refines [OF assms(1) l(1)])
      show thesis
        by (rule that [of s' "write_compact ord (v4 t) (hp_numwant p) []" "[]"])
          (use t False v assms(2) compact_short [OF _ assms(3) nw, of 6 "v4 t"] in
            \<open>simp_all add: http_apply_def http_key_eq http_event_def Let_def torrent_ok_def
              del: spec_step.simps\<close>)
    next
      case v: False
      obtain s' t where t: "announce_v6 ord s hash (peer_key False ip port) (http_flags p) (hp_numwant p) now [] =
          Some (s', spec_counts (view s') hash, write_compact ord (v6 t) (hp_numwant p) [])"
        "store_ok s'" "view s' = spec_step (Announce6 hash (peer_key False ip port) (http_flags p) now) (view s)"
        "torrent_at s' hash = Some t" "torrent_ok t"
        by (rule announce6_refines [OF assms(1) l(2)])
      show thesis
        by (rule that [of s' "[]" "write_compact ord (v6 t) (hp_numwant p) []"])
          (use t False v assms(2) compact_short [OF _ assms(3) nw, of 18 "v6 t"] in
            \<open>simp_all add: http_apply_def http_key_eq http_event_def Let_def torrent_ok_def
              del: spec_step.simps\<close>)
    qed
  qed
qed

lemma length_failure: "length (str ''Your client forgot to send your torrent's info_hash.'') < 2 ^ 64"
  by simp

lemma http_announce_cases:
  assumes "store_ok s" "length ip = 16" "iteration_order ord"
  obtains "http_announce itoa ord s query ip is_v4 now interval = Some (s, BadRequest)"
  | "http_announce itoa ord s query ip is_v4 now interval =
      Some (s, Body (failure itoa [] (str ''Your client forgot to send your torrent's info_hash.'')))"
  | s' p hash port peers4 peers6 where "announce_params params_init (query_pairs query) = Some (Inr p)"
    "hp_info_hash p = Some hash" "hp_port p = Some port" "store_ok s'"
    "http_announce itoa ord s query ip is_v4 now interval =
      Some (s', Body (announce_response itoa [] (spec_counts (view s') hash) interval peers4 peers6))"
    "http_apply ord s hash port p ip is_v4 now = Some (s', spec_counts (view s') hash, peers4, peers6)"
proof (rule announce_params_total [OF params_ok_init, of "query_pairs query"])
  assume "announce_params params_init (query_pairs query) = Some (Inl BadRequest)"
  then show thesis by (intro that(1)) (simp add: http_announce_def)
next
  fix p
  assume p: "announce_params params_init (query_pairs query) = Some (Inr p)" "params_ok p"
  show thesis
  proof (cases "hp_info_hash p = None \<or> hp_port p = None")
    case True
    with p show thesis by (intro that(2)) (auto simp: http_announce_def split: option.split)
  next
    case False
    then obtain hash port where h: "hp_info_hash p = Some hash" "hp_port p = Some port" by auto
    obtain s' peers4 peers6 where r: "store_ok s'"
      "http_apply ord s hash port p ip is_v4 now = Some (s', spec_counts (view s') hash, peers4, peers6)"
      by (rule http_apply_refines [OF assms p(2)])
    have "http_announce itoa ord s query ip is_v4 now interval =
        Some (s', Body (announce_response itoa [] (spec_counts (view s') hash) interval peers4 peers6))"
      using p h r(2) by (simp add: http_announce_def)
    from that(3) [OF p(1) h r(1) this r(2)] show thesis .
  qed
qed

section \<open>Properties\<close>

lemma scrape_files_total:
  assumes "store_ok s"
  shows "scrape_files s files kvs = Some (Inl BadRequest) \<or> (\<exists>fs. scrape_files s files kvs = Some (Inr fs))"
proof (induction kvs arbitrary: files)
  case (Cons kv kvs)
  show ?case
    by (cases kv; cases "percent_decode (snd kv) []")
      (use Cons in \<open>auto simp: to_hash_def scrape_refines [OF assms]\<close>)
qed simp

definition http_path :: "bytes \<Rightarrow> bytes" where
  "http_path target = (case split_once (of_char CHR ''?'') target of Some (p, q) \<Rightarrow> p | None \<Rightarrow> target)"

lemma http_handle_eq:
  "\<exists>query. http_handle itoa ord s target ip is_v4 now interval =
    (if http_path target = str ''/'' then Some (s, Redirect)
     else if http_path target = str ''/announce'' then http_announce itoa ord s query ip is_v4 now interval
     else if http_path target = str ''/scrape'' then map_option (\<lambda>r. (s, r)) (http_scrape itoa s query)
     else Some (s, NotFound))"
  by (cases "split_once (of_char CHR ''?'') target") (auto simp: http_handle_def http_path_def)

lemma http_event_ok:
  "length ip = 16 \<Longrightarrow> event_ok (http_event hash port p ip is_v4 now)"
  by (simp add: http_event_def Let_def length_peer_key)

lemma http_announce_total:
  assumes "store_ok s" "length ip = 16" "iteration_order ord"
  shows "\<exists>s' r. http_announce itoa ord s query ip is_v4 now interval = Some (s', r) \<and> store_ok s' \<and>
    (s' = s \<or> (\<exists>e b. r = Body b \<and> event_ok e \<and> view s' = spec_step e (view s)))"
proof (rule http_announce_cases [OF assms, of itoa query is_v4 now interval])
  fix s' p hash port peers4 peers6
  assume a: "announce_params params_init (query_pairs query) = Some (Inr p)" "store_ok s'"
    "http_announce itoa ord s query ip is_v4 now interval =
      Some (s', Body (announce_response itoa [] (spec_counts (view s') hash) interval peers4 peers6))"
    "http_apply ord s hash port p ip is_v4 now = Some (s', spec_counts (view s') hash, peers4, peers6)"
  from a(1) have "params_ok p"
    by (metis announce_params_total [OF params_ok_init, of "query_pairs query"] option.inject
        sum.inject(2) sum.distinct(1))
  from http_apply_refines [OF assms this, of hash port is_v4 now] a(4)
  have "view s' = spec_step (http_event hash port p ip is_v4 now) (view s)"
    by (metis option.inject prod.inject)
  with a http_event_ok [OF assms(2)] show ?thesis by blast
qed (use assms(1) in simp_all)

lemma http_handle_spec:
  assumes "store_ok s" "length ip = 16" "iteration_order ord"
  shows "\<exists>s' r. http_handle itoa ord s target ip is_v4 now interval = Some (s', r) \<and> store_ok s' \<and>
    (s' = s \<or> http_path target = str ''/announce'' \<and>
      (\<exists>e b. r = Body b \<and> event_ok e \<and> view s' = spec_step e (view s)))"
proof -
  obtain query where q: "http_handle itoa ord s target ip is_v4 now interval =
    (if http_path target = str ''/'' then Some (s, Redirect)
     else if http_path target = str ''/announce'' then http_announce itoa ord s query ip is_v4 now interval
     else if http_path target = str ''/scrape'' then map_option (\<lambda>r. (s, r)) (http_scrape itoa s query)
     else Some (s, NotFound))"
    using http_handle_eq by metis
  have "http_scrape itoa s query \<noteq> None"
    using scrape_files_total [OF assms(1), of "[]" "query_pairs query"] by (auto simp: http_scrape_def)
  with q assms(1) http_announce_total [OF assms, of itoa query is_v4 now interval] show ?thesis
    by (simp split: if_split)
qed

text \<open>Whatever the request target, the HTTP handler answers without a panic and
  keeps the store well-formed. Only \<open>/announce\<close> can change it, only when it answers with a
  body, and then by exactly one announce or removal.\<close>

lemma http_handle_total:
  assumes "store_ok s" "length ip = 16" "iteration_order ord"
  shows "\<exists>s' r. http_handle itoa ord s target ip is_v4 now interval = Some (s', r) \<and> store_ok s' \<and>
    (s' = s \<or> http_path target = str ''/announce'' \<and>
      (\<exists>e b. r = Body b \<and> event_ok e \<and> view s' = spec_step e (view s)))"
  using assms by (rule http_handle_spec)

section \<open>The two protocols agree\<close>

fun event_param :: "event \<Rightarrow> bytes" where
  "event_param EvNone = []"
| "event_param EvCompleted = str ''completed''"
| "event_param EvStopped = str ''stopped''"

text \<open>The request target a BEP-3 client sends for an announce.\<close>

definition announce_url :: "(u8 \<Rightarrow> bool) \<Rightarrow> announce \<Rightarrow> nat \<Rightarrow> bytes" where
  "announce_url plain a nw =
     str ''/announce'' @ of_char CHR ''?'' # join_query
       [(str ''info_hash'', percent_encode plain (an_info_hash a)),
        (str ''peer_id'', percent_encode plain (an_peer_id a)),
        (str ''port'', dec (unat (an_port a))),
        (str ''left'', dec (unat (an_left a))),
        (str ''event'', event_param (an_event a)),
        (str ''numwant'', dec nw)]"

lemma percent_encode_no_amp:
  assumes "url_safe plain"
  shows "of_char CHR ''&'' \<notin> set (percent_encode plain bs)"
proof -
  have "\<forall>n \<in> set [0..<16]. hex_digit n \<noteq> of_char CHR ''&''" by code_simp
  moreover have "unat b div 16 < 16" for b :: u8 using unat_bound [of b] by simp
  ultimately have "hex_digit (unat b div 16) \<noteq> of_char CHR ''&''" "hex_digit (unat b mod 16) \<noteq> of_char CHR ''&''"
    for b :: u8 by simp_all
  from this(1) [symmetric] this(2) [symmetric] assms show ?thesis
    by (auto simp: percent_encode_def url_safe_def)
qed

lemma dec_no_amp: "of_char CHR ''&'' \<notin> set (dec n)"
proof -
  have "\<not> is_digit (of_char CHR ''&'')" by (simp add: is_digit_def)
  with dec_digits [of n] show ?thesis by blast
qed

lemma event_param_eq:
  "event_param e = str ''completed'' \<longleftrightarrow> e = EvCompleted"
  "event_param e = str ''stopped'' \<longleftrightarrow> e = EvStopped"
  "of_char CHR ''&'' \<notin> set (event_param e)"
  by (cases e; simp add: str_def)+

definition url_params :: "announce \<Rightarrow> nat \<Rightarrow> http_params" where
  "url_params a nw = \<lparr>hp_info_hash = Some (an_info_hash a), hp_port = Some (an_port a), hp_left = an_left a,
     hp_event = event_param (an_event a), hp_numwant = (if nw \<le> u64_max then min nw 200 else 50)\<rparr>"

lemma word_max:
  "unat (v :: u16) \<le> u16_max" "unat (w :: u64) \<le> u64_max"
  using unat_le_max [of v] unat_le_max [of w] by (simp_all add: u16_max_def u64_max_def)

lemma announce_param_rest:
  "announce_param p (str ''peer_id'', raw) = Some (Inr p)"
  "announce_param p (str ''port'', raw) =
    (case parse_uint u16_max raw of
       Some n \<Rightarrow> Some (Inr (p\<lparr>hp_port := Some (word_of_nat n)\<rparr>)) | None \<Rightarrow> Some (Inl BadRequest))"
  "announce_param p (str ''left'', raw) =
    Some (Inr (p\<lparr>hp_left := (case parse_uint u64_max raw of Some n \<Rightarrow> word_of_nat n | None \<Rightarrow> 1)\<rparr>))"
  "announce_param p (str ''event'', raw) = Some (Inr (p\<lparr>hp_event := raw\<rparr>))"
  "announce_param p (str ''numwant'', raw) =
    (case parse_uint u64_max raw of
       Some n \<Rightarrow> Some (Inr (p\<lparr>hp_numwant := min n NUMWANT_MAX\<rparr>)) | None \<Rightarrow> Some (Inr p))"
  by (simp_all add: announce_param_def str_def)

lemma url_pairs:
  assumes "url_safe plain" "length (an_info_hash a) = 20"
  shows "\<exists>query. split_once (of_char CHR ''?'') (announce_url plain a nw) = Some (str ''/announce'', query) \<and>
    announce_params params_init (query_pairs query) = Some (Inr (url_params a nw))"
proof -
  let ?kvs = "[(str ''info_hash'', percent_encode plain (an_info_hash a)),
    (str ''peer_id'', percent_encode plain (an_peer_id a)), (str ''port'', dec (unat (an_port a))),
    (str ''left'', dec (unat (an_left a))), (str ''event'', event_param (an_event a)),
    (str ''numwant'', dec nw)]"
  have "split_once (of_char CHR ''?'') (announce_url plain a nw) = Some (str ''/announce'', join_query ?kvs)"
    unfolding announce_url_def by (rule split_once_append) (simp add: str_def)
  moreover have "pair_ok (k, v)" if "of_char CHR ''='' \<notin> set k" "of_char CHR ''&'' \<notin> set k"
      "of_char CHR ''&'' \<notin> set v" for k v
    using that by (simp add: pair_ok_def)
  then have "\<forall>kv \<in> set ?kvs. pair_ok kv"
    using percent_encode_no_amp [OF assms(1)] dec_no_amp event_param_eq(3)
    by (auto simp: str_def)
  then have "query_pairs (join_query ?kvs) = ?kvs" by (rule query_pairs_join)
  moreover have "announce_params params_init ?kvs = Some (Inr (url_params a nw))"
    by (simp add: announce_param_hash announce_param_rest percent_decode_encode [OF assms(1)] assms(2)
        word_max parse_uint_dec url_params_def params_init_def
        NUMWANT_MAX_def NUMWANT_DEFAULT_def)
  ultimately show ?thesis by metis
qed

lemma url_event:
  "now = ucast (now_secs div 60) \<Longrightarrow>
   http_event (an_info_hash a) (an_port a) (url_params a nw) ip is_v4 now = udp_event a ip is_v4 now_secs"
  by (simp add: http_event_def udp_event_def url_params_def event_param_eq http_flags_def udp_flags_def Let_def)

text \<open>C24. The announce a client makes over HTTP has exactly the effect on the
  tracker of the same announce made over UDP at the same time, and the body reads back as the
  exact counts of the swarm, the interval, and distinct peers of the client's address family:
  none when it stopped, else as many as \<open>numwant\<close> asks for or as there are, at most 200.\<close>

theorem http_announce_agrees:
  assumes "store_ok s" "length ip = 16" "iteration_order ord" "itoa_decimal itoa" "url_safe plain"
    and "length (an_info_hash a) = 20" "now = ucast (now_secs div 60)"
  shows "\<exists>s' b ks. http_handle itoa ord s (announce_url plain a nw) ip is_v4 now interval = Some (s', Body b) \<and>
    view s' = spec_step (udp_event a ip is_v4 now_secs) (view s) \<and>
    read_body b = Some (BDict (announce_dict (spec_counts (view s') (an_info_hash a)) interval
      (if is_v4 then concat ks else []) (if is_v4 then [] else concat ks))) \<and>
    (if an_event a = EvStopped then ks = []
     else answers is_v4 (hp_numwant (url_params a nw)) (view s' (an_info_hash a)) ks) \<and>
    length ks \<le> 200"
proof -
  obtain query where q: "split_once (of_char CHR ''?'') (announce_url plain a nw) = Some (str ''/announce'', query)"
    "announce_params params_init (query_pairs query) = Some (Inr (url_params a nw))"
    using url_pairs [OF assms(5,6)] by blast
  have p: "params_ok (url_params a nw)" using assms(6) by (simp add: params_ok_def url_params_def)
  obtain s' peers4 peers6 where r:
    "http_apply ord s (an_info_hash a) (an_port a) (url_params a nw) ip is_v4 now =
      Some (s', spec_counts (view s') (an_info_hash a), peers4, peers6)"
    "store_ok s'" "view s' = spec_step (udp_event a ip is_v4 now_secs) (view s)"
    "length peers4 < 2 ^ 64" "length peers6 < 2 ^ 64"
    and stop: "hp_event (url_params a nw) = str ''stopped'' \<longrightarrow> peers4 = [] \<and> peers6 = []"
    and go: "hp_event (url_params a nw) \<noteq> str ''stopped'' \<longrightarrow> (\<exists>t. torrent_at s' (an_info_hash a) = Some t \<and>
      torrent_ok t \<and>
      (if is_v4 then peers4 = write_compact ord (v4 t) (hp_numwant (url_params a nw)) [] \<and> peers6 = []
       else peers6 = write_compact ord (v6 t) (hp_numwant (url_params a nw)) [] \<and> peers4 = []))"
    by (rule http_apply_refines [OF assms(1-3) p, of "an_info_hash a" "an_port a" is_v4 now,
      unfolded url_event [OF assms(7)]])
  let ?nw = "hp_numwant (url_params a nw)"
  have stopped: "hp_event (url_params a nw) = str ''stopped'' \<longleftrightarrow> an_event a = EvStopped"
    by (simp add: url_params_def event_param_eq)
  have "\<exists>ks. peers4 = (if is_v4 then concat ks else []) \<and> peers6 = (if is_v4 then [] else concat ks) \<and>
      (if an_event a = EvStopped then ks = [] else answers is_v4 ?nw (view s' (an_info_hash a)) ks)"
  proof (cases "an_event a = EvStopped")
    case True
    with stop stopped show ?thesis by (intro exI [of _ "[]"]) simp
  next
    case False
    with go stopped obtain t where t: "torrent_at s' (an_info_hash a) = Some t" "torrent_ok t"
      "if is_v4 then peers4 = write_compact ord (v4 t) ?nw [] \<and> peers6 = []
       else peers6 = write_compact ord (v6 t) ?nw [] \<and> peers4 = []"
      by auto
    show ?thesis
      by (rule compact_answers [OF t(1,2) assms(3), of is_v4 ?nw "[]"])
        (use t(3) False in \<open>auto split: if_splits\<close>)
  qed
  then obtain ks where "peers4 = (if is_v4 then concat ks else [])" "peers6 = (if is_v4 then [] else concat ks)"
    and ks: "if an_event a = EvStopped then ks = [] else answers is_v4 ?nw (view s' (an_info_hash a)) ks"
    by blast
  moreover from ks have "length ks \<le> 200"
    using p by (auto simp: params_ok_def dest!: answers_length split: if_splits)
  moreover have "http_handle itoa ord s (announce_url plain a nw) ip is_v4 now interval =
      Some (s', Body (announce_response itoa [] (spec_counts (view s') (an_info_hash a)) interval peers4 peers6))"
    using q r(1) by (simp add: http_handle_def http_announce_def url_params_def str_def)
  moreover note announce_body_dict [OF assms(4) r(4,5), of "spec_counts (view s') (an_info_hash a)" interval]
  ultimately show ?thesis
    using r(3) by (intro exI [of _ s'] exI [of _ "announce_response itoa []
      (spec_counts (view s') (an_info_hash a)) interval peers4 peers6"] exI [of _ ks] conjI) simp_all
qed

theorem http_announce_agrees_witness:
  "\<exists>s' b. http_handle (\<lambda>v. dec (unat v)) rev store_new (announce_url (\<lambda>b. False) sample_announce 50)
      (replicate 16 3) False 1 1800 = Some (s', Body b) \<and>
    view s' = spec_step (udp_event sample_announce (replicate 16 3) False 60) (view store_new)"
proof -
  have l: "length (replicate 16 (3 :: u8)) = 16" by simp
  have u: "url_safe (\<lambda>b. False)" by (simp add: url_safe_def)
  have h: "length (an_info_hash sample_announce) = 20" by (simp add: sample_announce_def)
  have n: "(1 :: u32) = ucast ((60 :: u64) div 60)" by simp
  from http_announce_agrees [OF store_ok_new l iteration_order_rev itoa_decimal_dec u h n, of 50 False 1800]
  show ?thesis by blast
qed

text \<open>The request target of a scrape of several hashes.\<close>

definition scrape_url :: "(u8 \<Rightarrow> bool) \<Rightarrow> info_hash list \<Rightarrow> bytes" where
  "scrape_url plain hs =
     str ''/scrape'' @ of_char CHR ''?'' #
       join_query (map (\<lambda>h. (str ''info_hash'', percent_encode plain h)) hs)"

lemma scrape_files_hashes:
  assumes "store_ok s" "url_safe plain"
  shows "\<forall>h \<in> set hs. length h = 20 \<Longrightarrow> length files \<le> 75 \<Longrightarrow>
    scrape_files s files (map (\<lambda>h. (str ''info_hash'', percent_encode plain h)) hs) =
      Some (Inr (files @ map (\<lambda>h. (h, spec_counts (view s) h)) (take (75 - length files) hs)))"
proof (induction hs arbitrary: files)
  case (Cons h hs)
  show ?case
  proof (cases "length files = 75")
    case False
    with Cons.prems have n: "75 - length files = Suc (75 - Suc (length files))" by simp
    from False Cons.prems Cons.IH [of "files @ [(h, spec_counts (view s) h)]"] show ?thesis
      by (simp add: percent_decode_encode [OF assms(2)] HASH_LEN_def HTTP_MAX_SCRAPE_HASHES_def
          to_hash_def scrape_refines [OF assms(1)] n)
  qed (simp add: HTTP_MAX_SCRAPE_HASHES_def)
qed simp

text \<open>C25. A scrape of any number of hashes changes nothing and its body reads back as
  one entry per hash, at most the first 75, in the order asked, with the exact counts the
  tracker knows.\<close>

theorem http_scrape_reply:
  assumes "store_ok s" "itoa_decimal itoa" "url_safe plain" "\<forall>h \<in> set hs. length h = 20"
  shows "\<exists>b. http_handle itoa ord s (scrape_url plain hs) ip is_v4 now interval = Some (s, Body b) \<and>
    read_body b = Some (BDict [(str ''files'',
      BDict (map (\<lambda>h. (h, BDict (file_dict (spec_counts (view s) h)))) (take 75 hs)))])"
proof -
  let ?kvs = "map (\<lambda>h. (str ''info_hash'', percent_encode plain h)) hs"
  let ?files = "map (\<lambda>h. (h, spec_counts (view s) h)) (take 75 hs)"
  have "split_once (of_char CHR ''?'') (scrape_url plain hs) = Some (str ''/scrape'', join_query ?kvs)"
    unfolding scrape_url_def by (rule split_once_append) (simp add: str_def)
  moreover have "\<forall>kv \<in> set ?kvs. pair_ok kv"
    using percent_encode_no_amp [OF assms(3)] by (auto simp: pair_ok_def str_def)
  then have "query_pairs (join_query ?kvs) = ?kvs" by (rule query_pairs_join)
  moreover have "scrape_files s [] ?kvs = Some (Inr ?files)"
    using scrape_files_hashes [OF assms(1,3,4), of "[]"] by simp
  ultimately have "http_handle itoa ord s (scrape_url plain hs) ip is_v4 now interval =
      Some (s, Body (scrape_response itoa [] ?files))"
    by (simp add: http_handle_def http_scrape_def str_def)
  moreover have l: "\<forall>f \<in> set ?files. length (fst f) < 2 ^ 64"
    using assms(4) by (auto dest: in_set_takeD)
  have "read_body (scrape_response itoa [] ?files) = Some (BDict [(str ''files'',
      BDict (map (\<lambda>h. (h, BDict (file_dict (spec_counts (view s) h)))) (take 75 hs)))])"
    unfolding scrape_response_eq [OF assms(2) l, of "[]", unfolded append_Nil] read_body_ser
    by (simp add: comp_def)
  ultimately show ?thesis by blast
qed

theorem http_scrape_reply_witness:
  "\<exists>b. http_handle (\<lambda>v. dec (unat v)) rev store_new (scrape_url (\<lambda>b. False) [replicate 20 1])
      (replicate 16 3) False 1 1800 = Some (store_new, Body b)"
  using http_scrape_reply [OF store_ok_new itoa_decimal_dec, of "\<lambda>b. False" "[replicate 20 1]" rev
      "replicate 16 3" False 1 1800]
  by (auto simp: url_safe_def)

end
