(* ===== verification/L7.thy ===== *)
theory L7
  imports Core
begin

text \<open>
  crates/bf-l7/src/lib.rs: the behavioural detector. Times are seconds in \<open>u32\<close>; scores
  are \<open>u32\<close>, with the wrap-around of a release build where the code uses plain \<open>+=\<close> and
  saturation where it asks for it. The state behind the locks is the record \<open>detector\<close>;
  every handler takes the iteration orders of the two hash tables it may evict from.
\<close>

definition SHARDS :: nat where "SHARDS = 16"
definition RING :: nat where "RING = 8"

definition KNOWN_CLIENT_PREFIXES :: "string list" where
  "KNOWN_CLIENT_PREFIXES =
     [''-qB'', ''-TR'', ''-LT'', ''-lt'', ''-DE'', ''-UT'', ''-UM'', ''-AZ'', ''-BT'', ''-BL'', ''-TX'', ''-FD'',
      ''-D5'', ''-DE'', ''-KT'', ''-XL'', ''-WW'', ''M4-'', ''M5-'']"

definition starts_with :: "bytes \<Rightarrow> bytes \<Rightarrow> bool" where
  "starts_with b p \<longleftrightarrow> take (length p) b = p"

definition is_known_client :: "peer_id \<Rightarrow> bool" where
  "is_known_client pid \<longleftrightarrow> list_ex (\<lambda>p. starts_with pid (map of_char p)) KNOWN_CLIENT_PREFIXES"

record announce_info =
  ai_info_hash :: info_hash
  ai_peer_id :: peer_id
  ai_key :: u32
  ai_declared_ip :: u32
  ai_port :: u16
  ai_left :: u64
  ai_downloaded :: u64
  ai_uploaded :: u64
  ai_num_want :: i32
  ai_source_is_public :: bool
  ai_swarm_peers :: u32

record l7_config =
  reannounce_min_interval :: u32
  score_ban_threshold :: u32
  ban_duration :: u32
  max_entries :: nat
  weight_interval :: u32
  weight_connid :: u32
  weight_peerid :: u32
  decay_amount :: u32
  decay_interval :: u32
  weight_bad_key :: u32
  weight_declared_ip :: u32
  weight_bad_port :: u32
  weight_fake_seeder :: u32
  weight_key_churn :: u32
  weight_peerid_churn :: u32
  weight_numwant :: u32
  numwant_abuse :: i32
  weight_breadth :: u32
  breadth_threshold :: u32
  weight_empty_swarm :: u32
  empty_swarm_threshold :: u32
  weight_scrape_volume :: u32
  scrape_volume_threshold :: nat
  weight_connect_spam :: u32
  connect_burst :: u32
  max_offenders :: nat
  ban_tiers :: u32
  reban_cooldown :: u32
  fast_announce_gap :: u32

definition l7_config_default :: l7_config where
  "l7_config_default =
     \<lparr>reannounce_min_interval = 60, score_ban_threshold = 100, ban_duration = 3600,
      max_entries = 1000000, weight_interval = 20, weight_connid = 15, weight_peerid = 5,
      decay_amount = 1, decay_interval = 60, weight_bad_key = 40, weight_declared_ip = 60,
      weight_bad_port = 30, weight_fake_seeder = 50, weight_key_churn = 35,
      weight_peerid_churn = 35, weight_numwant = 10, numwant_abuse = 100, weight_breadth = 60,
      breadth_threshold = 32, weight_empty_swarm = 40, empty_swarm_threshold = 8,
      weight_scrape_volume = 15, scrape_volume_threshold = 32, weight_connect_spam = 25,
      connect_burst = 8, max_offenders = 5000000, ban_tiers = 4, reban_cooldown = 3600,
      fast_announce_gap = 300\<rparr>"

datatype verdict = Allow | Ban (ban_for: u32) (ban_tier: u32)

section \<open>One source\<close>

record seen_announce =
  sn_hash :: info_hash
  sn_at :: u32
  sn_key :: u32
  sn_peer :: u32

record client =
  score :: u32
  last_seen :: u32
  decay_at :: u32
  banned_until :: u32
  last_gap :: u32
  breadth :: u64
  connects :: u32
  empty_swarms :: u32
  ring :: "seen_announce option list"
  ring_pos :: nat

definition peer_fingerprint :: "peer_id \<Rightarrow> u32" where
  "peer_fingerprint pid = foldl (\<lambda>acc b. acc * 31 + ucast b) 0 (take 12 (drop 8 pid))"

definition breadth_bit :: "info_hash \<Rightarrow> u32" where
  "breadth_bit hash = ucast (drop_bit 58 ((from_le (take 8 hash) :: u64) * 0x9E3779B97F4A7C15))"

definition count_ones :: "u64 \<Rightarrow> u32" where
  "count_ones w = word_of_nat (length (filter (bit w) [0..<64]))"

definition client_new :: "u32 \<Rightarrow> client" where
  "client_new now =
     \<lparr>score = 0, last_seen = now, decay_at = now, banned_until = 0, last_gap = - 1, breadth = 0,
      connects = 0, empty_swarms = 0, ring = replicate RING None, ring_pos = 0\<rparr>"

definition decay :: "client \<Rightarrow> u32 \<Rightarrow> u32 \<Rightarrow> u32 \<Rightarrow> client" where
  "decay c now amount interval0 =
     (let c = c\<lparr>last_gap := sat_sub now (last_seen c)\<rparr>;
          interval = max interval0 1;
          steps = sat_sub now (decay_at c) div interval;
          c = (if steps > 0
               then c\<lparr>score := sat_sub (score c) (sat_mul steps amount),
                      decay_at := sat_add (decay_at c) (sat_mul steps interval)\<rparr>
               else c)
      in c\<lparr>last_seen := now\<rparr>)"

text \<open>The body of the loop over the ring, on the flags (interval, key churn, peer churn).\<close>

definition observe_one ::
  "announce_info \<Rightarrow> u32 \<Rightarrow> u32 \<Rightarrow> u32 \<Rightarrow> bool \<times> bool \<times> bool \<Rightarrow> seen_announce \<Rightarrow> bool \<times> bool \<times> bool" where
  "observe_one a now floor peer fl sn =
     (case fl of (interval, key_churn, peer_churn) \<Rightarrow>
        if sn_hash sn \<noteq> ai_info_hash a then (interval, key_churn, peer_churn)
        else (if sat_sub now (sn_at sn) < floor then True else interval,
              if sn_key sn \<noteq> ai_key a then True else key_churn,
              if sn_peer sn \<noteq> peer then True else peer_churn))"

text \<open>The write to \<open>ring[ring_pos]\<close> panics when the position is out of range.\<close>

definition observe ::
  "client \<Rightarrow> announce_info \<Rightarrow> u32 \<Rightarrow> u32 \<Rightarrow> u32 \<Rightarrow> (client \<times> bool \<times> bool \<times> bool) option" where
  "observe c a now floor peer =
     (let fl = foldl (observe_one a now floor peer) (False, False, False) (List.map_filter id (ring c))
      in if ring_pos c < length (ring c)
         then Some (c\<lparr>ring := (ring c)[ring_pos c := Some \<lparr>sn_hash = ai_info_hash a, sn_at = now,
                         sn_key = ai_key a, sn_peer = peer\<rparr>],
                      ring_pos := (ring_pos c + 1) mod RING\<rparr>, fl)
         else None)"

definition widen :: "client \<Rightarrow> info_hash \<Rightarrow> client \<times> u32" where
  "widen c hash =
     (let c = c\<lparr>breadth := breadth c OR push_bit (unat (breadth_bit hash)) 1\<rparr>
      in (c, count_ones (breadth c)))"

section \<open>The detector\<close>

record offender =
  of_offenses :: u32
  of_last :: u32

type_synonym ip16 = bytes \<comment> \<open>\<open>[u8; 16]\<close>\<close>
type_synonym client_shard = "(ip16, client) table"
type_synonym client_order = "(ip16 \<times> client) list \<Rightarrow> (ip16 \<times> client) list"
type_synonym offender_order = "(ip16 \<times> offender) list \<Rightarrow> (ip16 \<times> offender) list"

record detector =
  config :: l7_config
  clients :: "client_shard list"
  per_shard_cap :: nat
  offenders :: "(ip16, offender) table"

definition detector_new :: "l7_config \<Rightarrow> detector" where
  "detector_new cfg =
     \<lparr>config = cfg, clients = replicate SHARDS [],
      per_shard_cap = max (max_entries cfg div SHARDS) 1, offenders = []\<rparr>"

definition shard_no :: "ip16 \<Rightarrow> nat" where
  "shard_no ip = unat (ip ! 15) mod SHARDS"

definition client_shard_at :: "detector \<Rightarrow> ip16 \<Rightarrow> client_shard option" where
  "client_shard_at d ip =
     (if shard_no ip < length (clients d) then Some (clients d ! shard_no ip) else None)"

definition stateless_score :: "l7_config \<Rightarrow> announce_info \<Rightarrow> bool \<Rightarrow> u32" where
  "stateless_score c a fast =
     (let sc = 0;
          sc = (if ai_key a = 0 \<or> ai_key a = - 1 then sc + weight_bad_key c else sc);
          sc = (if ai_declared_ip a \<noteq> 0 \<and> ai_source_is_public a then sc + weight_declared_ip c else sc);
          sc = (if fast \<and> ai_port a < 1024 then sc + weight_bad_port c else sc);
          sc = (if fast \<and> ai_left a = 0 \<and> ai_downloaded a = 0 \<and> ai_uploaded a = 0
                then sc + weight_fake_seeder c else sc);
          sc = (if fast \<and> numwant_abuse c <s ai_num_want a then sc + weight_numwant c else sc)
      in sc)"

definition crosses :: "l7_config \<Rightarrow> client \<Rightarrow> u32 \<Rightarrow> client \<times> bool" where
  "crosses cfg c now =
     (if score c < score_ban_threshold cfg then (c, False)
      else if now < banned_until c then (c, False)
      else (c\<lparr>banned_until := sat_add now (reban_cooldown cfg)\<rparr>, True))"

definition record_offence :: "offender_order \<Rightarrow> detector \<Rightarrow> ip16 \<Rightarrow> u32 \<Rightarrow> detector \<times> u32" where
  "record_offence ord d ip now =
     (let reg = evict_oldest ord of_last (max_offenders (config d)) ip (offenders d);
          entry = (case map_of reg ip of Some e \<Rightarrow> e | None \<Rightarrow> \<lparr>of_offenses = 0, of_last = 0\<rparr>);
          entry = entry\<lparr>of_offenses := sat_add (of_offenses entry) 1\<rparr>;
          entry = entry\<lparr>of_last := now\<rparr>
      in (d\<lparr>offenders := AList.update ip entry reg\<rparr>,
          min (of_offenses entry - 1) (sat_sub (ban_tiers (config d)) 1)))"

definition decide :: "offender_order \<Rightarrow> detector \<Rightarrow> ip16 \<Rightarrow> bool \<Rightarrow> u32 \<Rightarrow> detector \<times> verdict" where
  "decide ord d ip ban now =
     (if \<not> ban then (d, Allow)
      else case record_offence ord d ip now of (d, tier) \<Rightarrow> (d, Ban (ban_duration (config d)) tier))"

definition touch :: "client_order \<Rightarrow> detector \<Rightarrow> client_shard \<Rightarrow> ip16 \<Rightarrow> u32 \<Rightarrow> client_shard \<times> client" where
  "touch ord d shard ip now =
     (let first_sighting = (map_of shard ip = None);
          shard = evict_oldest ord last_seen (per_shard_cap d) ip shard;
          c = (case map_of shard ip of Some c \<Rightarrow> c | None \<Rightarrow> client_new now);
          c = decay c now (decay_amount (config d)) (decay_interval (config d));
          c = (if first_sighting then c\<lparr>last_gap := - 1\<rparr> else c)
      in (shard, c))"

text \<open>Storing the client a handler worked on back into its shard.\<close>

definition put_client :: "detector \<Rightarrow> client_shard \<Rightarrow> ip16 \<Rightarrow> client \<Rightarrow> detector" where
  "put_client d shard ip c = d\<lparr>clients := (clients d)[shard_no ip := AList.update ip c shard]\<rparr>"

text \<open>What an announce does to its client before the threshold is tested.\<close>

definition score_announce :: "l7_config \<Rightarrow> announce_info \<Rightarrow> u32 \<Rightarrow> client \<Rightarrow> client option" where
  "score_announce cfg a now c =
     do {
       let peer = peer_fingerprint (ai_peer_id a);
       let c = c\<lparr>connects := 0\<rparr>;
       (c, interval, key_churn, peer_churn) \<leftarrow> observe c a now (reannounce_min_interval cfg) peer;
       let fast = last_gap c < fast_announce_gap cfg;
       let add = stateless_score cfg a fast;
       let add = (if interval then add + weight_interval cfg else add);
       let add = (if key_churn then add + weight_key_churn cfg else add);
       let add = (if peer_churn then add + weight_peerid_churn cfg else add);
       let add = (if \<not> is_known_client (ai_peer_id a) then add + weight_peerid cfg else add);
       let (c, add) =
         (if fast \<and> ai_swarm_peers a \<le> 1
          then (let c = c\<lparr>empty_swarms := sat_add (empty_swarms c) 1\<rparr>
                in if empty_swarms c > empty_swarm_threshold cfg
                   then (c, add + weight_empty_swarm cfg) else (c, add))
          else (c\<lparr>empty_swarms := 0\<rparr>, add));
       let (c, add) =
         (if fast
          then (case widen c (ai_info_hash a) of (c, n) \<Rightarrow>
                  if n \<ge> breadth_threshold cfg then (c, add + weight_breadth cfg) else (c, add))
          else (c, add));
       Some (c\<lparr>score := sat_add (score c) add\<rparr>)
     }"

definition on_announce ::
  "client_order \<Rightarrow> offender_order \<Rightarrow> detector \<Rightarrow> ip16 \<Rightarrow> announce_info \<Rightarrow> u32 \<Rightarrow> (detector \<times> verdict) option" where
  "on_announce oc oo d ip a now =
     do {
       shard \<leftarrow> client_shard_at d ip;
       let (shard, c) = touch oc d shard ip now;
       c \<leftarrow> score_announce (config d) a now c;
       let (c, ban) = crosses (config d) c now;
       Some (decide oo (put_client d shard ip c) ip ban now)
     }"

definition on_connid_mismatch ::
  "client_order \<Rightarrow> offender_order \<Rightarrow> detector \<Rightarrow> ip16 \<Rightarrow> u32 \<Rightarrow> (detector \<times> verdict) option" where
  "on_connid_mismatch oc oo d ip now =
     do {
       shard \<leftarrow> client_shard_at d ip;
       let (shard, c) = touch oc d shard ip now;
       let c = c\<lparr>score := sat_add (score c) (weight_connid (config d))\<rparr>;
       let (c, ban) = crosses (config d) c now;
       Some (decide oo (put_client d shard ip c) ip ban now)
     }"

definition on_scrape ::
  "client_order \<Rightarrow> offender_order \<Rightarrow> detector \<Rightarrow> ip16 \<Rightarrow> nat \<Rightarrow> u32 \<Rightarrow> (detector \<times> verdict) option" where
  "on_scrape oc oo d ip hashes now =
     do {
       shard \<leftarrow> client_shard_at d ip;
       let (shard, c) = touch oc d shard ip now;
       let c = c\<lparr>connects := 0\<rparr>;
       let c = (if hashes \<ge> scrape_volume_threshold (config d)
                then c\<lparr>score := sat_add (score c) (weight_scrape_volume (config d))\<rparr> else c);
       let (c, ban) = crosses (config d) c now;
       Some (decide oo (put_client d shard ip c) ip ban now)
     }"

definition on_connect ::
  "client_order \<Rightarrow> offender_order \<Rightarrow> detector \<Rightarrow> ip16 \<Rightarrow> u32 \<Rightarrow> (detector \<times> verdict) option" where
  "on_connect oc oo d ip now =
     do {
       shard \<leftarrow> client_shard_at d ip;
       let (shard, c) = touch oc d shard ip now;
       let c = c\<lparr>connects := sat_add (connects c) 1\<rparr>;
       let c = (if connects c > connect_burst (config d)
                then c\<lparr>score := sat_add (score c) (weight_connect_spam (config d))\<rparr> else c);
       let (c, ban) = crosses (config d) c now;
       Some (decide oo (put_client d shard ip c) ip ban now)
     }"

definition tracked :: "detector \<Rightarrow> nat" where
  "tracked d = sum_list (map length (clients d))"

definition offender_count :: "detector \<Rightarrow> nat" where
  "offender_count d = length (offenders d)"

end
