(* ===== verification/L7_Detector.thy ===== *)
theory L7_Detector
  imports L7_Props
begin

text \<open>
  The detector's handlers behind one contract: each touches its client, adjusts it, tests the
  threshold and decides. The locale \<open>source_event\<close> states that shape; its lemmas hold for the
  four handlers by interpretation.
\<close>

section \<open>Well-formed detectors\<close>

definition client_ok :: "client \<Rightarrow> bool" where
  "client_ok c \<longleftrightarrow> length (ring c) = RING \<and> ring_pos c < RING"

definition client_shard_ok :: "nat \<Rightarrow> client_shard \<Rightarrow> bool" where
  "client_shard_ok cap sh \<longleftrightarrow>
     distinct (map fst sh) \<and> length sh \<le> cap \<and> (\<forall>e \<in> set sh. client_ok (snd e))"

definition detector_ok :: "detector \<Rightarrow> bool" where
  "detector_ok d \<longleftrightarrow>
     length (clients d) = SHARDS \<and> per_shard_cap d = max (max_entries (config d) div SHARDS) 1 \<and>
     (\<forall>i < SHARDS. client_shard_ok (per_shard_cap d) (clients d ! i)) \<and>
     distinct (map fst (offenders d)) \<and> length (offenders d) \<le> max 1 (max_offenders (config d))"

definition client_at :: "detector \<Rightarrow> ip16 \<Rightarrow> client option" where
  "client_at d ip =
     (if shard_no ip < length (clients d) then map_of (clients d ! shard_no ip) ip else None)"

definition offences_of :: "detector \<Rightarrow> ip16 \<Rightarrow> u32" where
  "offences_of d ip = (case map_of (offenders d) ip of None \<Rightarrow> 0 | Some e \<Rightarrow> of_offenses e)"

lemma shard_no_bound [simp]: "shard_no ip < SHARDS"
  by (simp add: shard_no_def SHARDS_def)

lemma client_ok_new [simp]: "client_ok (client_new now)"
  by (simp add: client_ok_def client_new_def RING_def)

lemma client_ok_decay [simp]: "client_ok (decay c now a i) = client_ok c"
  by (simp add: client_ok_def)

lemma client_ok_fields [simp]:
  "client_ok (c\<lparr>score := x\<rparr>) = client_ok c" "client_ok (c\<lparr>connects := x\<rparr>) = client_ok c"
  "client_ok (c\<lparr>last_gap := x\<rparr>) = client_ok c" "client_ok (c\<lparr>banned_until := x\<rparr>) = client_ok c"
  "client_ok (c\<lparr>empty_swarms := x\<rparr>) = client_ok c" "client_ok (c\<lparr>breadth := y\<rparr>) = client_ok c"
  by (simp_all add: client_ok_def)

lemma detector_ok_new: "detector_ok (detector_new cfg)"
  by (simp add: detector_ok_def detector_new_def client_shard_ok_def)

lemma client_at_new [simp]: "client_at (detector_new cfg) ip = None"
  by (simp add: client_at_def detector_new_def)

section \<open>Touching a client\<close>

text \<open>The client a handler works on: the tracked one or a new one, decayed.\<close>

definition touched :: "detector \<Rightarrow> ip16 \<Rightarrow> u32 \<Rightarrow> client" where
  "touched d ip now =
     (case client_at d ip of
        Some c \<Rightarrow> decay c now (decay_amount (config d)) (decay_interval (config d))
      | None \<Rightarrow> (decay (client_new now) now (decay_amount (config d)) (decay_interval (config d)))
                  \<lparr>last_gap := - 1\<rparr>)"

lemma set_evict_subset: "set (evict_oldest ord stamp cap k m) \<subseteq> set m"
  by (auto simp: evict_oldest_def dest: subsetD [OF set_delete_subset] split: option.splits if_splits)

lemma map_of_evict:
  assumes "distinct (map fst m)"
  shows "map_of (evict_oldest ord stamp cap k m) j = map_of m j \<or>
    map_of (evict_oldest ord stamp cap k m) j = None"
  using assms by (auto simp: evict_oldest_def hm_simps split: option.split)

lemma evict_insert_grows:
  "distinct (map fst m) \<Longrightarrow> length (AList.update k v (evict_oldest ord stamp cap k m)) \<le> Suc (length m)"
  using evict_oldest_distinct [of m ord stamp cap k]
  by (auto simp: hm_simps) (auto simp: evict_oldest_def hm_simps split: option.splits if_splits)

lemma client_shard_at_ok:
  "detector_ok d \<Longrightarrow> client_shard_at d ip = Some (clients d ! shard_no ip)"
  by (simp add: client_shard_at_def detector_ok_def)

lemma shard_of_ok: "detector_ok d \<Longrightarrow> client_shard_ok (per_shard_cap d) (clients d ! shard_no ip)"
  unfolding detector_ok_def using shard_no_bound by blast

lemma client_at_shard: "detector_ok d \<Longrightarrow> client_at d ip = map_of (clients d ! shard_no ip) ip"
  by (simp add: client_at_def detector_ok_def)

lemma touch_eq:
  assumes "detector_ok d" "iteration_order oc"
  shows "touch oc d (clients d ! shard_no ip) ip now =
    (evict_oldest oc last_seen (per_shard_cap d) ip (clients d ! shard_no ip), touched d ip now)"
proof -
  have "distinct (map fst (clients d ! shard_no ip))"
    using shard_of_ok [OF assms(1)] by (simp add: client_shard_ok_def)
  from evict_oldest_get [OF this assms(2)] show ?thesis
    by (simp add: touch_def Let_def touched_def client_at_shard [OF assms(1)] split: option.split)
qed

lemma touched_ok: "detector_ok d \<Longrightarrow> client_ok (touched d ip now)"
  using shard_of_ok [of d ip]
  by (auto simp: touched_def client_at_shard client_shard_ok_def dest: map_of_SomeD split: option.split)

section \<open>Offences\<close>

lemma record_offence_spec:
  assumes "detector_ok d" "iteration_order oo"
  shows "\<exists>reg. record_offence oo d ip now = (d\<lparr>offenders := reg\<rparr>,
      min (sat_add (offences_of d ip) 1 - 1) (sat_sub (ban_tiers (config d)) 1)) \<and>
    detector_ok (d\<lparr>offenders := reg\<rparr>) \<and>
    offences_of (d\<lparr>offenders := reg\<rparr>) ip = sat_add (offences_of d ip) 1 \<and>
    length reg \<le> Suc (offender_count d) \<and>
    (offender_count d < max_offenders (config d) \<longrightarrow>
      (\<forall>j. j \<noteq> ip \<longrightarrow> offences_of (d\<lparr>offenders := reg\<rparr>) j = offences_of d j))"
proof -
  let ?reg = "evict_oldest oo of_last (max_offenders (config d)) ip (offenders d)"
  have d: "distinct (map fst (offenders d))" "length (offenders d) \<le> max 1 (max_offenders (config d))"
    using assms(1) by (simp_all add: detector_ok_def)
  have get: "map_of ?reg ip = map_of (offenders d) ip"
    using d(1) assms(2) by (rule evict_oldest_get)
  have dr: "distinct (map fst ?reg)" using d(1) by (rule evict_oldest_distinct)
  have len: "length (AList.update ip e ?reg) \<le> max 1 (max_offenders (config d))" for e
    using d assms(2) by (intro evict_insert_bounded)
  have ok: "detector_ok (d\<lparr>offenders := AList.update ip e ?reg\<rparr>)" for e
    using assms(1) dr len [of e] unfolding detector_ok_def by (auto simp: distinct_update)
  define e0 where "e0 = (case map_of (offenders d) ip of Some e \<Rightarrow> e | None \<Rightarrow> \<lparr>of_offenses = 0, of_last = 0\<rparr>)"
  define e where "e = e0\<lparr>of_offenses := sat_add (of_offenses e0) 1, of_last := now\<rparr>"
  have n: "of_offenses e0 = offences_of d ip"
    by (simp add: e0_def offences_of_def split: option.split)
  then have "of_offenses e = sat_add (offences_of d ip) 1" by (simp add: e_def)
  moreover from this have "record_offence oo d ip now = (d\<lparr>offenders := AList.update ip e ?reg\<rparr>,
      min (sat_add (offences_of d ip) 1 - 1) (sat_sub (ban_tiers (config d)) 1))"
    by (simp add: record_offence_def Let_def get n flip: e0_def) (simp add: e_def n)
  ultimately show ?thesis
    using ok [of e] evict_insert_grows [OF d(1)]
    by (intro exI [of _ "AList.update ip e ?reg"])
      (simp add: offences_of_def update_conv' offender_count_def evict_oldest_def)
qed

definition tier_for :: "detector \<Rightarrow> ip16 \<Rightarrow> u32" where
  "tier_for d ip = min (sat_add (offences_of d ip) 1 - 1) (sat_sub (ban_tiers (config d)) 1)"

lemma unat_tier_for:
  "unat (tier_for d ip) = min (min (unat (offences_of d ip)) (2 ^ 32 - 2)) (unat (ban_tiers (config d)) - 1)"
proof -
  have "unat (sat_add (offences_of d ip) 1 - 1) = min (unat (offences_of d ip)) (2 ^ 32 - 2)"
    using unat_le_u32 [of "offences_of d ip"]
    by (subst unat_sub) (auto simp: word_le_nat_alt unat_sat_add)
  moreover have "unat (min a b) = min (unat a) (unat b)" for a b :: u32
    by (simp add: min_def word_le_nat_alt)
  ultimately show ?thesis by (simp add: tier_for_def unat_sat_sub)
qed

section \<open>One handler\<close>

text \<open>What a handler that leaves the adjusted client \<open>c\<close> may do to the detector.\<close>

definition outcome :: "detector \<Rightarrow> ip16 \<Rightarrow> u32 \<Rightarrow> client \<Rightarrow> detector \<Rightarrow> verdict \<Rightarrow> bool" where
  "outcome d ip now c d' v \<longleftrightarrow>
     config d' = config d \<and> detector_ok d' \<and>
     client_at d' ip = Some (fst (crosses (config d) c now)) \<and>
     (\<forall>j. j \<noteq> ip \<longrightarrow> client_at d' j = client_at d j \<or> client_at d' j = None) \<and>
     (if snd (crosses (config d) c now)
      then v = Ban (ban_duration (config d)) (tier_for d ip) \<and>
        offences_of d' ip = sat_add (offences_of d ip) 1 \<and>
        offender_count d' \<le> Suc (offender_count d) \<and>
        (offender_count d < max_offenders (config d) \<longrightarrow>
          (\<forall>j. j \<noteq> ip \<longrightarrow> offences_of d' j = offences_of d j))
      else v = Allow \<and> offenders d' = offenders d)"

lemma crosses_ok [simp]: "client_ok (fst (crosses cfg c now)) = client_ok c"
  by (simp add: crosses_def)

lemma put_client_ok:
  fixes oc d ip
  defines "sh \<equiv> evict_oldest oc last_seen (per_shard_cap d) ip (clients d ! shard_no ip)"
  assumes "detector_ok d" "iteration_order oc" "client_ok c"
  shows "detector_ok (put_client d sh ip c) \<and> client_at (put_client d sh ip c) ip = Some c \<and>
    (\<forall>j. j \<noteq> ip \<longrightarrow> client_at (put_client d sh ip c) j = client_at d j \<or>
      client_at (put_client d sh ip c) j = None)"
proof -
  have d: "distinct (map fst (clients d ! shard_no ip))"
      "length (clients d ! shard_no ip) \<le> max 1 (per_shard_cap d)"
      "\<forall>e \<in> set (clients d ! shard_no ip). client_ok (snd e)"
    using shard_of_ok [OF assms(2), of ip] by (auto simp: client_shard_ok_def)
  have cap: "max 1 (per_shard_cap d) = per_shard_cap d"
    using assms(2) by (simp add: detector_ok_def)
  have n: "length (clients d) = SHARDS" using assms(2) by (simp add: detector_ok_def)
  have ds: "distinct (map fst sh)" unfolding sh_def using d(1) by (rule evict_oldest_distinct)
  have "length (AList.update ip c sh) \<le> per_shard_cap d"
    using evict_insert_bounded [OF d(1) assms(3) d(2)] unfolding sh_def cap .
  then have "client_shard_ok (per_shard_cap d) (AList.update ip c sh)"
    using ds d(3) assms(4) subsetD [OF set_evict_subset]
    by (fastforce simp: client_shard_ok_def distinct_update sh_def dest: set_update_subset)
  then have "detector_ok (put_client d sh ip c)"
    using assms(2) unfolding detector_ok_def put_client_def by (auto simp: nth_list_update)
  moreover have "client_at (put_client d sh ip c) ip = Some c"
    by (simp add: client_at_def put_client_def n update_conv')
  moreover have "client_at (put_client d sh ip c) j = client_at d j \<or>
      client_at (put_client d sh ip c) j = None" if "j \<noteq> ip" for j
  proof (cases "shard_no j = shard_no ip")
    case True
    with that map_of_evict [OF d(1), of oc last_seen "per_shard_cap d" ip j] show ?thesis
      by (simp add: client_at_def put_client_def n update_conv' sh_def)
  next
    case False
    then show ?thesis by (simp add: client_at_def put_client_def n)
  qed
  ultimately show ?thesis by blast
qed

locale source_event =
  fixes on :: "client_order \<Rightarrow> offender_order \<Rightarrow> detector \<Rightarrow> ip16 \<Rightarrow> u32 \<Rightarrow> (detector \<times> verdict) option"
    and adjust :: "l7_config \<Rightarrow> u32 \<Rightarrow> client \<Rightarrow> client option"
  assumes on_eq: "on oc oo d ip now =
      do {
        shard \<leftarrow> client_shard_at d ip;
        let (shard, c) = touch oc d shard ip now;
        c \<leftarrow> adjust (config d) now c;
        let (c, ban) = crosses (config d) c now;
        Some (decide oo (put_client d shard ip c) ip ban now)
      }"
    and adjust_ok: "client_ok c \<Longrightarrow> \<exists>c'. adjust cfg now c = Some c' \<and> client_ok c' \<and>
      banned_until c' = banned_until c \<and> last_seen c' = last_seen c"
begin

lemma on_spec:
  assumes "detector_ok d" "iteration_order oc" "iteration_order oo"
  obtains c d' v where "adjust (config d) now (touched d ip now) = Some c"
    "banned_until c = banned_until (touched d ip now)" "last_seen c = now"
    "on oc oo d ip now = Some (d', v)" "outcome d ip now c d' v"
proof -
  obtain c where c: "adjust (config d) now (touched d ip now) = Some c" "client_ok c"
      "banned_until c = banned_until (touched d ip now)" "last_seen c = last_seen (touched d ip now)"
    using adjust_ok [OF touched_ok [OF assms(1)]] by blast
  have ls: "last_seen (touched d ip now) = now" by (simp add: touched_def split: option.split)
  let ?cb = "fst (crosses (config d) c now)" and ?ban = "snd (crosses (config d) c now)"
  define d1 where
    "d1 = put_client d (evict_oldest oc last_seen (per_shard_cap d) ip (clients d ! shard_no ip)) ip ?cb"
  have d1: "detector_ok d1" "client_at d1 ip = Some ?cb"
      "\<forall>j. j \<noteq> ip \<longrightarrow> client_at d1 j = client_at d j \<or> client_at d1 j = None"
    using put_client_ok [OF assms(1,2), of ?cb ip] c(2) unfolding d1_def by auto
  have same: "config d1 = config d" "offenders d1 = offenders d" "offences_of d1 = offences_of d"
    by (simp_all add: d1_def put_client_def offences_of_def fun_eq_iff)
  have on: "on oc oo d ip now = Some (decide oo d1 ip ?ban now)"
    using c(1)
    by (simp add: on_eq client_shard_at_ok [OF assms(1)] touch_eq [OF assms(1,2)] d1_def case_prod_beta)
  obtain reg where reg: "record_offence oo d1 ip now = (d1\<lparr>offenders := reg\<rparr>, tier_for d ip)"
      "detector_ok (d1\<lparr>offenders := reg\<rparr>)"
      "offences_of (d1\<lparr>offenders := reg\<rparr>) ip = sat_add (offences_of d ip) 1"
      "offender_count (d1\<lparr>offenders := reg\<rparr>) \<le> Suc (offender_count d)"
      "offender_count d < max_offenders (config d) \<Longrightarrow>
        \<forall>j. j \<noteq> ip \<longrightarrow> offences_of (d1\<lparr>offenders := reg\<rparr>) j = offences_of d j"
    using record_offence_spec [OF d1(1) assms(3), of ip now] same
    by (auto simp: tier_for_def offender_count_def)
  have at: "client_at (d1\<lparr>offenders := reg\<rparr>) = client_at d1"
    by (simp add: client_at_def fun_eq_iff)
  show ?thesis
  proof (cases ?ban)
    case True
    with on reg have "on oc oo d ip now =
        Some (d1\<lparr>offenders := reg\<rparr>, Ban (ban_duration (config d)) (tier_for d ip))"
      by (simp add: decide_def same)
    moreover have "outcome d ip now c (d1\<lparr>offenders := reg\<rparr>) (Ban (ban_duration (config d)) (tier_for d ip))"
      unfolding outcome_def at using True reg(2-5) d1(2,3) same(1) by simp
    ultimately show ?thesis using that c(1,3,4) ls by simp
  next
    case False
    with on have "on oc oo d ip now = Some (d1, Allow)" by (simp add: decide_def)
    moreover have "outcome d ip now c d1 Allow"
      unfolding outcome_def using False d1 same(1,2) by simp
    ultimately show ?thesis using that c(1,3,4) ls by simp
  qed
qed

end

section \<open>The four handlers\<close>

lemma observe_total:
  "client_ok c \<Longrightarrow> \<exists>c' fl. observe c a now floor peer = Some (c', fl) \<and> client_ok c' \<and>
     banned_until c' = banned_until c \<and> last_seen c' = last_seen c"
  by (cases "foldl (observe_one a now floor peer) (False, False, False) (List.map_filter id (ring c))"
      rule: prod_cases3)
    (simp add: observe_def client_ok_def RING_def Let_def)

lemma score_announce_total:
  assumes "client_ok c"
  shows "\<exists>c'. score_announce cfg a now c = Some c' \<and> client_ok c' \<and>
    banned_until c' = banned_until c \<and> last_seen c' = last_seen c"
proof -
  have "client_ok (c\<lparr>connects := 0\<rparr>)" using assms by simp
  from observe_total [OF this, of a now "reannounce_min_interval cfg" "peer_fingerprint (ai_peer_id a)"]
  obtain c1 i k p where c1: "observe (c\<lparr>connects := 0\<rparr>) a now (reannounce_min_interval cfg)
      (peer_fingerprint (ai_peer_id a)) = Some (c1, i, k, p)"
    "client_ok c1" "banned_until c1 = banned_until c" "last_seen c1 = last_seen c"
    by (auto simp: split_paired_Ex)
  then show ?thesis
    by (auto simp: score_announce_def Let_def widen_def split: prod.splits)
qed

interpretation ann: source_event
  "\<lambda>oc oo d ip now. on_announce oc oo d ip a now" "\<lambda>cfg now c. score_announce cfg a now c" for a
  by unfold_locales (simp_all only: on_announce_def score_announce_total)

interpretation mis: source_event
  on_connid_mismatch "\<lambda>cfg now c. Some (c\<lparr>score := sat_add (score c) (weight_connid cfg)\<rparr>)"
  by unfold_locales (simp_all add: on_connid_mismatch_def)

interpretation scr: source_event
  "\<lambda>oc oo d ip now. on_scrape oc oo d ip n now"
  "\<lambda>cfg now c. Some (let c = c\<lparr>connects := 0\<rparr>
     in if n \<ge> scrape_volume_threshold cfg
        then c\<lparr>score := sat_add (score c) (weight_scrape_volume cfg)\<rparr> else c)" for n
  by unfold_locales (simp_all add: on_scrape_def Let_def)

interpretation con: source_event
  on_connect
  "\<lambda>cfg now c. Some (let c = c\<lparr>connects := sat_add (connects c) 1\<rparr>
     in if connects c > connect_burst cfg
        then c\<lparr>score := sat_add (score c) (weight_connect_spam cfg)\<rparr> else c)"
  by unfold_locales (simp_all add: on_connect_def Let_def)

end
