(* ===== verification/L7_Safety.thy ===== *)
theory L7_Safety
  imports L7_Detector Machine
begin

text \<open>
  The detector as a state machine: one step is one handler call, with any iteration order of
  the hash tables it evicts from. Boundedness, the ban rule, suppression during a cooldown,
  escalation, and the promise to well-behaved clients.
\<close>

section \<open>Steps and traces\<close>

datatype l7_event = AnnounceEv announce_info | MismatchEv | ScrapeEv nat | ConnectEv

fun l7_on ::
  "client_order \<Rightarrow> offender_order \<Rightarrow> detector \<Rightarrow> ip16 \<Rightarrow> u32 \<Rightarrow> l7_event \<Rightarrow> (detector \<times> verdict) option" where
  "l7_on oc oo d ip now (AnnounceEv a) = on_announce oc oo d ip a now"
| "l7_on oc oo d ip now MismatchEv = on_connid_mismatch oc oo d ip now"
| "l7_on oc oo d ip now (ScrapeEv n) = on_scrape oc oo d ip n now"
| "l7_on oc oo d ip now ConnectEv = on_connect oc oo d ip now"

fun l7_adjust :: "l7_config \<Rightarrow> u32 \<Rightarrow> l7_event \<Rightarrow> client \<Rightarrow> client option" where
  "l7_adjust cfg now (AnnounceEv a) c = score_announce cfg a now c"
| "l7_adjust cfg now MismatchEv c = Some (c\<lparr>score := sat_add (score c) (weight_connid cfg)\<rparr>)"
| "l7_adjust cfg now (ScrapeEv n) c = Some (let c = c\<lparr>connects := 0\<rparr>
     in if n \<ge> scrape_volume_threshold cfg
        then c\<lparr>score := sat_add (score c) (weight_scrape_volume cfg)\<rparr> else c)"
| "l7_adjust cfg now ConnectEv c = Some (let c = c\<lparr>connects := sat_add (connects c) 1\<rparr>
     in if connects c > connect_burst cfg
        then c\<lparr>score := sat_add (score c) (weight_connect_spam cfg)\<rparr> else c)"

lemma l7_on_spec:
  assumes "detector_ok d" "iteration_order oc" "iteration_order oo"
  obtains c d' v where "l7_adjust (config d) now ev (touched d ip now) = Some c"
    "banned_until c = banned_until (touched d ip now)" "last_seen c = now"
    "l7_on oc oo d ip now ev = Some (d', v)" "outcome d ip now c d' v"
proof (cases ev)
  case (AnnounceEv a)
  with that show ?thesis by (auto elim: ann.on_spec [OF assms, where now = now and a = a and ip = ip])
next
  case MismatchEv
  show ?thesis
    by (rule mis.on_spec [OF assms, where now = now and ip = ip], rule that,
      unfold MismatchEv l7_on.simps l7_adjust.simps) assumption+
next
  case (ScrapeEv n)
  show ?thesis
    by (rule scr.on_spec [OF assms, where now = now and n = n and ip = ip], rule that,
      unfold ScrapeEv l7_on.simps l7_adjust.simps) assumption+
next
  case ConnectEv
  show ?thesis
    by (rule con.on_spec [OF assms, where now = now and ip = ip], rule that,
      unfold ConnectEv l7_on.simps l7_adjust.simps) assumption+
qed

inductive l7_step :: "detector \<Rightarrow> ip16 \<Rightarrow> u32 \<Rightarrow> l7_event \<Rightarrow> detector \<Rightarrow> verdict \<Rightarrow> bool" where
  handled: "iteration_order oc \<Longrightarrow> iteration_order oo \<Longrightarrow> l7_on oc oo d ip now ev = Some (d', v) \<Longrightarrow>
    l7_step d ip now ev d' v"

inductive_cases l7_stepE: "l7_step d ip now ev d' v"

text \<open>As a machine whose events carry the source, the time and the verdict.\<close>

definition l7_labelled :: "detector \<Rightarrow> ip16 \<times> u32 \<times> l7_event \<times> verdict \<Rightarrow> detector \<Rightarrow> bool" where
  "l7_labelled d l d' \<longleftrightarrow> (case l of (ip, now, ev, v) \<Rightarrow> l7_step d ip now ev d' v)"

abbreviation l7_reach :: "l7_config \<Rightarrow> detector \<Rightarrow> bool" where
  "l7_reach cfg \<equiv> reach (\<lambda>d. d = detector_new cfg) l7_labelled"

lemma step_outcome:
  assumes "l7_step d ip now ev d' v" "detector_ok d"
  obtains c where "l7_adjust (config d) now ev (touched d ip now) = Some c"
    "banned_until c = banned_until (touched d ip now)" "last_seen c = now"
    "outcome d ip now c d' v"
  using assms(1)
proof (rule l7_stepE)
  fix oc oo
  assume o: "iteration_order oc" "iteration_order oo" "l7_on oc oo d ip now ev = Some (d', v)"
  show ?thesis
    by (rule l7_on_spec [OF assms(2) o(1,2), of now ev ip]) (use o(3) that in auto)
qed

lemma step_ok: "l7_step d ip now ev d' v \<Longrightarrow> detector_ok d \<Longrightarrow> detector_ok d' \<and> config d' = config d"
  by (erule step_outcome) (auto simp: outcome_def)

lemma l7_reach_new: "l7_reach cfg (detector_new cfg)"
  by (simp add: reach_init)

lemma l7_reach_step: "l7_reach cfg d \<Longrightarrow> l7_step d ip now ev d' v \<Longrightarrow> l7_reach cfg d'"
  by (rule reach_step [where e = "(ip, now, ev, v)"]) (simp_all add: l7_labelled_def)

interpretation det: machine "\<lambda>d. d = detector_new cfg" l7_labelled
  "\<lambda>d. detector_ok d \<and> config d = cfg" for cfg
proof unfold_locales
  fix d d' l
  show "d = detector_new cfg \<Longrightarrow> detector_ok d \<and> config d = cfg"
    using detector_ok_new by (simp add: detector_new_def)
  show "l7_labelled d l d' \<Longrightarrow> detector_ok d \<and> config d = cfg \<Longrightarrow> detector_ok d' \<and> config d' = cfg"
    by (cases l) (auto simp: l7_labelled_def dest: step_ok)
qed

lemma step_exists:
  assumes "detector_ok d"
  obtains d' v where "l7_step d ip now ev d' v"
  by (rule l7_on_spec [OF assms iteration_order_id iteration_order_id, of now ev ip])
    (use that in \<open>auto intro: l7_step.intros [OF iteration_order_id iteration_order_id]\<close>)

text \<open>C20. In every reachable state of the detector, whatever was fed to it and in
  whatever order its tables iterate, at most \<open>max 1 (max_entries / 16)\<close> sources per shard and
  \<open>max 1 max_offenders\<close> offenders are remembered, and the next event, whichever it is, is
  handled without a panic.\<close>

theorem detector_bounded:
  assumes "l7_reach cfg d" "iteration_order oc" "iteration_order oo"
  shows "tracked d \<le> SHARDS * max (max_entries cfg div SHARDS) 1 \<and>
    offender_count d \<le> max 1 (max_offenders cfg) \<and>
    (\<exists>d' v. l7_on oc oo d ip now ev = Some (d', v))"
proof -
  have ok: "detector_ok d" "config d = cfg" using det.reach_inv [OF assms(1)] by auto
  have "length sh \<le> per_shard_cap d" if "sh \<in> set (clients d)" for sh
    using ok that by (auto simp: detector_ok_def client_shard_ok_def in_set_conv_nth)
  then have "sum_list (map length (clients d)) \<le> sum_list (map (\<lambda>_. per_shard_cap d) (clients d))"
    by (rule sum_list_mono)
  moreover have "\<exists>d' v. l7_on oc oo d ip now ev = Some (d', v)"
    by (rule l7_on_spec [OF ok(1) assms(2,3), of now ev ip]) auto
  ultimately show ?thesis
    using ok by (auto simp: tracked_def offender_count_def detector_ok_def sum_list_triv)
qed

theorem detector_bounded_witness:
  "tracked (detector_new l7_config_default) \<le> SHARDS * max (max_entries l7_config_default div SHARDS) 1 \<and>
   (\<exists>d' v. l7_on rev rev (detector_new l7_config_default) [] 7 ConnectEv = Some (d', v))"
  using detector_bounded [OF l7_reach_new iteration_order_rev iteration_order_rev] by blast

section \<open>When a source is banned\<close>

lemma ban_rule_lemma:
  assumes "detector_ok d" "l7_step d ip now ev d' v"
  shows "\<exists>c. l7_adjust (config d) now ev (touched d ip now) = Some c \<and>
    (v \<noteq> Allow \<longleftrightarrow> score_ban_threshold (config d) \<le> score c \<and> banned_until (touched d ip now) \<le> now) \<and>
    (v \<noteq> Allow \<longrightarrow> ban_for v = ban_duration (config d)) \<and>
    client_at d' ip =
      Some (if v = Allow then c else c\<lparr>banned_until := sat_add now (reban_cooldown (config d))\<rparr>)"
  by (rule step_outcome [OF assms(2,1)])
    (auto simp: outcome_def crosses_def not_less split: if_splits)

lemma escalation_lemma:
  assumes "detector_ok d" "l7_step d ip now ev d' v"
  shows "(v \<noteq> Allow \<longrightarrow>
      unat (ban_tier v) =
        min (min (unat (offences_of d ip)) (2 ^ 32 - 2)) (unat (ban_tiers (config d)) - 1) \<and>
      unat (offences_of d' ip) = min (unat (offences_of d ip) + 1) (2 ^ 32 - 1)) \<and>
    (v = Allow \<longrightarrow> offenders d' = offenders d)"
  by (rule step_outcome [OF assms(2,1)])
    (auto simp: outcome_def unat_tier_for unat_sat_add split: if_splits)

text \<open>C14. An event bans its source exactly when the adjusted score has reached the
  threshold and the ban already issued has run out; the ban then carries the configured
  duration, and further bans are suppressed until \<open>reban_cooldown\<close> seconds later (saturating).\<close>

theorem ban_rule:
  assumes "detector_ok d" "l7_step d ip now ev d' v"
  shows "\<exists>c. l7_adjust (config d) now ev (touched d ip now) = Some c \<and>
    (v \<noteq> Allow \<longleftrightarrow> score_ban_threshold (config d) \<le> score c \<and> banned_until (touched d ip now) \<le> now) \<and>
    (v \<noteq> Allow \<longrightarrow> ban_for v = ban_duration (config d)) \<and>
    client_at d' ip =
      Some (if v = Allow then c else c\<lparr>banned_until := sat_add now (reban_cooldown (config d))\<rparr>)"
  using assms by (rule ban_rule_lemma)

theorem ban_rule_witness:
  "\<exists>d' v c. l7_step (detector_new l7_config_default) (replicate 16 1) 1000 ConnectEv d' v \<and>
    l7_adjust l7_config_default 1000 ConnectEv
      (touched (detector_new l7_config_default) (replicate 16 1) 1000) = Some c \<and>
    (v \<noteq> Allow \<longleftrightarrow> score_ban_threshold l7_config_default \<le> score c \<and>
      banned_until (touched (detector_new l7_config_default) (replicate 16 1) 1000) \<le> 1000)"
proof -
  obtain d' v where s: "l7_step (detector_new l7_config_default) (replicate 16 1) 1000 ConnectEv d' v"
    by (rule step_exists [OF detector_ok_new])
  from ban_rule [OF detector_ok_new s] s show ?thesis
    by (auto simp: detector_new_def)
qed

section \<open>Suppression\<close>

type_synonym trace_entry = "ip16 \<times> u32 \<times> l7_event \<times> verdict \<times> detector"

fun l7_trace :: "detector \<Rightarrow> trace_entry list \<Rightarrow> bool" where
  "l7_trace d [] \<longleftrightarrow> True"
| "l7_trace d ((ip, now, ev, v, d') # tr) \<longleftrightarrow> l7_step d ip now ev d' v \<and> l7_trace d' tr"

section \<open>Escalation\<close>

text \<open>The verdicts that ban \<open>ip\<close>, in order.\<close>

definition bans_of :: "ip16 \<Rightarrow> trace_entry list \<Rightarrow> verdict list" where
  "bans_of ip tr = [v. (j, now, ev, v, d) \<leftarrow> tr, j = ip \<and> v \<noteq> Allow]"

lemma bans_of_simps [simp]:
  "bans_of ip [] = []"
  "bans_of ip ((j, now, ev, v, d) # tr) = (if j = ip \<and> v \<noteq> Allow then [v] else []) @ bans_of ip tr"
  by (simp_all add: bans_of_def)

lemma bans_of_length: "length (bans_of ip tr) \<le> length tr"
  by (induction tr) auto

lemma step_offences:
  assumes "detector_ok d" "l7_step d j now ev d' v" "offender_count d < max_offenders (config d)"
  shows "offences_of d' ip =
    (if j = ip \<and> v \<noteq> Allow then sat_add (offences_of d ip) 1 else offences_of d ip)"
  by (rule step_outcome [OF assms(2,1)])
    (use assms(3) in \<open>auto simp: outcome_def offences_of_def [of d'] offences_of_def [of d] split: if_splits\<close>)

lemma step_count:
  assumes "detector_ok d" "l7_step d j now ev d' v"
  shows "offender_count d' \<le> Suc (offender_count d)"
  by (rule step_outcome [OF assms(2,1)]) (auto simp: outcome_def offender_count_def split: if_splits)

text \<open>C18. Repeat offenders escalate: as long as the registry of offenders is not full, the
  successive bans of a source carry the tiers \<open>n\<close>, \<open>n + 1\<close>, \<open>n + 2\<close> and so on, where \<open>n\<close> counts its
  earlier offences, none skipped or repeated until the last tier is reached, whatever the other
  sources do in between.\<close>

theorem escalation:
  assumes "detector_ok d" "l7_trace d tr" "offender_count d < max_offenders (config d)"
    and "\<forall>e \<in> set tr. offender_count (snd (snd (snd (snd e)))) < max_offenders (config d)"
    and "unat (offences_of d ip) + length tr < 2 ^ 32 - 1"
  shows "map (\<lambda>v. unat (ban_tier v)) (bans_of ip tr) =
    map (\<lambda>k. min k (unat (ban_tiers (config d)) - 1))
      [unat (offences_of d ip)..<unat (offences_of d ip) + length (bans_of ip tr)]"
  using assms
proof (induction d tr rule: l7_trace.induct)
  case (2 d j now ev v d' tr)
  then have s: "l7_step d j now ev d' v" by simp
  note off = step_offences [OF 2(2) s 2(4), of ip]
  have d': "detector_ok d'" "config d' = config d" using step_ok [OF s 2(2)] by auto
  show ?case
  proof (cases "j = ip \<and> v \<noteq> Allow")
    case False
    with off 2 d' show ?thesis by auto
  next
    case True
    let ?n = "unat (offences_of d ip)"
    have n: "unat (offences_of d' ip) = Suc ?n" using off True 2(6) by (simp add: unat_sat_add)
    have "unat (ban_tier v) = min ?n (unat (ban_tiers (config d)) - 1)"
      using escalation_lemma [OF 2(2) s] True 2(6) by simp
    moreover have "map (\<lambda>v. unat (ban_tier v)) (bans_of ip tr) =
        map (\<lambda>k. min k (unat (ban_tiers (config d)) - 1)) [Suc ?n..<Suc ?n + length (bans_of ip tr)]"
      using 2 d' n by simp
    moreover have "[?n..<?n + length (bans_of ip ((j, now, ev, v, d') # tr))] =
        ?n # [Suc ?n..<Suc ?n + length (bans_of ip tr)]"
      using True by (simp add: upt_conv_Cons del: upt_Suc)
    ultimately show ?thesis using True by (simp del: upt_Suc)
  qed
qed simp

theorem escalation_witness:
  "\<exists>d v1 d1 v2 d2. l7_step d (replicate 16 1) 1000 ConnectEv d1 v1 \<and>
     l7_step d1 (replicate 16 1) 1001 ConnectEv d2 v2 \<and> unat (ban_tier v1) = 0 \<and> unat (ban_tier v2) = 1"
proof -
  let ?cfg = "l7_config_default\<lparr>score_ban_threshold := 0, reban_cooldown := 0\<rparr>"
  let ?d = "detector_new ?cfg" and ?ip = "replicate 16 (1 :: u8)"
  have c: "config ?d = ?cfg" "score_ban_threshold ?cfg = 0" "reban_cooldown ?cfg = 0" "ban_tiers ?cfg = 4"
      "max_offenders ?cfg = 5000000" "offenders ?d = []"
    by (simp_all add: detector_new_def l7_config_default_def)
  obtain d1 v1 where s1: "l7_step ?d ?ip 1000 ConnectEv d1 v1" by (rule step_exists [OF detector_ok_new])
  have ok1: "detector_ok d1" "config d1 = ?cfg" using step_ok [OF s1 detector_ok_new] c by auto
  obtain d2 v2 where s2: "l7_step d1 ?ip 1001 ConnectEv d2 v2" by (rule step_exists [OF ok1(1)])
  have "banned_until (touched ?d ?ip 1000) = 0" by (simp add: touched_def client_new_def)
  with ban_rule_lemma [OF detector_ok_new s1] c have v1: "v1 \<noteq> Allow"
    and b1: "\<exists>c1. client_at d1 ?ip = Some c1 \<and> banned_until c1 = 1000"
    by (auto simp: sat_add_def)
  from b1 have "banned_until (touched d1 ?ip 1001) = 1000" by (auto simp: touched_def)
  with ban_rule_lemma [OF ok1(1) s2] ok1(2) c have v2: "v2 \<noteq> Allow" by auto
  have n: "offender_count ?d = 0" "offences_of ?d ?ip = 0" by (simp_all add: c offender_count_def offences_of_def)
  have "\<forall>e \<in> set [(?ip, 1000, ConnectEv, v1, d1), (?ip, 1001, ConnectEv, v2, d2)].
      offender_count (snd (snd (snd (snd e)))) < max_offenders (config ?d)"
    using step_count [OF detector_ok_new s1] step_count [OF ok1(1) s2] n c by simp
  with escalation [of ?d "[(?ip, 1000, ConnectEv, v1, d1), (?ip, 1001, ConnectEv, v2, d2)]" ?ip]
  have "unat (ban_tier v1) = 0 \<and> unat (ban_tier v2) = 1"
    using s1 s2 detector_ok_new v1 v2 n c by simp
  with s1 s2 show ?thesis by blast
qed

definition shielded :: "detector \<Rightarrow> ip16 \<Rightarrow> u32 \<Rightarrow> bool" where
  "shielded d ip u \<longleftrightarrow> (case client_at d ip of Some c \<Rightarrow> u \<le> banned_until c | None \<Rightarrow> False)"

lemma shielded_touched: "shielded d ip u \<Longrightarrow> u \<le> banned_until (touched d ip now)"
  by (auto simp: shielded_def touched_def split: option.splits)

lemma crosses_shield:
  assumes "u \<le> banned_until c"
  shows "u \<le> banned_until (fst (crosses cfg c now)) \<and> (now < u \<longrightarrow> \<not> snd (crosses cfg c now))"
proof (cases "now < banned_until c")
  case True
  with assms show ?thesis by (simp add: crosses_def)
next
  case False
  with assms have "u \<le> now" by simp
  with assms order.trans [OF this sat_add_ge] show ?thesis by (simp add: crosses_def not_less)
qed

lemma step_shielded:
  assumes "detector_ok d" "l7_step d j now ev d' v" "shielded d ip u" "client_at d' ip \<noteq> None"
  shows "shielded d' ip u \<and> (j = ip \<and> now < u \<longrightarrow> v = Allow)"
proof (cases "j = ip")
  case True
  obtain c where c: "banned_until c = banned_until (touched d j now)" "outcome d j now c d' v"
    using assms(2,1) by (rule step_outcome)
  from c(1) True shielded_touched [OF assms(3), of now] have "u \<le> banned_until c" by simp
  from crosses_shield [OF this, of "config d" now] True c(2) show ?thesis
    by (simp add: outcome_def shielded_def)
next
  case False
  obtain c where c: "outcome d j now c d' v" using assms(2,1) by (rule step_outcome)
  with False assms(4) have "client_at d' ip = client_at d ip" by (auto simp: outcome_def)
  with False assms(3) show ?thesis by (simp add: shielded_def)
qed

text \<open>C17. Once a source is banned at \<open>t\<close>, no event of the same source before
  \<open>t + reban_cooldown\<close> bans it again, whatever it and the others do, as long as the detector
  keeps tracking it.\<close>

theorem ban_suppressed_during_cooldown:
  assumes "detector_ok d0" "l7_step d0 ip t ev0 d (Ban dur tier)" "l7_trace d tr"
    and "\<forall>e \<in> set tr. client_at (snd (snd (snd (snd e)))) ip \<noteq> None"
    and "(ip, now, ev, v, d') \<in> set tr" "now < sat_add t (reban_cooldown (config d0))"
  shows "v = Allow"
proof -
  let ?u = "sat_add t (reban_cooldown (config d0))"
  have start: "shielded d ip ?u" "detector_ok d"
    using ban_rule_lemma [OF assms(1,2)] step_ok [OF assms(2,1)] by (auto simp: shielded_def)
  have "v = Allow" if "detector_ok d" "shielded d ip ?u" "l7_trace d tr"
      "\<forall>e \<in> set tr. client_at (snd (snd (snd (snd e)))) ip \<noteq> None"
      "(ip, now, ev, v, d') \<in> set tr" for d tr
    using that
  proof (induction tr arbitrary: d)
    case (Cons e tr)
    obtain j n ev1 v1 d1 where e: "e = (j, n, ev1, v1, d1)" by (cases e)
    with Cons.prems have s: "l7_step d j n ev1 d1 v1" "client_at d1 ip \<noteq> None" by auto
    from step_shielded [OF Cons.prems(1) s(1) Cons.prems(2) s(2)] step_ok [OF s(1) Cons.prems(1)]
    show ?case using Cons e assms(6) by auto
  qed simp
  with start assms(3,4,5) show ?thesis by blast
qed

theorem ban_suppressed_during_cooldown_witness:
  "\<exists>d0 d d' v. l7_step d0 (replicate 16 1) 1000 ConnectEv d (Ban 3600 0) \<and>
     l7_step d (replicate 16 1) 1001 MismatchEv d' v \<and> v = Allow"
proof -
  let ?cfg = "l7_config_default\<lparr>score_ban_threshold := 0\<rparr>" and ?ip = "replicate 16 (1 :: u8)"
  let ?d = "detector_new ?cfg"
  have c: "config ?d = ?cfg" "score_ban_threshold ?cfg = 0" "reban_cooldown ?cfg = 3600" "ban_duration ?cfg = 3600"
    by (simp_all add: detector_new_def l7_config_default_def)
  obtain d v0 where s0: "l7_step ?d ?ip 1000 ConnectEv d v0" by (rule step_exists [OF detector_ok_new])
  have "banned_until (touched ?d ?ip 1000) = 0" by (simp add: touched_def client_new_def)
  with ban_rule_lemma [OF detector_ok_new s0] c have "v0 \<noteq> Allow" "ban_for v0 = 3600" by auto
  moreover have "offences_of ?d ?ip = 0" by (simp add: offences_of_def detector_new_def)
  with escalation_lemma [OF detector_ok_new s0] \<open>v0 \<noteq> Allow\<close> have "unat (ban_tier v0) = 0" by simp
  then have "ban_tier v0 = 0" by (simp only: unat_eq_zero)
  ultimately have v0: "v0 = Ban 3600 0" by (cases v0) auto
  have ok: "detector_ok d" using step_ok [OF s0 detector_ok_new] by simp
  obtain d' v where s1: "l7_step d ?ip 1001 MismatchEv d' v" by (rule step_exists [OF ok])
  obtain c1 where "outcome d ?ip 1001 c1 d' v" by (rule step_outcome [OF s1 ok])
  then have "client_at d' ?ip \<noteq> None" by (simp add: outcome_def)
  then have "v = Allow"
    using s0 s1 c v0
    by (intro ban_suppressed_during_cooldown [where tr = "[(?ip, 1001, MismatchEv, v, d')]", OF detector_ok_new])
      (auto simp: sat_add_def)
  with s0 s1 v0 show ?thesis by blast
qed

end
