(* ===== verification/L7_Honest.thy ===== *)
theory L7_Honest
  imports L7_Safety
begin

text \<open>
  What the detector promises to a well-behaved client: a source whose own traffic is polite is
  never banned, whatever other sources do and whenever its entry is evicted. The last section
  shows where the promise of the code's comments is broken: the handshake that precedes an
  announce makes every announce count as fast.
\<close>

section \<open>Polite traffic\<close>

text \<open>The history of one source: its events with their times, the latest first.\<close>

type_synonym history = "(u32 \<times> l7_event) list"

text \<open>An announce whose shape is above suspicion even when it comes fast.\<close>

definition modest :: "l7_config \<Rightarrow> info_hash set \<Rightarrow> announce_info \<Rightarrow> bool" where
  "modest cfg H a \<longleftrightarrow>
     1024 \<le> ai_port a \<and> \<not> (ai_left a = 0 \<and> ai_downloaded a = 0 \<and> ai_uploaded a = 0) \<and>
     \<not> numwant_abuse cfg <s ai_num_want a \<and> 1 < ai_swarm_peers a \<and>
     card (breadth_bit ` H) < unat (breadth_threshold cfg)"

text \<open>
  The next event of a source is polite: an announce of a known client with its constant key
  and peer id, no spoofed address, the same torrent not more often than the configured floor,
  and either modest or after a quiet period; a scrape that is not bulk; a connect that does not
  exceed the tolerated burst of unused ids.
\<close>

definition pending :: "history \<Rightarrow> nat" where
  "pending hist = length (takeWhile (\<lambda>e. snd e = ConnectEv) hist)"

fun polite :: "l7_config \<Rightarrow> info_hash set \<Rightarrow> u32 \<Rightarrow> u32 \<Rightarrow> history \<Rightarrow> u32 \<Rightarrow> l7_event \<Rightarrow> bool" where
  "polite cfg H k fp hist now (AnnounceEv a) \<longleftrightarrow>
     is_known_client (ai_peer_id a) \<and> ai_key a = k \<and> peer_fingerprint (ai_peer_id a) = fp \<and>
     (ai_declared_ip a = 0 \<or> \<not> ai_source_is_public a) \<and> ai_info_hash a \<in> H \<and>
     (\<forall>t b. (t, AnnounceEv b) \<in> set hist \<and> ai_info_hash b = ai_info_hash a \<longrightarrow>
       reannounce_min_interval cfg \<le> sat_sub now t) \<and>
     (modest cfg H a \<or> (\<forall>e \<in> set hist. fast_announce_gap cfg \<le> sat_sub now (fst e)))"
| "polite cfg H k fp hist now (ScrapeEv n) \<longleftrightarrow> n < scrape_volume_threshold cfg"
| "polite cfg H k fp hist now ConnectEv \<longleftrightarrow> Suc (pending hist) \<le> unat (connect_burst cfg)"
| "polite cfg H k fp hist now MismatchEv \<longleftrightarrow> False"

section \<open>What the detector remembers of a polite source\<close>

definition entry_from :: "u32 \<Rightarrow> u32 \<Rightarrow> history \<Rightarrow> seen_announce \<Rightarrow> bool" where
  "entry_from k fp hist sn \<longleftrightarrow> sn_key sn = k \<and> sn_peer sn = fp \<and>
     (\<exists>a. (sn_at sn, AnnounceEv a) \<in> set hist \<and> ai_info_hash a = sn_hash sn)"

definition clean :: "info_hash set \<Rightarrow> u32 \<Rightarrow> u32 \<Rightarrow> history \<Rightarrow> client \<Rightarrow> bool" where
  "clean H k fp hist c \<longleftrightarrow>
     score c = 0 \<and> (\<forall>sn. Some sn \<in> set (ring c) \<longrightarrow> entry_from k fp hist sn) \<and>
     unat (connects c) \<le> pending hist \<and> (\<forall>i. bit (breadth c) i \<longrightarrow> i \<in> (\<lambda>h. unat (breadth_bit h)) ` H)"

definition clean_at :: "info_hash set \<Rightarrow> u32 \<Rightarrow> u32 \<Rightarrow> history \<Rightarrow> detector \<Rightarrow> ip16 \<Rightarrow> bool" where
  "clean_at H k fp hist d ip \<longleftrightarrow>
     (\<forall>c. client_at d ip = Some c \<longrightarrow> clean H k fp hist c \<and> last_seen c \<in> fst ` set hist)"

lemma clean_new: "clean H k fp hist (client_new now)"
  by (simp add: clean_def client_new_def)

lemma clean_decay: "clean H k fp hist c \<Longrightarrow> clean H k fp hist (decay c now a i)"
  by (simp add: clean_def decay_def Let_def)

lemma clean_gap [simp]: "clean H k fp hist (c\<lparr>last_gap := g\<rparr>) = clean H k fp hist c"
  by (simp add: clean_def)

lemma last_gap_decay [simp]: "last_gap (decay c now a i) = sat_sub now (last_seen c)"
  by (simp add: decay_def Let_def)

lemma touched_clean:
  assumes "clean_at H k fp hist d ip"
  shows "clean H k fp hist (touched d ip now) \<and>
    ((\<forall>e \<in> set hist. g \<le> sat_sub now (fst e)) \<longrightarrow> \<not> last_gap (touched d ip now) < g)"
proof (cases "client_at d ip")
  case None
  then show ?thesis by (simp add: touched_def clean_new clean_decay)
next
  case (Some c)
  with assms have "clean H k fp hist c" "last_seen c \<in> fst ` set hist" by (auto simp: clean_at_def)
  with Some show ?thesis by (auto simp: touched_def clean_decay not_less)
qed

lemma observe_silent:
  assumes "\<forall>sn \<in> set sns. sn_hash sn = ai_info_hash a \<longrightarrow>
    \<not> sat_sub now (sn_at sn) < floor \<and> sn_key sn = ai_key a \<and> sn_peer sn = peer"
  shows "foldl (observe_one a now floor peer) (False, False, False) sns = (False, False, False)"
  using assms by (induction sns) (auto simp: observe_one_def)

lemma breadth_bit_bound: "unat (breadth_bit h) < 64"
proof -
  have "unat (drop_bit 58 w) < 64" for w :: u64
    using unat_bound [of w]
    by (simp add: drop_bit_eq_div unat_div_distrib less_mult_imp_div_less)
  moreover have "unat (ucast w :: u32) = unat w" if "unat w < 64" for w :: u64
    using that by (simp add: unsigned_ucast_eq take_bit_eq_mod)
  ultimately show ?thesis unfolding breadth_bit_def by simp
qed

lemma count_ones_le:
  assumes "\<forall>i. bit w i \<longrightarrow> i \<in> (\<lambda>h. unat (breadth_bit h)) ` H"
  shows "unat (count_ones w) \<le> card (breadth_bit ` H)"
proof -
  let ?bits = "filter (bit w) [0..<64]"
  have "length ?bits = card (set ?bits)" by (rule distinct_card [symmetric]) simp
  also have "\<dots> \<le> card (unat ` breadth_bit ` H)"
  proof (rule card_mono)
    show "finite (unat ` breadth_bit ` H)" by simp
    show "set ?bits \<subseteq> unat ` breadth_bit ` H" using assms by (auto simp: image_image)
  qed
  also have "\<dots> \<le> card (breadth_bit ` H)" by (rule card_image_le) simp
  finally have "length ?bits \<le> card (breadth_bit ` H)" .
  moreover have "length ?bits \<le> 64" by (metis diff_zero length_filter_le length_upt)
  ultimately show ?thesis by (simp add: count_ones_def unat_of_nat)
qed

section \<open>Polite events keep the slate clean\<close>

lemma stateless_zero:
  assumes "ai_key a \<noteq> 0" "ai_key a \<noteq> - 1" "ai_declared_ip a = 0 \<or> \<not> ai_source_is_public a"
    and "fast \<longrightarrow> modest cfg H a"
  shows "stateless_score cfg a fast = 0"
  using assms by (auto simp: stateless_score_def modest_def not_less Let_def)

lemma clean_mono: "clean H k fp hist c \<Longrightarrow> connects c = 0 \<or> snd e = ConnectEv \<Longrightarrow> clean H k fp (e # hist) c"
  by (auto simp: clean_def entry_from_def pending_def)

lemma observe_clean:
  assumes "clean H k fp hist c" "client_ok c" "polite cfg H k fp hist now (AnnounceEv a)"
  shows "\<exists>c'. observe (c\<lparr>connects := 0\<rparr>) a now (reannounce_min_interval cfg) (peer_fingerprint (ai_peer_id a)) =
      Some (c', False, False, False) \<and> clean H k fp ((now, AnnounceEv a) # hist) c' \<and>
    last_gap c' = last_gap c"
proof -
  let ?sn = "\<lparr>sn_hash = ai_info_hash a, sn_at = now, sn_key = ai_key a, sn_peer = peer_fingerprint (ai_peer_id a)\<rparr>"
  have e: "entry_from k fp hist sn" if "Some sn \<in> set (ring c)" for sn
    using assms(1) that by (simp add: clean_def)
  have "foldl (observe_one a now (reannounce_min_interval cfg) (peer_fingerprint (ai_peer_id a)))
      (False, False, False) (List.map_filter id (ring c)) = (False, False, False)"
  proof (rule observe_silent, intro ballI impI)
    fix sn assume "sn \<in> set (List.map_filter id (ring c))" and h: "sn_hash sn = ai_info_hash a"
    then have "entry_from k fp hist sn" by (intro e) (auto simp: map_filter_def)
    with assms(3) h show "\<not> sat_sub now (sn_at sn) < reannounce_min_interval cfg \<and>
        sn_key sn = ai_key a \<and> sn_peer sn = peer_fingerprint (ai_peer_id a)"
      by (auto simp: entry_from_def not_less)
  qed
  moreover have "entry_from k fp ((now, AnnounceEv a) # hist) sn"
    if "Some sn \<in> set ((ring c)[ring_pos c := Some ?sn])" for sn
  proof -
    from that set_update_subset_insert [of "ring c" "ring_pos c" "Some ?sn"]
    consider "sn = ?sn" | "Some sn \<in> set (ring c)" by auto
    then show ?thesis
    proof cases
      case 1
      with assms(3) show ?thesis by (auto simp: entry_from_def)
    next
      case 2
      from e [OF this] show ?thesis by (auto simp: entry_from_def)
    qed
  qed
  then have "clean H k fp ((now, AnnounceEv a) # hist) (c\<lparr>connects := 0, ring := (ring c)[ring_pos c := Some ?sn],
      ring_pos := (ring_pos c + 1) mod RING\<rparr>)"
    using assms(1) by (simp add: clean_def)
  ultimately show ?thesis
    using assms(2) by (simp add: observe_def client_ok_def)
qed

lemma widen_clean:
  assumes "clean H k fp hist c" "h \<in> H" "widen c h = (c', n)"
  shows "clean H k fp hist c' \<and> unat n \<le> card (breadth_bit ` H)"
proof -
  have "\<forall>i. bit (breadth c OR push_bit (unat (breadth_bit h)) 1) i \<longrightarrow>
      i \<in> (\<lambda>h. unat (breadth_bit h)) ` H"
    using assms(1,2) by (auto simp: clean_def bit_or_iff bit_exp_iff)
  with assms(1,3) count_ones_le [OF this] show ?thesis
    by (auto simp: widen_def clean_def Let_def)
qed

lemma announce_clean:
  assumes "clean H k fp hist c" "client_ok c" "polite cfg H k fp hist now (AnnounceEv a)"
    and "k \<noteq> 0" "k \<noteq> - 1" "last_gap c < fast_announce_gap cfg \<longrightarrow> modest cfg H a"
    and "score_announce cfg a now c = Some c'"
  shows "clean H k fp ((now, AnnounceEv a) # hist) c'"
proof -
  let ?hist = "(now, AnnounceEv a) # hist"
  obtain c1 where c1: "observe (c\<lparr>connects := 0\<rparr>) a now (reannounce_min_interval cfg)
      (peer_fingerprint (ai_peer_id a)) = Some (c1, False, False, False)"
    "clean H k fp ?hist c1" "last_gap c1 = last_gap c"
    using observe_clean [OF assms(1-3)] by blast
  have p: "is_known_client (ai_peer_id a)" "ai_key a = k" "ai_info_hash a \<in> H"
    "ai_declared_ip a = 0 \<or> \<not> ai_source_is_public a"
    using assms(3) by simp_all
  have z: "stateless_score cfg a (last_gap c1 < fast_announce_gap cfg) = 0"
    using p assms(4-6) c1(3) by (intro stateless_zero) auto
  show ?thesis
  proof (cases "last_gap c < fast_announce_gap cfg")
    case False
    with c1 p z have "score_announce cfg a now c = Some (c1\<lparr>empty_swarms := 0, score := sat_add (score c1) 0\<rparr>)"
      by (simp add: score_announce_def Let_def)
    from trans [OF assms(7) [symmetric] this] have "c' = c1\<lparr>empty_swarms := 0, score := sat_add (score c1) 0\<rparr>"
      by (rule option.inject [THEN iffD1])
    with c1(2) show ?thesis by (simp add: clean_def)
  next
    case True
    then have m: "\<not> ai_swarm_peers a \<le> 1" "card (breadth_bit ` H) < unat (breadth_threshold cfg)"
      using assms(6) by (simp_all add: modest_def not_le)
    obtain c2 n where w: "widen (c1\<lparr>empty_swarms := 0\<rparr>) (ai_info_hash a) = (c2, n)" by fastforce
    have "clean H k fp ?hist (c1\<lparr>empty_swarms := 0\<rparr>)" using c1(2) by (simp add: clean_def)
    from widen_clean [OF this p(3) w] m(2) have c2: "clean H k fp ?hist c2" "\<not> breadth_threshold cfg \<le> n"
      by (auto simp: word_le_nat_alt)
    with c1 p z True m w have "score_announce cfg a now c = Some (c2\<lparr>score := sat_add (score c2) 0\<rparr>)"
      by (simp add: score_announce_def Let_def)
    from trans [OF assms(7) [symmetric] this] have "c' = c2\<lparr>score := sat_add (score c2) 0\<rparr>"
      by (rule option.inject [THEN iffD1])
    with c2(1) show ?thesis by (simp add: clean_def)
  qed
qed

lemma adjust_clean:
  assumes "clean H k fp hist c" "client_ok c" "polite cfg H k fp hist now ev"
    and "k \<noteq> 0" "k \<noteq> - 1"
    and "(\<forall>e \<in> set hist. fast_announce_gap cfg \<le> sat_sub now (fst e)) \<longrightarrow> \<not> last_gap c < fast_announce_gap cfg"
    and "l7_adjust cfg now ev c = Some c'"
  shows "clean H k fp ((now, ev) # hist) c'"
proof (cases ev)
  case (AnnounceEv a)
  with assms announce_clean [OF assms(1,2), of cfg now a c'] show ?thesis by auto
next
  case (ScrapeEv n)
  have "clean H k fp ((now, ev) # hist) (c\<lparr>connects := 0\<rparr>)"
    using assms(1) by (intro clean_mono) (auto simp: clean_def)
  with ScrapeEv assms(3,7) show ?thesis by (auto simp: Let_def)
next
  case ConnectEv
  have n: "unat (sat_add (connects c) 1) \<le> Suc (pending hist)"
    using assms(1) by (simp add: unat_sat_add clean_def min_le_iff_disj)
  moreover have "pending ((now, ConnectEv) # hist) = Suc (pending hist)" by (simp add: pending_def)
  ultimately have "clean H k fp ((now, ConnectEv) # hist) (c\<lparr>connects := sat_add (connects c) 1\<rparr>)"
    using assms(1) by (auto simp: clean_def entry_from_def)
  moreover have "\<not> sat_add (connects c) 1 > connect_burst cfg"
    using n assms(3) ConnectEv by (simp add: word_less_nat_alt)
  ultimately show ?thesis using ConnectEv assms(7) by (simp add: Let_def)
qed (use assms(3) in simp)

lemma step_clean:
  assumes "detector_ok d" "l7_step d j now ev d' v" "clean_at H k fp hist d ip"
    and "0 < score_ban_threshold (config d)" "k \<noteq> 0" "k \<noteq> - 1"
  shows "(j \<noteq> ip \<longrightarrow> clean_at H k fp hist d' ip) \<and>
    (j = ip \<and> polite (config d) H k fp hist now ev \<longrightarrow> v = Allow \<and> clean_at H k fp ((now, ev) # hist) d' ip)"
proof -
  obtain c where c: "l7_adjust (config d) now ev (touched d j now) = Some c" "last_seen c = now"
    "outcome d j now c d' v"
    using step_outcome [OF assms(2,1)] by metis
  have "clean_at H k fp hist d' ip" if "j \<noteq> ip"
    using c(3) assms(3) that by (auto simp: outcome_def clean_at_def)
  moreover have "v = Allow \<and> clean_at H k fp ((now, ev) # hist) d' ip"
    if j: "j = ip" and p: "polite (config d) H k fp hist now ev"
  proof -
    have cl: "clean H k fp ((now, ev) # hist) c"
      using touched_clean [OF assms(3), of now "fast_announce_gap (config d)"] c(1) j
      by (intro adjust_clean [OF _ touched_ok [OF assms(1)] p assms(5,6)]) auto
    then have "\<not> score_ban_threshold (config d) \<le> score c"
      using assms(4) by (simp add: clean_def)
    then have "crosses (config d) c now = (c, False)" by (simp add: crosses_def not_le)
    with c cl j show ?thesis by (simp add: outcome_def clean_at_def)
  qed
  ultimately show ?thesis by blast
qed

section \<open>The promise\<close>

fun polite_trace ::
  "l7_config \<Rightarrow> info_hash set \<Rightarrow> u32 \<Rightarrow> u32 \<Rightarrow> ip16 \<Rightarrow> history \<Rightarrow> trace_entry list \<Rightarrow> bool" where
  "polite_trace cfg H k fp ip hist [] \<longleftrightarrow> True"
| "polite_trace cfg H k fp ip hist ((j, now, ev, v, d') # tr) \<longleftrightarrow>
     (if j = ip then polite cfg H k fp hist now ev \<and> polite_trace cfg H k fp ip ((now, ev) # hist) tr
      else polite_trace cfg H k fp ip hist tr)"

text \<open>C15. A source whose own events are polite is never banned: whatever the other sources
  do, in whatever interleaving, under whatever iteration orders, and however often the detector
  forgets it and meets it again.\<close>

theorem polite_source_never_banned:
  assumes "0 < score_ban_threshold cfg" "k \<noteq> 0" "k \<noteq> - 1"
    and "l7_trace (detector_new cfg) tr" "polite_trace cfg H k fp ip [] tr"
    and "(ip, now, ev, v, d) \<in> set tr"
  shows "v = Allow"
proof -
  have "v = Allow" if "detector_ok d0" "config d0 = cfg" "clean_at H k fp hist d0 ip"
      "l7_trace d0 tr" "polite_trace cfg H k fp ip hist tr" "(ip, now, ev, v, d) \<in> set tr" for d0 hist tr
    using that
  proof (induction tr arbitrary: d0 hist)
    case (Cons e tr)
    obtain j n ev1 v1 d1 where e: "e = (j, n, ev1, v1, d1)" by (cases e)
    with Cons.prems have s: "l7_step d0 j n ev1 d1 v1" by simp
    have ok: "detector_ok d1" "config d1 = cfg" using step_ok [OF s Cons.prems(1)] Cons.prems(2) by auto
    have st: "0 < score_ban_threshold (config d0)" using assms(1) Cons.prems(2) by simp
    note step = step_clean [OF Cons.prems(1) s Cons.prems(3) st assms(2,3)]
    show ?case
    proof (cases "j = ip")
      case True
      with step Cons.prems e have "v1 = Allow" "clean_at H k fp ((n, ev1) # hist) d1 ip" by auto
      with Cons.IH [OF ok this(2)] Cons.prems e True show ?thesis by auto
    next
      case False
      with step have "clean_at H k fp hist d1 ip" by simp
      with Cons.IH [OF ok this] Cons.prems e False show ?thesis by auto
    qed
  qed simp
  moreover have "clean_at H k fp [] (detector_new cfg) ip" by (simp add: clean_at_def)
  ultimately show ?thesis
    using detector_ok_new [of cfg] assms(4-6) by (simp add: detector_new_def)
qed

theorem polite_source_never_banned_witness:
  "\<exists>d v. l7_trace (detector_new l7_config_default) [(replicate 16 1, 1000, ConnectEv, v, d)] \<and> v = Allow"
proof -
  obtain d v where s: "l7_step (detector_new l7_config_default) (replicate 16 1) 1000 ConnectEv d v"
    by (rule step_exists [OF detector_ok_new])
  then have tr: "l7_trace (detector_new l7_config_default) [(replicate 16 1, 1000, ConnectEv, v, d)]" by simp
  have "v = Allow"
    by (rule polite_source_never_banned [OF _ _ _ tr, where k = 1 and fp = 0 and H = "{}" and ip = "replicate 16 1"])
      (simp_all add: l7_config_default_def pending_def)
  with tr show ?thesis by blast
qed

section \<open>The handshake and the fast gate\<close>

text \<open>
  \<open>last_gap\<close> is the time since the source was last seen at all, and \<open>on_connect\<close> counts as
  seeing it. An announce that follows its own handshake by less than \<open>fast_announce_gap\<close>
  seconds is therefore always fast, however rarely the source announces.
\<close>

lemma gap_after_connect:
  assumes "detector_ok d" "l7_step d ip t ConnectEv d1 v"
  shows "last_gap (touched d1 ip t') = sat_sub t' t"
proof -
  obtain c where c: "last_seen c = t" "outcome d ip t c d1 v"
    using step_outcome [OF assms(2,1)] by metis
  then have "client_at d1 ip = Some (fst (crosses (config d) c t))" by (simp add: outcome_def)
  with c(1) show ?thesis by (simp add: touched_def crosses_def)
qed

text \<open>A seeder of files it already had: nothing left, nothing transferred, nothing else suspicious.\<close>

definition idle_seeder :: "announce_info \<Rightarrow> bool" where
  "idle_seeder a \<longleftrightarrow>
     is_known_client (ai_peer_id a) \<and> ai_key a \<noteq> 0 \<and> ai_key a \<noteq> - 1 \<and>
     (ai_declared_ip a = 0 \<or> \<not> ai_source_is_public a) \<and> 1024 \<le> ai_port a \<and>
     ai_left a = 0 \<and> ai_downloaded a = 0 \<and> ai_uploaded a = 0 \<and>
     \<not> 100 <s ai_num_want a \<and> 1 < ai_swarm_peers a"

text \<open>Its client: the score, the time of its last event, the latest announce it made.\<close>

definition steady :: "announce_info \<Rightarrow> nat \<Rightarrow> u32 \<Rightarrow> nat \<Rightarrow> client \<Rightarrow> bool" where
  "steady a s t r c \<longleftrightarrow>
     unat (score c) = s \<and> decay_at c = t \<and> last_seen c = t \<and> banned_until c = 0 \<and>
     unat (connects c) \<le> 1 \<and> client_ok c \<and>
     (\<forall>sn. Some sn \<in> set (ring c) \<longrightarrow> sn_key sn = ai_key a \<and>
       sn_peer sn = peer_fingerprint (ai_peer_id a) \<and> unat (sn_at sn) \<le> r) \<and>
     (\<forall>i. bit (breadth c) i \<longrightarrow> i \<in> (\<lambda>h. unat (breadth_bit h)) ` {ai_info_hash a})"

lemma steady_decay:
  assumes "steady a s t r c" "unat t' = unat t + 60 * n"
  shows "steady a (s - n) t' r (decay c t' 1 60) \<and> last_gap (decay c t' 1 60) = sat_sub t' t"
proof -
  have w: "whole c t' 60 = n"
    using assms by (simp add: steady_def max_def word_le_nat_alt)
  have "unat (decay_at (decay c t' 1 60)) = unat t'"
    unfolding decay_anchor w using assms by (simp add: steady_def max_def word_le_nat_alt mult.commute)
  then have "decay_at (decay c t' 1 60) = t'" by (simp only: word_unat_eq_iff)
  moreover have "unat (score (decay c t' 1 60)) = s - n"
    unfolding decay_score w using assms(1) by (simp add: steady_def)
  ultimately show ?thesis
    using assms(1) by (simp add: steady_def)
qed

lemma default_fields:
  "reannounce_min_interval l7_config_default = 60" "fast_announce_gap l7_config_default = 300"
  "score_ban_threshold l7_config_default = 100" "ban_duration l7_config_default = 3600"
  "decay_amount l7_config_default = 1" "decay_interval l7_config_default = 60"
  "connect_burst l7_config_default = 8" "breadth_threshold l7_config_default = 32"
  by (simp_all add: l7_config_default_def)

lemma steady_connect:
  assumes "steady a s t r c" "connects c = 0" "l7_adjust l7_config_default now ConnectEv c = Some c'"
  shows "steady a s t r c' \<and> c' = c\<lparr>connects := 1\<rparr>"
  using assms by (auto simp: steady_def l7_config_default_def sat_add_def Let_def)

lemma steady_announce:
  assumes "steady a s t r c" "idle_seeder a" "r + 60 \<le> unat t" "last_gap c < 300" "s < 1000"
    and "l7_adjust l7_config_default t (AnnounceEv a) c = Some c'"
  shows "steady a (s + 50) t (unat t) c' \<and> connects c' = 0"
proof -
  let ?fp = "peer_fingerprint (ai_peer_id a)" and ?cfg = l7_config_default
  let ?sn = "\<lparr>sn_hash = ai_info_hash a, sn_at = t, sn_key = ai_key a, sn_peer = ?fp\<rparr>"
  define c1 where "c1 = c\<lparr>connects := 0, ring := (ring c)[ring_pos c := Some ?sn],
      ring_pos := (ring_pos c + 1) mod RING\<rparr>"
  have e: "sn_key sn = ai_key a \<and> sn_peer sn = ?fp \<and> unat (sn_at sn) \<le> r" if "Some sn \<in> set (ring c)" for sn
    using assms(1) that by (simp add: steady_def)
  have "foldl (observe_one a t 60 ?fp) (False, False, False) (List.map_filter id (ring c)) = (False, False, False)"
  proof (rule observe_silent, intro ballI impI)
    fix sn assume "sn \<in> set (List.map_filter id (ring c))"
    then have "Some sn \<in> set (ring c)" by (auto simp: map_filter_def)
    from e [OF this] assms(3) show "\<not> sat_sub t (sn_at sn) < 60 \<and> sn_key sn = ai_key a \<and> sn_peer sn = ?fp"
      by (auto simp: word_less_nat_alt unat_sat_sub)
  qed
  have gap: "last_gap c1 = last_gap c" by (simp add: c1_def)
  from \<open>foldl _ _ _ = _\<close> have ob: "observe (c\<lparr>connects := 0\<rparr>) a t 60 ?fp = Some (c1, False, False, False)"
    using assms(1) by (simp add: observe_def steady_def client_ok_def c1_def)
  have "sn_key sn = ai_key a \<and> sn_peer sn = ?fp \<and> unat (sn_at sn) \<le> unat t"
    if "Some sn \<in> set ((ring c)[ring_pos c := Some ?sn])" for sn
  proof -
    from that set_update_subset_insert [of "ring c" "ring_pos c" "Some ?sn"]
    consider "sn = ?sn" | "Some sn \<in> set (ring c)" by auto
    then show ?thesis using e assms(3) by cases fastforce+
  qed
  then have c1: "steady a s t (unat t) (c1\<lparr>empty_swarms := 0\<rparr>)"
    using assms(1) by (simp add: steady_def c1_def client_ok_def RING_def)
  obtain c2 n where w: "widen (c1\<lparr>empty_swarms := 0\<rparr>) (ai_info_hash a) = (c2, n)" by fastforce
  then have c2: "c2 = c1\<lparr>empty_swarms := 0, breadth := breadth c1 OR push_bit (unat (breadth_bit (ai_info_hash a))) 1\<rparr>"
    and n: "n = count_ones (breadth c2)"
    by (auto simp: widen_def Let_def)
  have b: "\<forall>i. bit (breadth c2) i \<longrightarrow> i \<in> (\<lambda>h. unat (breadth_bit h)) ` {ai_info_hash a}"
    using assms(1) by (auto simp: c2 c1_def steady_def bit_or_iff bit_exp_iff)
  have n32: "(32 \<le> n) = False" using count_ones_le [OF b] by (simp add: n word_le_nat_alt)
  have sw: "(ai_swarm_peers a \<le> 1) = False" using assms(2) by (simp add: idle_seeder_def not_le)
  have "is_known_client (ai_peer_id a)" using assms(2) by (simp add: idle_seeder_def)
  moreover have "stateless_score ?cfg a True = 50"
    using assms(2) by (auto simp: stateless_score_def idle_seeder_def l7_config_default_def not_less Let_def)
  ultimately have "score_announce ?cfg a t c = Some (c2\<lparr>score := sat_add (score c2) 50\<rparr>)"
    using assms(4) ob w gap by (simp add: score_announce_def default_fields n32 sw Let_def)
  with assms(6) have c': "c' = c2\<lparr>score := sat_add (score c2) 50\<rparr>" by simp
  have "unat (sat_add (score c) 50) = s + 50"
    using assms(1,5) by (simp add: unat_sat_add steady_def)
  then show ?thesis
    unfolding c' using c1 b by (simp add: c2 c1_def steady_def client_ok_def)
qed

text \<open>One round: the handshake and the announce, at the same second.\<close>

definition seeder_at :: "announce_info \<Rightarrow> nat \<Rightarrow> u32 \<Rightarrow> detector \<Rightarrow> ip16 \<Rightarrow> bool" where
  "seeder_at a s t d ip \<longleftrightarrow> detector_ok d \<and> config d = l7_config_default \<and> offences_of d ip = 0 \<and>
     (\<exists>c. client_at d ip = Some c \<and> steady a s t (unat t) c \<and> connects c = 0)"

lemma crosses_steady:
  assumes "steady a s t r c"
  shows "snd (crosses l7_config_default c t) \<longleftrightarrow> 100 \<le> s"
    and "s < 100 \<Longrightarrow> fst (crosses l7_config_default c t) = c"
  using assms by (auto simp: crosses_def default_fields steady_def word_less_nat_alt)

lemma seeder_round_core:
  assumes "detector_ok d" "config d = l7_config_default" "offences_of d ip = 0"
    and "steady a s t r (touched d ip t)" "connects (touched d ip t) = 0"
    and "idle_seeder a" "r + 60 \<le> unat t" "s < 100"
    and "l7_step d ip t ConnectEv d1 v1" "l7_step d1 ip t (AnnounceEv a) d2 v2"
  shows "v1 = Allow \<and> (s < 50 \<longrightarrow> v2 = Allow \<and> seeder_at a (s + 50) t d2 ip) \<and>
    (50 \<le> s \<longrightarrow> v2 = Ban 3600 0)"
proof -
  obtain c where c: "l7_adjust l7_config_default t ConnectEv (touched d ip t) = Some c"
    "outcome d ip t c d1 v1"
    using step_outcome [OF assms(9,1)] assms(2) by metis
  have st: "steady a s t r c" using steady_connect [OF assms(4,5) c(1)] by (rule conjunct1)
  from c(2) crosses_steady [OF st] assms(2,8) have d1: "config d1 = l7_config_default" "detector_ok d1"
    "client_at d1 ip = Some c" "v1 = Allow" "offences_of d1 ip = 0"
    by (simp_all add: outcome_def offences_of_def assms(3) [unfolded offences_of_def])
  have t1: "touched d1 ip t = decay c t 1 60" by (simp add: touched_def d1 default_fields)
  have st1: "steady a s t r (touched d1 ip t)" "last_gap (touched d1 ip t) = 0"
    unfolding t1 using steady_decay [OF st, of t 0] by simp_all
  obtain c' where c': "l7_adjust l7_config_default t (AnnounceEv a) (touched d1 ip t) = Some c'"
    "outcome d1 ip t c' d2 v2"
    using step_outcome [OF assms(10) d1(2)] d1(1) by metis
  have st': "steady a (s + 50) t (unat t) c'" "connects c' = 0"
    using steady_announce [OF st1(1) assms(6,7) _ _ c'(1)] st1(2) assms(8) by simp_all
  have tier: "tier_for d1 ip = 0"
    using unat_tier_for [of d1 ip] by (simp add: d1(5) flip: unat_eq_zero)
  show ?thesis
    using c'(2) crosses_steady [OF st'(1)] st' d1 tier
    by (auto simp: outcome_def seeder_at_def offences_of_def default_fields)
qed

lemma seeder_round:
  assumes "seeder_at a s t d ip" "idle_seeder a" "unat t' = unat t + 1800" "s < 130"
    and "l7_step d ip t' ConnectEv d1 v1" "l7_step d1 ip t' (AnnounceEv a) d2 v2"
  shows "v1 = Allow \<and> (s - 30 < 50 \<longrightarrow> v2 = Allow \<and> seeder_at a (s - 30 + 50) t' d2 ip) \<and>
    (50 \<le> s - 30 \<longrightarrow> v2 = Ban 3600 0)"
proof -
  obtain c where c: "client_at d ip = Some c" "steady a s t (unat t) c" "connects c = 0"
    and d: "detector_ok d" "config d = l7_config_default" "offences_of d ip = 0"
    using assms(1) by (auto simp: seeder_at_def)
  have t: "touched d ip t' = decay c t' 1 60" by (simp add: touched_def c d default_fields)
  have "steady a (s - 30) t' (unat t) (touched d ip t')"
    unfolding t using steady_decay [OF c(2), of t' 30] assms(3) by simp
  moreover have "connects (touched d ip t') = 0" by (simp add: t c(3))
  moreover have "unat t + 60 \<le> unat t'" "s - 30 < 100" using assms(3,4) by linarith+
  ultimately show ?thesis by (intro seeder_round_core [OF d _ _ assms(2) _ _ assms(5,6)])
qed

lemma seeder_first_round:
  assumes "idle_seeder a" "60 \<le> unat t"
    and "l7_step (detector_new l7_config_default) ip t ConnectEv d1 v1" "l7_step d1 ip t (AnnounceEv a) d2 v2"
  shows "v1 = Allow \<and> v2 = Allow \<and> seeder_at a 50 t d2 ip"
proof -
  let ?d = "detector_new l7_config_default"
  have d: "detector_ok ?d" "config ?d = l7_config_default" "offences_of ?d ip = 0"
    using detector_ok_new by (simp_all add: detector_new_def offences_of_def)
  have t: "touched ?d ip t = (decay (client_new t) t 1 60)\<lparr>last_gap := - 1\<rparr>"
    by (simp add: touched_def d default_fields)
  have "steady a 0 t 0 (client_new t)" by (simp add: steady_def client_new_def client_ok_def RING_def)
  from steady_decay [OF this, of t 0] have "steady a 0 t 0 (touched ?d ip t)"
    unfolding t by (simp add: steady_def)
  moreover have "connects (touched ?d ip t) = 0" by (simp add: t client_new_def)
  ultimately show ?thesis
    using seeder_round_core [OF d _ _ assms(1) _ _ assms(3,4), of 0 0] assms(2) by simp
qed

text \<open>The verdicts a source gets for a sequence of its events.\<close>

fun source_run :: "detector \<Rightarrow> ip16 \<Rightarrow> (u32 \<times> l7_event) list \<Rightarrow> verdict list \<Rightarrow> bool" where
  "source_run d ip [] vs \<longleftrightarrow> vs = []"
| "source_run d ip ((now, ev) # es) vs \<longleftrightarrow>
     (\<exists>d' v vs'. l7_step d ip now ev d' v \<and> vs = v # vs' \<and> source_run d' ip es vs')"

text \<open>C16. The fast gate measures the time since any contact, not between announces. A
  seeder of files it already had that announces every half hour, and connects just before each
  announce as BEP-15 demands, is banned at its fourth announce under the default configuration.\<close>

theorem handshake_defeats_fast_gate:
  assumes "idle_seeder a" "60 \<le> unat t" "unat t + 3 * 1800 < 2 ^ 32"
    and "source_run (detector_new l7_config_default) ip
      [(t, ConnectEv), (t, AnnounceEv a), (t + 1800, ConnectEv), (t + 1800, AnnounceEv a),
       (t + 3600, ConnectEv), (t + 3600, AnnounceEv a), (t + 5400, ConnectEv), (t + 5400, AnnounceEv a)] vs"
  shows "vs = [Allow, Allow, Allow, Allow, Allow, Allow, Allow, Ban 3600 0]"
proof -
  have t: "unat (t + 1800) = unat t + 1800" "unat (t + 3600) = unat (t + 1800) + 1800"
    "unat (t + 5400) = unat (t + 3600) + 1800"
    using assms(3) by (simp_all add: unat_word_ariths)
  obtain d1 d2 d3 d4 d5 d6 d7 d8 v1 v2 v3 v4 v5 v6 v7 v8 where vs: "vs = [v1, v2, v3, v4, v5, v6, v7, v8]"
    and s: "l7_step (detector_new l7_config_default) ip t ConnectEv d1 v1" "l7_step d1 ip t (AnnounceEv a) d2 v2"
      "l7_step d2 ip (t + 1800) ConnectEv d3 v3" "l7_step d3 ip (t + 1800) (AnnounceEv a) d4 v4"
      "l7_step d4 ip (t + 3600) ConnectEv d5 v5" "l7_step d5 ip (t + 3600) (AnnounceEv a) d6 v6"
      "l7_step d6 ip (t + 5400) ConnectEv d7 v7" "l7_step d7 ip (t + 5400) (AnnounceEv a) d8 v8"
    using assms(4) by auto
  from seeder_first_round [OF assms(1,2) s(1,2)] have r1: "v1 = Allow" "v2 = Allow" "seeder_at a 50 t d2 ip"
    by simp_all
  from seeder_round [OF r1(3) assms(1) t(1) _ s(3,4)]
  have r2: "v3 = Allow" "v4 = Allow" "seeder_at a 70 (t + 1800) d4 ip" by simp_all
  from seeder_round [OF r2(3) assms(1) t(2) _ s(5,6)]
  have r3: "v5 = Allow" "v6 = Allow" "seeder_at a 90 (t + 3600) d6 ip" by simp_all
  from seeder_round [OF r3(3) assms(1) t(3) _ s(7,8)]
  have "v7 = Allow" "v8 = Ban 3600 0" by simp_all
  with r1 r2 r3 vs show ?thesis by simp
qed

lemma source_run_exists: "detector_ok d \<Longrightarrow> \<exists>vs. source_run d ip es vs"
proof (induction es arbitrary: d)
  case (Cons e es)
  obtain now ev where e: "e = (now, ev)" by (cases e)
  obtain d' v where s: "l7_step d ip now ev d' v" by (rule step_exists [OF Cons.prems])
  with step_ok [OF s Cons.prems] Cons.IH [of d'] show ?case by (auto simp: e)
qed (metis source_run.simps(1))

definition patient_seeder :: announce_info where
  "patient_seeder =
     \<lparr>ai_info_hash = replicate 20 3, ai_peer_id = map of_char ''-qB5000-'' @ replicate 12 7,
      ai_key = 0x1234, ai_declared_ip = 0, ai_port = 6881, ai_left = 0, ai_downloaded = 0,
      ai_uploaded = 0, ai_num_want = 50, ai_source_is_public = True, ai_swarm_peers = 5\<rparr>"

theorem handshake_defeats_fast_gate_witness:
  "\<exists>vs. source_run (detector_new l7_config_default) (replicate 16 1)
      [(1000, ConnectEv), (1000, AnnounceEv patient_seeder), (2800, ConnectEv), (2800, AnnounceEv patient_seeder),
       (4600, ConnectEv), (4600, AnnounceEv patient_seeder), (6400, ConnectEv), (6400, AnnounceEv patient_seeder)] vs \<and>
    last vs = Ban 3600 0"
proof -
  have i: "idle_seeder patient_seeder"
    by (simp add: idle_seeder_def patient_seeder_def is_known_client_def KNOWN_CLIENT_PREFIXES_def
        starts_with_def word_sless_alt)
  obtain vs where vs: "source_run (detector_new l7_config_default) (replicate 16 1)
      [(1000, ConnectEv), (1000, AnnounceEv patient_seeder), (2800, ConnectEv), (2800, AnnounceEv patient_seeder),
       (4600, ConnectEv), (4600, AnnounceEv patient_seeder), (6400, ConnectEv), (6400, AnnounceEv patient_seeder)] vs"
    using source_run_exists [OF detector_ok_new] by blast
  have "vs = [Allow, Allow, Allow, Allow, Allow, Allow, Allow, Ban 3600 0]"
    by (rule handshake_defeats_fast_gate [OF i, of 1000 "replicate 16 1"])
      (use vs in \<open>simp_all del: source_run.simps\<close>)
  with vs show ?thesis by (intro exI [of _ vs]) (simp del: source_run.simps)
qed

end
