(* ===== verification/Net_Addr.thy ===== *)
theory Net_Addr
  imports Http_Query
begin

text \<open>
  IP and socket addresses and Rust's parser for them (\<open>core::net\<close>), which the configuration
  uses for its listen directives and the runtime for its sources. A reader takes the rest of the
  input and returns a value with what is left; failing leaves the caller's input untouched, which
  is the \<open>read_atomically\<close> of the library.
\<close>

datatype ip_addr = IpV4 bytes \<comment> \<open>4 octets\<close> | IpV6 bytes \<comment> \<open>16 octets\<close>

datatype socket_addr = SockV4 bytes u16 | SockV6 bytes u16 u32 \<comment> \<open>octets, port, scope id\<close>

fun socket_ip :: "socket_addr \<Rightarrow> ip_addr" where
  "socket_ip (SockV4 ip port) = IpV4 ip"
| "socket_ip (SockV6 ip port scope) = IpV6 ip"

text \<open>\<open>SocketAddr::new\<close>\<close>

fun socket_new :: "ip_addr \<Rightarrow> u16 \<Rightarrow> socket_addr" where
  "socket_new (IpV4 ip) port = SockV4 ip port"
| "socket_new (IpV6 ip) port = SockV6 ip port 0"

section \<open>Numbers\<close>

definition digit_of :: "nat \<Rightarrow> u8 \<Rightarrow> nat option" where
  "digit_of radix c =
     (case hex_val c of Some v \<Rightarrow> if unat v < radix then Some (unat v) else None | None \<Rightarrow> None)"

text \<open>At most \<open>mx\<close> digits: one more is a failure.\<close>

fun read_digits_upto :: "nat \<Rightarrow> nat \<Rightarrow> nat \<Rightarrow> nat \<Rightarrow> bytes \<Rightarrow> (nat \<times> nat \<times> bytes) option" where
  "read_digits_upto radix mx cnt result [] = Some (result, cnt, [])"
| "read_digits_upto radix mx cnt result (c # cs) =
     (case digit_of radix c of
        None \<Rightarrow> Some (result, cnt, c # cs)
      | Some d \<Rightarrow>
          if Suc cnt > mx then None
          else read_digits_upto radix mx (Suc cnt) (result * radix + d) cs)"

text \<open>Any number of digits, with checked arithmetic below the greatest value.\<close>

fun read_digits_checked :: "nat \<Rightarrow> nat \<Rightarrow> nat \<Rightarrow> nat \<Rightarrow> bytes \<Rightarrow> (nat \<times> nat \<times> bytes) option" where
  "read_digits_checked radix greatest cnt result [] = Some (result, cnt, [])"
| "read_digits_checked radix greatest cnt result (c # cs) =
     (case digit_of radix c of
        None \<Rightarrow> Some (result, cnt, c # cs)
      | Some d \<Rightarrow>
          if result * radix + d > greatest then None
          else read_digits_checked radix greatest (Suc cnt) (result * radix + d) cs)"

definition finish_number :: "bool \<Rightarrow> nat \<Rightarrow> bytes \<Rightarrow> nat \<times> nat \<times> bytes \<Rightarrow> (nat \<times> bytes) option" where
  "finish_number allow_zero_prefix greatest b r =
     (case r of (result, cnt, rest) \<Rightarrow>
        if cnt = 0 then None
        else if \<not> allow_zero_prefix \<and> take 1 b = [of_char CHR ''0''] \<and> cnt > 1 then None
        else if result \<le> greatest then Some (result, rest) else None)"

definition read_number_upto :: "nat \<Rightarrow> nat \<Rightarrow> bool \<Rightarrow> nat \<Rightarrow> bytes \<Rightarrow> (nat \<times> bytes) option" where
  "read_number_upto radix mx zeros greatest b =
     read_digits_upto radix mx 0 0 b \<bind> finish_number zeros greatest b"

definition read_number_checked :: "nat \<Rightarrow> bool \<Rightarrow> nat \<Rightarrow> bytes \<Rightarrow> (nat \<times> bytes) option" where
  "read_number_checked radix zeros greatest b =
     read_digits_checked radix greatest 0 0 b \<bind> finish_number zeros greatest b"

fun read_char :: "u8 \<Rightarrow> bytes \<Rightarrow> bytes option" where
  "read_char d [] = None"
| "read_char d (c # cs) = (if c = d then Some cs else None)"

text \<open>\<open>read_separator\<close>: the separator is expected from the second group on.\<close>

definition read_sep :: "u8 \<Rightarrow> nat \<Rightarrow> (bytes \<Rightarrow> ('a \<times> bytes) option) \<Rightarrow> bytes \<Rightarrow> ('a \<times> bytes) option" where
  "read_sep sep i inner b = (if i > 0 then read_char sep b \<bind> inner else inner b)"

section \<open>Addresses\<close>

definition read_octet :: "nat \<Rightarrow> bytes \<Rightarrow> (nat \<times> bytes) option" where
  "read_octet i = read_sep (of_char CHR ''.'') i (read_number_upto 10 3 False 255)"

definition read_ipv4 :: "bytes \<Rightarrow> (bytes \<times> bytes) option" where
  "read_ipv4 b =
     do {
       (o1, b) \<leftarrow> read_octet 0 b;
       (o2, b) \<leftarrow> read_octet 1 b;
       (o3, b) \<leftarrow> read_octet 2 b;
       (o4, b) \<leftarrow> read_octet 3 b;
       Some ([word_of_nat o1, word_of_nat o2, word_of_nat o3, word_of_nat o4], b)
     }"

text \<open>\<open>read_groups\<close>: up to \<open>k\<close> more groups from index \<open>i\<close> on; the flag says that the last two
  came from an embedded IPv4 address. Groups are collected as octets.\<close>

fun read_groups :: "nat \<Rightarrow> nat \<Rightarrow> bytes \<Rightarrow> bytes \<Rightarrow> bytes \<times> bool \<times> bytes" where
  "read_groups 0 i acc b = (acc, False, b)"
| "read_groups (Suc k) i acc b =
     (case (if 0 < k then read_sep (of_char CHR '':'') i read_ipv4 b else None) of
        Some (quad, b) \<Rightarrow> (acc @ quad, True, b)
      | None \<Rightarrow>
          (case read_sep (of_char CHR '':'') i (read_number_upto 16 4 True 65535) b of
             Some (g, b) \<Rightarrow> read_groups k (Suc i) (acc @ u16_be (word_of_nat g)) b
           | None \<Rightarrow> (acc, False, b)))"

definition read_ipv6 :: "bytes \<Rightarrow> (bytes \<times> bytes) option" where
  "read_ipv6 b =
     (case read_groups 8 0 [] b of (head, head_v4, b) \<Rightarrow>
        if length head = 16 then Some (head, b)
        else if head_v4 then None
        else do {
          b \<leftarrow> read_char (of_char CHR '':'') b;
          b \<leftarrow> read_char (of_char CHR '':'') b;
          case read_groups (8 - (length head div 2 + 1)) 0 [] b of (tail, _, b) \<Rightarrow>
            Some (head @ replicate (16 - length head - length tail) 0 @ tail, b)
        })"

definition read_port :: "bytes \<Rightarrow> (u16 \<times> bytes) option" where
  "read_port b =
     do {
       b \<leftarrow> read_char (of_char CHR '':'') b;
       (n, b) \<leftarrow> read_number_checked 10 True 65535 b;
       Some (word_of_nat n, b)
     }"

definition read_scope_id :: "bytes \<Rightarrow> (u32 \<times> bytes) option" where
  "read_scope_id b =
     do {
       b \<leftarrow> read_char (of_char CHR ''%'') b;
       (n, b) \<leftarrow> read_number_checked 10 True (2 ^ 32 - 1) b;
       Some (word_of_nat n, b)
     }"

definition read_socket_v4 :: "bytes \<Rightarrow> (socket_addr \<times> bytes) option" where
  "read_socket_v4 b =
     do {
       (ip, b) \<leftarrow> read_ipv4 b;
       (port, b) \<leftarrow> read_port b;
       Some (SockV4 ip port, b)
     }"

definition read_socket_v6 :: "bytes \<Rightarrow> (socket_addr \<times> bytes) option" where
  "read_socket_v6 b =
     do {
       b \<leftarrow> read_char (of_char CHR ''['') b;
       (ip, b) \<leftarrow> read_ipv6 b;
       let (scope, b) = (case read_scope_id b of Some sb \<Rightarrow> sb | None \<Rightarrow> (0, b));
       b \<leftarrow> read_char (of_char CHR '']'') b;
       (port, b) \<leftarrow> read_port b;
       Some (SockV6 ip port scope, b)
     }"

text \<open>\<open>parse_with\<close>: everything has to be consumed.\<close>

definition parse_all :: "(bytes \<Rightarrow> ('a \<times> bytes) option) \<Rightarrow> bytes \<Rightarrow> 'a option" where
  "parse_all inner b = (case inner b of Some (x, []) \<Rightarrow> Some x | _ \<Rightarrow> None)"

definition parse_socket :: "bytes \<Rightarrow> socket_addr option" where
  "parse_socket =
     parse_all (\<lambda>b. case read_socket_v4 b of Some r \<Rightarrow> Some r | None \<Rightarrow> read_socket_v6 b)"

definition parse_ip :: "bytes \<Rightarrow> ip_addr option" where
  "parse_ip =
     parse_all (\<lambda>b. case read_ipv4 b of
       Some (ip, b) \<Rightarrow> Some (IpV4 ip, b)
     | None \<Rightarrow> map_option (\<lambda>(ip, b). (IpV6 ip, b)) (read_ipv6 b))"

section \<open>Printed IPv4 addresses are read back\<close>

definition print_v4 :: "bytes \<Rightarrow> bytes" where
  "print_v4 ip =
     (case ip of
        [a, b, c, d] \<Rightarrow> dec (unat a) @ of_char CHR ''.'' # dec (unat b) @ of_char CHR ''.'' #
          dec (unat c) @ of_char CHR ''.'' # dec (unat d)
      | _ \<Rightarrow> [])"

lemma digit_of_is_digit:
  assumes "is_digit c"
  shows "digit_of 10 c = Some (unat c - 0x30)"
proof -
  have "\<forall>n \<in> set [0x30..<0x3a]. digit_of 10 (word_of_nat n) = Some (n - 0x30)" by code_simp
  moreover have "unat c \<in> set [0x30..<0x3a]" using assms unfolding is_digit_def set_upt atLeastLessThan_iff by linarith
  ultimately have "digit_of 10 (word_of_nat (unat c)) = Some (unat c - 0x30)" by blast
  then show ?thesis by simp
qed

text \<open>What may follow a decimal number.\<close>

definition no_digit_next :: "bytes \<Rightarrow> bool" where
  "no_digit_next b \<longleftrightarrow> (\<forall>c cs. b = c # cs \<longrightarrow> digit_of 10 c = None)"

lemma no_digit_next_simps [simp]:
  "no_digit_next []" "no_digit_next (0x2e # b)" "no_digit_next (0x3a # b)"
  by (simp_all add: no_digit_next_def digit_of_def hex_val_def)

lemma read_digits_upto_digits:
  assumes "\<forall>d \<in> set ds. is_digit d" "no_digit_next rest" "cnt + length ds \<le> mx"
  shows "read_digits_upto 10 mx cnt r (ds @ rest) =
    Some (foldl (\<lambda>a d. 10 * a + (unat d - 0x30)) r ds, cnt + length ds, rest)"
  using assms
proof (induction ds arbitrary: cnt r)
  case Nil
  then show ?case by (cases rest) (auto simp: no_digit_next_def)
next
  case (Cons d ds)
  then show ?case by (simp add: digit_of_is_digit mult.commute)
qed

lemma read_digits_checked_digits:
  assumes "\<forall>d \<in> set ds. is_digit d" "no_digit_next rest"
    and "foldl (\<lambda>a d. 10 * a + (unat d - 0x30)) r ds \<le> greatest"
  shows "read_digits_checked 10 greatest cnt r (ds @ rest) =
    Some (foldl (\<lambda>a d. 10 * a + (unat d - 0x30)) r ds, cnt + length ds, rest)"
  using assms
proof (induction ds arbitrary: cnt r)
  case Nil
  then show ?case by (cases rest) (auto simp: no_digit_next_def)
next
  case (Cons d ds)
  have "10 * r + (unat d - 0x30) \<le> greatest"
    using digits_foldl_ge [of "10 * r + (unat d - 0x30)" ds] Cons.prems(3) by simp
  with Cons show ?case by (simp add: digit_of_is_digit mult.commute)
qed

lemma dec_head: "0 < n \<Longrightarrow> take 1 (dec n) \<noteq> [of_char CHR ''0'']"
proof (induction n rule: dec.induct)
  case (1 n)
  show ?case
  proof (cases "n < 10")
    case True
    with 1(2) have "unat (word_of_nat (0x30 + n) :: u8) \<noteq> unat (0x30 :: u8)"
      by (subst unat_of_nat) simp
    then have "word_of_nat (0x30 + n) \<noteq> (0x30 :: u8)" by metis
    with True show ?thesis by (subst dec.simps) simp
  next
    case False
    then have "take 1 (dec n) = take 1 (dec (n div 10))"
      using dec_nonempty [of "n div 10"] by (subst dec.simps) (cases "dec (n div 10)"; simp)
    with 1 False show ?thesis by simp
  qed
qed

lemma dec_small:
  assumes "n < 256"
  shows "length (dec n) \<le> 3 \<and> (take 1 (dec n) = [of_char CHR ''0''] \<longrightarrow> length (dec n) \<le> 1)"
proof -
  have "length (dec m) \<le> (if m < 10 then 1 else if m < 100 then 2 else 3)" if "m < 1000" for m
    using that
    by (auto simp: dec.simps [of m] dec.simps [of "m div 10"] dec.simps [of "m div 10 div 10"])
  from this [of n] this [of 0] assms have "length (dec n) \<le> 3" "length (dec 0) \<le> 1"
    by (simp_all split: if_splits)
  with dec_head [of n] show ?thesis by (cases "n = 0") simp_all
qed

lemma read_dec_octet:
  assumes "no_digit_next rest"
  shows "read_number_upto 10 3 False 255 (dec (unat (o1 :: u8)) @ rest) = Some (unat o1, rest)"
proof -
  have n: "unat o1 < 256" using unat_bound [of o1] by simp
  have "take 1 (dec (unat o1) @ rest) = take 1 (dec (unat o1))"
    using dec_nonempty [of "unat o1"] by (cases "dec (unat o1)") auto
  moreover have "read_digits_upto 10 3 0 0 (dec (unat o1) @ rest) = Some (unat o1, length (dec (unat o1)), rest)"
    using read_digits_upto_digits [OF dec_digits assms, of 0 "unat o1" 3 0] dec_small [OF n]
      digits_val_dec [of "unat o1"]
    by (simp add: digits_val_def)
  ultimately show ?thesis
    using n dec_small [OF n] dec_nonempty [of "unat o1"]
    by (auto simp: read_number_upto_def finish_number_def)
qed

lemma read_v4_print:
  assumes "length ip = 4" "no_digit_next rest"
  shows "read_ipv4 (print_v4 ip @ rest) = Some (ip, rest)"
proof -
  from assms(1) obtain a b c d where ip: "ip = [a, b, c, d]"
    by (auto simp: numeral_eq_Suc length_Suc_conv)
  show ?thesis
    by (simp add: ip print_v4_def read_ipv4_def read_octet_def read_sep_def read_dec_octet assms(2))
qed

lemma read_port_print: "read_port (of_char CHR '':'' # dec (unat port)) = Some (port, [])" for port :: u16
proof -
  have n: "unat port \<le> 65535" using unat_bound [of port] by simp
  have "read_digits_checked 10 65535 0 0 (dec (unat port)) = Some (unat port, length (dec (unat port)), [])"
    using read_digits_checked_digits [OF dec_digits no_digit_next_simps(1), of 0 "unat port" 65535 0]
      digits_val_dec [of "unat port"] n
    by (simp add: digits_val_def)
  with n dec_nonempty [of "unat port"] show ?thesis
    by (simp add: read_port_def read_number_checked_def finish_number_def)
qed

end
