(* ===== verification/Net_Addr_V6.thy ===== *)
theory Net_Addr_V6
  imports Net_Addr
begin

text \<open>
  IPv6 addresses in text: an address printed as eight groups, or with its first run of zero groups
  elided, is read back by the parser of Net_Addr, and what the parser returns always has the length
  of an address.
\<close>

section \<open>Printing\<close>

fun groups_of :: "bytes \<Rightarrow> (u8 \<times> u8) list" where
  "groups_of (a # b # bs) = (a, b) # groups_of bs"
| "groups_of _ = []"

definition flat :: "(u8 \<times> u8) list \<Rightarrow> bytes" where
  "flat gs = concat (map (\<lambda>(a, b). [a, b]) gs)"

definition print_byte :: "u8 \<Rightarrow> bytes" where
  "print_byte b = [hex_digit (unat b div 16), hex_digit (unat b mod 16)]"

definition print_group :: "u8 \<times> u8 \<Rightarrow> bytes" where
  "print_group g = print_byte (fst g) @ print_byte (snd g)"

text \<open>Groups from index \<open>i\<close> on: the first group of all has no separator before it.\<close>

fun print_groups :: "nat \<Rightarrow> (u8 \<times> u8) list \<Rightarrow> bytes" where
  "print_groups i [] = []"
| "print_groups i (g # gs) = (if i > 0 then [of_char CHR '':''] else []) @ print_group g @ print_groups (Suc i) gs"

definition print_v6 :: "bytes \<Rightarrow> bytes" where
  "print_v6 ip =
     (let gs = groups_of ip; hs = takeWhile (\<lambda>g. g \<noteq> (0, 0)) gs; zs = dropWhile (\<lambda>g. g \<noteq> (0, 0)) gs
      in if zs = [] then print_groups 0 gs
         else print_groups 0 hs @ [of_char CHR '':'', of_char CHR '':''] @
           print_groups 0 (dropWhile (\<lambda>g. g = (0, 0)) zs))"

lemma flat_simps [simp]:
  "flat [] = []" "flat (g # gs) = fst g # snd g # flat gs" "flat (gs @ gs') = flat gs @ flat gs'"
  by (simp_all add: flat_def split: prod.split)

lemma length_flat [simp]: "length (flat gs) = 2 * length gs"
  by (induction gs) simp_all

lemma flat_groups: "even (length ip) \<Longrightarrow> flat (groups_of ip) = ip"
  by (induction ip rule: groups_of.induct) simp_all

lemma flat_zeros: "\<forall>g \<in> set gs. g = (0, 0) \<Longrightarrow> flat gs = replicate (2 * length gs) 0"
  by (induction gs) simp_all

section \<open>Reading a group\<close>

lemma digit_of_hex: "n < 16 \<Longrightarrow> digit_of 16 (hex_digit n) = Some n"
  by (simp add: digit_of_def hex_val_digit unat_of_nat)

lemma digit_of_16: "digit_of 10 c = Some d \<Longrightarrow> digit_of 16 c = Some d"
  by (auto simp: digit_of_def split: option.splits if_splits)

text \<open>What may follow a group: neither a hexadecimal digit nor a dot.\<close>

definition group_end :: "bytes \<Rightarrow> bool" where
  "group_end b \<longleftrightarrow> (\<forall>c cs. b = c # cs \<longrightarrow> digit_of 16 c = None \<and> c \<noteq> of_char CHR ''.'')"

lemma read_digits_upto_stop:
  "group_end b \<Longrightarrow> read_digits_upto 16 mx cnt r b = Some (r, cnt, b)"
  by (cases b) (simp_all add: group_end_def)

lemma group_value: "unat (a :: u8) div 16 * 16 + unat a mod 16 = unat a"
  by simp

lemma read_group:
  assumes "group_end rest"
  shows "read_number_upto 16 4 True 65535 (print_group (a, b) @ rest) = Some (unat a * 256 + unat b, rest)"
proof -
  have n: "unat a < 256" "unat b < 256" using unat_bound [of a] unat_bound [of b] by simp_all
  then have d: "digit_of 16 (hex_digit (unat a div 16)) = Some (unat a div 16)"
    "digit_of 16 (hex_digit (unat a mod 16)) = Some (unat a mod 16)"
    "digit_of 16 (hex_digit (unat b div 16)) = Some (unat b div 16)"
    "digit_of 16 (hex_digit (unat b mod 16)) = Some (unat b mod 16)"
    by (simp_all add: digit_of_hex)
  have "((unat a div 16 * 16 + unat a mod 16) * 16 + unat b div 16) * 16 + unat b mod 16 = unat a * 256 + unat b"
    unfolding group_value by (simp add: algebra_simps)
  then have "read_digits_upto 16 4 0 0 (print_group (a, b) @ rest) = Some (unat a * 256 + unat b, 4, rest)"
    by (simp add: print_group_def print_byte_def d read_digits_upto_stop [OF assms])
  moreover have "unat a * 256 + unat b \<le> 65535" using n by simp
  ultimately show ?thesis by (simp add: read_number_upto_def finish_number_def)
qed

lemma u16_be_pair: "u16_be (word_of_nat (unat a * 256 + unat b)) = [a, b]"
proof -
  have "be_val [a, b] = unat a * 256 + unat b" using be_val_snoc [of "[a]" b] be_val_snoc [of "[]" a] by simp
  then show ?thesis using word_be_from_be(1) [of "[a, b]"] by (simp add: from_be_def)
qed

text \<open>A group is never taken for the first octet of an embedded IPv4 address.\<close>

lemma read_digits_upto_rest:
  "read_digits_upto r mx cnt v b = Some (v', n, rest) \<Longrightarrow>
   \<exists>ds. b = ds @ rest \<and> (\<forall>d \<in> set ds. digit_of r d \<noteq> None)"
proof (induction b arbitrary: cnt v)
  case (Cons c cs)
  show ?case
  proof (cases "digit_of r c")
    case (Some d)
    with Cons.prems have "read_digits_upto r mx (Suc cnt) (v * r + d) cs = Some (v', n, rest)"
      by (simp split: if_splits)
    from Cons.IH [OF this] obtain ds where "cs = ds @ rest" "\<forall>d \<in> set ds. digit_of r d \<noteq> None" by blast
    with Some show ?thesis by (intro exI [of _ "c # ds"]) simp
  qed (use Cons.prems in auto)
qed simp

lemma read_ipv4_group:
  assumes "\<forall>h \<in> set hs. digit_of 16 h \<noteq> None" "group_end rest"
  shows "read_ipv4 (hs @ rest) = None"
proof (rule ccontr)
  assume "read_ipv4 (hs @ rest) \<noteq> None"
  then obtain o1 b1 o2 b2 where o: "read_octet 0 (hs @ rest) = Some (o1, b1)" "read_octet 1 b1 = Some (o2, b2)"
    by (auto simp: read_ipv4_def panic_iff)
  obtain v n where "read_digits_upto 10 3 0 0 (hs @ rest) = Some (v, n, b1)"
    using o(1) by (auto simp: read_octet_def read_sep_def read_number_upto_def finish_number_def panic_iff
      split: if_splits)
  from read_digits_upto_rest [OF this] obtain ds where ds: "hs @ rest = ds @ b1"
    "\<forall>d \<in> set ds. digit_of 10 d \<noteq> None" by blast
  obtain b where b: "b1 = of_char CHR ''.'' # b"
    using o(2) by (cases b1) (auto simp: read_octet_def read_sep_def panic_iff split: if_splits)
  let ?hex = "\<lambda>c. digit_of 16 c \<noteq> None"
  have "dropWhile ?hex rest = rest" using assms(2) by (cases rest) (auto simp: group_end_def)
  with assms(1) have "dropWhile ?hex (hs @ rest) = rest" by (simp add: dropWhile_append2)
  moreover have "\<forall>d \<in> set ds. ?hex d" using ds(2) digit_of_16 by fastforce
  moreover have "\<not> ?hex (of_char CHR ''.'')" by (simp add: digit_of_def hex_val_def)
  ultimately have "rest = of_char CHR ''.'' # b" using ds(1) b by (simp add: dropWhile_append2)
  with assms(2) show False by (simp add: group_end_def)
qed


lemma print_group_hex: "h \<in> set (print_group g) \<Longrightarrow> digit_of 16 h \<noteq> None"
proof -
  have "digit_of 16 (hex_digit (unat b div 16)) \<noteq> None" "digit_of 16 (hex_digit (unat b mod 16)) \<noteq> None" for b :: u8
    using unat_bound [of b] by (simp_all add: digit_of_hex)
  then show "h \<in> set (print_group g) \<Longrightarrow> digit_of 16 h \<noteq> None"
    by (auto simp: print_group_def print_byte_def)
qed

section \<open>Reading groups\<close>

text \<open>What ends a sequence of groups: the end of the input, a bracket, a scope id, or the elision.\<close>

definition groups_end :: "bytes \<Rightarrow> bool" where
  "groups_end b \<longleftrightarrow> b = [] \<or> (\<exists>cs. b = of_char CHR '']'' # cs \<or> b = of_char CHR ''%'' # cs \<or>
     b = of_char CHR '':'' # of_char CHR '':'' # cs)"

lemma digit_of_end:
  "digit_of r (of_char CHR '':'') = None" "digit_of r (of_char CHR '']'') = None"
  "digit_of r (of_char CHR ''%'') = None"
  by (simp_all add: digit_of_def hex_val_def)

lemma groups_end_group: "groups_end b \<Longrightarrow> group_end b"
  unfolding groups_end_def group_end_def using digit_of_end [of 16] by fastforce

lemma no_number:
  assumes "b = [] \<or> digit_of radix (hd b) = None"
  shows "read_number_upto radix mx zeros greatest b = None"
  using assms by (cases b) (simp_all add: read_number_upto_def finish_number_def)

lemma no_ipv4: "b = [] \<or> digit_of 10 (hd b) = None \<Longrightarrow> read_ipv4 b = None"
  by (simp add: read_ipv4_def read_octet_def read_sep_def no_number)

lemma read_groups_blocked:
  assumes "groups_end b"
  shows "read_groups k i acc b = (acc, False, b)"
proof -
  have "\<exists>c. read_sep (of_char CHR '':'') i inner b = (if i = 0 \<or> read_char (of_char CHR '':'') b \<noteq> None then inner c else None) \<and>
      (c = [] \<or> (\<forall>r. digit_of r (hd c) = None))" for inner :: "bytes \<Rightarrow> ('a \<times> bytes) option"
  proof (cases "i = 0")
    case True
    with assms show ?thesis
      by (intro exI [of _ b]) (auto simp: groups_end_def read_sep_def digit_of_end [simplified])
  next
    case False
    from assms consider "read_char (of_char CHR '':'') b = None" |
      cs where "b = of_char CHR '':'' # of_char CHR '':'' # cs" unfolding groups_end_def by fastforce
    then show ?thesis
    proof cases
      case 2
      with False show ?thesis
        by (intro exI [of _ "of_char CHR '':'' # cs"]) (simp add: read_sep_def digit_of_end [simplified])
    qed (use False in \<open>auto simp: read_sep_def\<close>)
  qed
  then have "read_sep (of_char CHR '':'') i (read_number_upto 16 4 True 65535) b = None"
    "read_sep (of_char CHR '':'') i read_ipv4 b = None"
    by (metis no_number, metis no_ipv4)
  then show ?thesis by (cases k) (simp_all only: read_groups.simps option.case if_cancel)
qed

lemma print_groups_end: "0 < i \<Longrightarrow> groups_end rest \<Longrightarrow> group_end (print_groups i gs @ rest)"
  using groups_end_group by (cases gs) (auto simp: group_end_def digit_of_def hex_val_def)

lemma read_groups_print:
  "length gs \<le> k \<Longrightarrow> groups_end rest \<Longrightarrow>
   read_groups k i acc (print_groups i gs @ rest) = (acc @ flat gs, False, rest)"
proof (induction gs arbitrary: k i acc)
  case Nil
  then show ?case by (simp add: read_groups_blocked)
next
  case (Cons g gs)
  obtain a b where g: "g = (a, b)" by (cases g)
  obtain k' where k: "k = Suc k'" "length gs \<le> k'" using Cons.prems(1) by (cases k) auto
  let ?more = "print_groups (Suc i) gs @ rest"
  have e: "group_end ?more" using Cons.prems(2) by (intro print_groups_end) simp_all
  have "read_sep (of_char CHR '':'') i read_ipv4 (print_groups i (g # gs) @ rest) = None"
    using read_ipv4_group [OF _ e, of "print_group g"] print_group_hex [of _ g]
    by (cases "i = 0") (simp_all add: read_sep_def)
  moreover have "read_sep (of_char CHR '':'') i (read_number_upto 16 4 True 65535) (print_groups i (g # gs) @ rest) =
      Some (unat a * 256 + unat b, ?more)"
    using read_group [OF e, of a b] by (cases "i = 0") (simp_all add: read_sep_def g)
  ultimately have "read_groups k i acc (print_groups i (g # gs) @ rest) =
      read_groups k' (Suc i) (acc @ [a, b]) ?more"
    unfolding k(1) read_groups.simps by (simp only: option.case prod.case if_cancel u16_be_pair)
  with Cons.IH [OF k(2) Cons.prems(2), of "Suc i" "acc @ [a, b]"] show ?case by (simp only: g flat_simps) simp
qed

text \<open>What ends an address.\<close>

lemma read_v6_print:
  assumes "length ip = 16" "rest = [] \<or> (\<exists>cs. rest = of_char CHR '']'' # cs \<or> rest = of_char CHR ''%'' # cs)"
  shows "read_ipv6 (print_v6 ip @ rest) = Some (ip, rest)"
proof -
  define gs hs zs where d: "gs = groups_of ip" "hs = takeWhile (\<lambda>g. g \<noteq> (0, 0)) gs"
    "zs = dropWhile (\<lambda>g. g \<noteq> (0, 0)) gs"
  define n ts where n: "n = takeWhile (\<lambda>g. g = (0, 0)) zs" and ts: "ts = dropWhile (\<lambda>g. g = (0, 0)) zs"
  have ip: "flat gs = ip" unfolding d(1) using assms(1) by (intro flat_groups) simp
  then have len: "length gs = 8" using assms(1) length_flat [of gs] by simp
  have gs: "gs = hs @ n @ ts" by (simp add: d(2,3) n ts)
  have e: "groups_end rest" using assms(2) by (auto simp: groups_end_def)
  show ?thesis
  proof (cases "zs = []")
    case True
    then have "print_v6 ip = print_groups 0 gs" unfolding d print_v6_def Let_def by (rule if_P)
    with e len show ?thesis by (simp add: read_ipv6_def read_groups_print ip assms(1))
  next
    case False
    then obtain z zs' where z: "zs = z # zs'" by (cases zs) auto
    then have "z = (0, 0)" using hd_dropWhile [of "\<lambda>g. g \<noteq> (0, 0)" gs] unfolding d(3) by simp
    with z have "1 \<le> length n" by (simp add: n)
    with gs len have l: "length hs \<le> 7" "length ts \<le> 7 - length hs" "length n = 8 - length hs - length ts"
      by simp_all
    let ?sep = "of_char CHR '':'' :: u8"
    have p: "print_v6 ip @ rest = print_groups 0 hs @ ?sep # ?sep # print_groups 0 ts @ rest"
      unfolding print_v6_def Let_def ts using False by (simp flip: d)
    have "groups_end (?sep # ?sep # print_groups 0 ts @ rest)" by (simp add: groups_end_def)
    from read_groups_print [OF _ this, of hs 8 0 "[]"] l(1)
    have 1: "read_groups 8 0 [] (print_v6 ip @ rest) = (flat hs, False, ?sep # ?sep # print_groups 0 ts @ rest)"
      unfolding p by simp
    have 2: "read_groups (7 - length hs) 0 [] (print_groups 0 ts @ rest) = (flat ts, False, rest)"
      using read_groups_print [OF _ e, of ts "7 - length hs" 0 "[]"] l(2) by simp
    have "flat n = replicate (2 * length n) 0" by (rule flat_zeros) (auto simp: n dest: set_takeWhileD)
    moreover have "16 - (2 * length hs + 2 * length ts) = 2 * length n" using l by simp
    ultimately have "flat hs @ replicate (16 - (2 * length hs + 2 * length ts)) 0 @ flat ts = ip"
      using gs ip by simp
    then show ?thesis using l(1) by (simp add: read_ipv6_def 1 2)
  qed
qed


section \<open>Socket addresses\<close>

fun socket_ok :: "socket_addr \<Rightarrow> bool" where
  "socket_ok (SockV4 ip port) \<longleftrightarrow> length ip = 4"
| "socket_ok (SockV6 ip port scope) \<longleftrightarrow> length ip = 16"

fun print_addr :: "socket_addr \<Rightarrow> bytes" where
  "print_addr (SockV4 ip port) = print_v4 ip @ of_char CHR '':'' # dec (unat port)"
| "print_addr (SockV6 ip port scope) =
     of_char CHR ''['' # print_v6 ip @ (if scope = 0 then [] else of_char CHR ''%'' # dec (unat scope)) @
       of_char CHR '']'' # of_char CHR '':'' # dec (unat port)"

lemma read_scope_print:
  "read_scope_id (of_char CHR ''%'' # dec (unat scope) @ of_char CHR '']'' # b) = Some (scope, of_char CHR '']'' # b)"
  for scope :: u32
proof -
  have n: "unat scope \<le> 2 ^ 32 - 1" using unat_bound [of scope] by simp
  have e: "no_digit_next (of_char CHR '']'' # b)" using digit_of_end(2) by (simp add: no_digit_next_def)
  have "read_digits_checked 10 (2 ^ 32 - 1) 0 0 (dec (unat scope) @ of_char CHR '']'' # b) =
      Some (unat scope, length (dec (unat scope)), of_char CHR '']'' # b)"
    using read_digits_checked_digits [OF dec_digits e, of 0 "unat scope" "2 ^ 32 - 1" 0] digits_val_dec [of "unat scope"] n
    by (simp add: digits_val_def)
  with n dec_nonempty [of "unat scope"] show ?thesis
    by (simp add: read_scope_id_def read_number_checked_def finish_number_def)
qed

lemma parse_socket_print:
  assumes "socket_ok sa"
  shows "parse_socket (print_addr sa) = Some sa"
proof (cases sa)
  case (SockV4 ip port)
  with assms show ?thesis
    by (simp add: parse_socket_def parse_all_def read_socket_v4_def read_v4_print read_port_print [simplified])
next
  case (SockV6 ip port scope)
  let ?fin = "of_char CHR '']'' # of_char CHR '':'' # dec (unat port)"
  let ?rest = "(if scope = 0 then [] else of_char CHR ''%'' # dec (unat scope)) @ ?fin"
  have ip: "length ip = 16" using assms SockV6 by simp
  have "\<exists>cs. ?rest = of_char CHR '']'' # cs \<or> ?rest = of_char CHR ''%'' # cs" by simp
  then have a: "read_ipv6 (print_v6 ip @ ?rest) = Some (ip, ?rest)" by (intro read_v6_print [OF ip]) blast
  have s: "(case read_scope_id ?rest of Some sb \<Rightarrow> sb | None \<Rightarrow> (0, ?rest)) = (scope, ?fin)"
  proof (cases "scope = 0")
    case True
    have "read_scope_id ?fin = None" by (simp add: read_scope_id_def)
    with True show ?thesis by simp
  qed (simp add: read_scope_print [simplified])
  have p: "print_addr sa = of_char CHR ''['' # print_v6 ip @ ?rest" by (simp add: SockV6)
  have "digit_of 10 (of_char CHR ''['') = None" by (simp add: digit_of_def hex_val_def)
  then have "read_ipv4 (print_addr sa) = None" unfolding p by (intro no_ipv4) simp
  then have "read_socket_v4 (print_addr sa) = None" by (simp add: read_socket_v4_def)
  moreover have "read_socket_v6 (print_addr sa) = Some (SockV6 ip port scope, [])"
    unfolding read_socket_v6_def p
    by (simp only: read_char.simps if_True refl bind.bind_lunit a prod.case Let_def s read_port_print)
  ultimately show ?thesis by (simp add: parse_socket_def parse_all_def SockV6)
qed

text \<open>What the parser returns is an address.\<close>

lemma read_ipv4_length: "read_ipv4 b = Some (ip, rest) \<Longrightarrow> length ip = 4"
  by (auto simp: read_ipv4_def panic_iff)

lemma read_sep_Some: "read_sep sep i inner b = Some r \<Longrightarrow> \<exists>b'. inner b' = Some r"
  by (auto simp: read_sep_def panic_iff split: if_splits)

lemma read_groups_length: "read_groups k i acc b = (acc', v, b') \<Longrightarrow> length acc' \<le> length acc + 2 * k"
proof (induction k arbitrary: i acc b)
  case (Suc k)
  show ?case
  proof (cases "if 0 < k then read_sep (of_char CHR '':'') i read_ipv4 b else None")
    case None
    show ?thesis
    proof (cases "read_sep (of_char CHR '':'') i (read_number_upto 16 4 True 65535) b")
      case (Some gb)
      with None Suc.prems have
        "read_groups k (Suc i) (acc @ u16_be (word_of_nat (fst gb))) (snd gb) = (acc', v, b')"
        by (cases gb) (simp only: read_groups.simps option.case prod.case fst_conv snd_conv)
      from Suc.IH [OF this] show ?thesis by simp
    next
      case none: None
      from Suc.prems show ?thesis unfolding read_groups.simps None none by simp
    qed
  next
    case (Some qb)
    then obtain c where "read_ipv4 c = Some qb" and k: "0 < k" by (auto dest: read_sep_Some split: if_splits)
    then have "length (fst qb) = 4" using read_ipv4_length by (cases qb) auto
    moreover have "acc' = acc @ fst qb"
      using Suc.prems unfolding read_groups.simps Some by (cases qb) simp
    ultimately show ?thesis using k by simp
  qed
qed simp

lemma read_ipv6_length:
  assumes "read_ipv6 b = Some (ip, rest)"
  shows "length ip = 16"
proof -
  obtain hs v b1 where h: "read_groups 8 0 [] b = (hs, v, b1)" by (cases "read_groups 8 0 [] b")
  show ?thesis
  proof (cases "length hs = 16")
    case False
    from read_groups_length [OF h] False have l: "length hs < 16" by simp
    obtain b2 where b2: "(case read_groups (8 - (length hs div 2 + 1)) 0 [] b2 of (tail, _, b) \<Rightarrow>
        Some (hs @ replicate (16 - length hs - length tail) 0 @ tail, b)) = Some (ip, rest)"
      using assms False by (auto simp: read_ipv6_def h panic_iff split: if_splits)
    obtain ts w b3 where t: "read_groups (8 - (length hs div 2 + 1)) 0 [] b2 = (ts, w, b3)"
      by (cases "read_groups (8 - (length hs div 2 + 1)) 0 [] b2")
    from read_groups_length [OF t] have "length ts \<le> 2 * (8 - (length hs div 2 + 1))" by simp
    then have "length hs + length ts \<le> 16" using l by linarith
    with b2 t show ?thesis by auto
  qed (use assms h in \<open>simp add: read_ipv6_def\<close>)
qed

lemma read_socket_v4_ok: "read_socket_v4 b = Some (sa, rest) \<Longrightarrow> socket_ok sa"
  by (auto simp: read_socket_v4_def bind_eq_Some_conv dest: read_ipv4_length)

lemma read_socket_v6_ok:
  assumes "read_socket_v6 b = Some (sa, rest)"
  shows "socket_ok sa"
proof -
  from assms obtain b1 ip b2 where 1: "read_ipv6 b1 = Some (ip, b2)"
    and 2: "(let (scope, b) = (case read_scope_id b2 of Some sb \<Rightarrow> sb | None \<Rightarrow> (0, b2))
      in read_char (of_char CHR '']'') b \<bind> (\<lambda>b. read_port b \<bind> (\<lambda>(port, b). Some (SockV6 ip port scope, b)))) =
      Some (sa, rest)"
    unfolding read_socket_v6_def bind_eq_Some_conv [of "read_char (of_char CHR ''['') b"]
      bind_eq_Some_conv [of "read_ipv6 _"] by auto
  obtain scope b3 where "(case read_scope_id b2 of Some sb \<Rightarrow> sb | None \<Rightarrow> (0, b2)) = (scope, b3)"
    by fastforce
  with 2 obtain port where "sa = SockV6 ip port scope" by (auto simp: bind_eq_Some_conv)
  then show ?thesis by (simp add: read_ipv6_length [OF 1])
qed

lemma parse_socket_ok: "parse_socket b = Some sa \<Longrightarrow> socket_ok sa"
  by (auto simp: parse_socket_def parse_all_def intro: read_socket_v4_ok read_socket_v6_ok
      split: option.splits list.splits prod.splits)

lemma parse_ip_ok: "parse_ip b = Some ip \<Longrightarrow> socket_ok (socket_new ip port)"
  by (auto simp: parse_ip_def parse_all_def dest: read_ipv4_length read_ipv6_length
      split: option.splits list.splits prod.splits)

section \<open>The characters of an address\<close>

lemma hex_digit_plain: "n < 16 \<Longrightarrow> 33 \<le> unat (hex_digit n) \<and> unat (hex_digit n) \<le> 126"
proof -
  have "\<forall>n \<in> set [0..<16]. 33 \<le> unat (hex_digit n) \<and> unat (hex_digit n) \<le> 126" by code_simp
  then show "n < 16 \<Longrightarrow> 33 \<le> unat (hex_digit n) \<and> unat (hex_digit n) \<le> 126" by simp
qed

lemma print_group_plain: "h \<in> set (print_group g) \<Longrightarrow> 33 \<le> unat h \<and> unat h \<le> 126"
proof -
  have "unat b div 16 < 16" "unat b mod 16 < 16" for b :: u8 using unat_bound [of b] by simp_all
  then show "h \<in> set (print_group g) \<Longrightarrow> 33 \<le> unat h \<and> unat h \<le> 126"
    using hex_digit_plain by (auto simp: print_group_def print_byte_def)
qed

lemma print_groups_plain: "h \<in> set (print_groups i gs) \<Longrightarrow> 33 \<le> unat h \<and> unat h \<le> 126"
  by (induction gs arbitrary: i) (auto dest: print_group_plain split: if_splits)

lemma dec_plain: "h \<in> set (dec n) \<Longrightarrow> 33 \<le> unat h \<and> unat h \<le> 126"
  using dec_digits [of n] by (auto simp: is_digit_def)

lemma print_v4_plain: "h \<in> set (print_v4 ip) \<Longrightarrow> 33 \<le> unat h \<and> unat h \<le> 126"
  by (auto simp: print_v4_def dest: dec_plain split: list.splits)

lemma print_addr_plain: "h \<in> set (print_addr sa) \<Longrightarrow> 33 \<le> unat h \<and> unat h \<le> 126"
  by (cases sa)
    (auto simp: print_v6_def Let_def dest: dec_plain print_v4_plain print_groups_plain split: if_splits)

end
