(* ===== verification/Config.thy ===== *)
theory Config
  imports Net_Addr L7
begin

text \<open>
  crates/bf-config/src/lib.rs: the line-based configuration format. A Rust string is the list of
  its Unicode code points; numbers and addresses are parsed from its UTF-8 bytes. The messages of
  a parse error are kept apart by constructor, with the value they quote; their wording is not
  modelled.
\<close>

type_synonym codes = "nat list"

definition lit :: "string \<Rightarrow> codes" where
  "lit s = map of_char s"

definition DEFAULT_PORT :: u16 where "DEFAULT_PORT = 6969"

record config =
  cf_udp_listen :: "socket_addr list"
  cf_tcp_listen :: "socket_addr list"
  cf_udp_workers :: u64
  cf_udp_rcvbuf :: "u64 option"
  cf_connid_window :: u32
  cf_redirect_url :: "codes option"
  cf_rootdir :: "codes option"
  cf_user :: "codes option"
  cf_metrics_listen :: "socket_addr option"
  cf_l7_enable :: bool
  cf_l7 :: l7_config
  cf_nft_enable :: bool
  cf_nft_table :: codes
  cf_nft_set4 :: "codes list"
  cf_nft_set6 :: "codes list"
  cf_unknown :: "codes list"

definition config_default :: config where
  "config_default =
     \<lparr>cf_udp_listen = [], cf_tcp_listen = [], cf_udp_workers = 0, cf_udp_rcvbuf = None,
      cf_connid_window = 120, cf_redirect_url = None, cf_rootdir = None, cf_user = None,
      cf_metrics_listen = None, cf_l7_enable = False, cf_l7 = l7_config_default,
      cf_nft_enable = False, cf_nft_table = lit ''inet filter'',
      cf_nft_set4 = [lit ''l7ban4''], cf_nft_set6 = [lit ''l7ban6''], cf_unknown = []\<rparr>"

datatype config_message = InvalidValue codes | ExpectedBoolean codes | InvalidListen codes

record config_error =
  ce_line :: nat
  ce_message :: config_message

section \<open>Strings\<close>

text \<open>\<open>char::is_whitespace\<close>: the Unicode property \<open>White_Space\<close>.\<close>

definition is_ws :: "nat \<Rightarrow> bool" where
  "is_ws c \<longleftrightarrow> 9 \<le> c \<and> c \<le> 13 \<or> c = 0x20 \<or> c = 0x85 \<or> c = 0xa0 \<or> c = 0x1680 \<or>
     0x2000 \<le> c \<and> c \<le> 0x200a \<or> c = 0x2028 \<or> c = 0x2029 \<or> c = 0x202f \<or> c = 0x205f \<or> c = 0x3000"

definition trim :: "codes \<Rightarrow> codes" where
  "trim s = rev (dropWhile is_ws (rev (dropWhile is_ws s)))"

text \<open>\<open>str::lines\<close>: pieces ended by a newline, a carriage return before it dropped; what follows
  the last newline is a line when it is not empty.\<close>

fun split_inclusive :: "codes \<Rightarrow> codes list" where
  "split_inclusive [] = []"
| "split_inclusive (c # cs) =
     (if c = 10 then [c] # split_inclusive cs
      else (case split_inclusive cs of [] \<Rightarrow> [[c]] | l # ls \<Rightarrow> (c # l) # ls))"

definition strip_eol :: "codes \<Rightarrow> codes" where
  "strip_eol l =
     (if l \<noteq> [] \<and> last l = 10
      then (let l = butlast l in if l \<noteq> [] \<and> last l = 13 then butlast l else l)
      else l)"

definition lines_of :: "codes \<Rightarrow> codes list" where
  "lines_of t = map strip_eol (split_inclusive t)"

definition split_once_ws :: "codes \<Rightarrow> (codes \<times> codes) option" where
  "split_once_ws s =
     (case dropWhile (\<lambda>c. \<not> is_ws c) s of [] \<Rightarrow> None | c # rest \<Rightarrow> Some (takeWhile (\<lambda>c. \<not> is_ws c) s, rest))"

fun split_codes :: "nat \<Rightarrow> codes \<Rightarrow> codes list" where
  "split_codes d [] = [[]]"
| "split_codes d (c # cs) =
     (if c = d then [] # split_codes d cs
      else (case split_codes d cs of p # ps \<Rightarrow> (c # p) # ps | [] \<Rightarrow> [[c]]))"

text \<open>UTF-8.\<close>

definition utf8_char :: "nat \<Rightarrow> bytes" where
  "utf8_char c =
     (if c < 0x80 then [word_of_nat c]
      else if c < 0x800 then [word_of_nat (0xc0 + c div 64), word_of_nat (0x80 + c mod 64)]
      else if c < 0x10000 then
        [word_of_nat (0xe0 + c div 4096), word_of_nat (0x80 + c div 64 mod 64), word_of_nat (0x80 + c mod 64)]
      else [word_of_nat (0xf0 + c div 262144), word_of_nat (0x80 + c div 4096 mod 64),
        word_of_nat (0x80 + c div 64 mod 64), word_of_nat (0x80 + c mod 64)])"

definition utf8 :: "codes \<Rightarrow> bytes" where
  "utf8 s = concat (map utf8_char s)"

section \<open>Values\<close>

definition invalid :: "codes \<Rightarrow> nat \<Rightarrow> config_error" where
  "invalid val line = \<lparr>ce_line = line, ce_message = InvalidValue val\<rparr>"

text \<open>\<open>field\<close> at the types it is used with: \<open>u32\<close>, \<open>usize\<close> and \<open>SocketAddr\<close>.\<close>

definition u32_max :: nat where "u32_max = 2 ^ 32 - 1"
definition usize_max :: nat where "usize_max = 2 ^ 64 - 1"

definition field_u32 :: "codes \<Rightarrow> nat \<Rightarrow> config_error + u32" where
  "field_u32 val line =
     (case parse_uint u32_max (utf8 val) of Some n \<Rightarrow> Inr (word_of_nat n) | None \<Rightarrow> Inl (invalid val line))"

definition field_usize :: "codes \<Rightarrow> nat \<Rightarrow> config_error + nat" where
  "field_usize val line =
     (case parse_uint usize_max (utf8 val) of Some n \<Rightarrow> Inr n | None \<Rightarrow> Inl (invalid val line))"

definition field_socket :: "codes \<Rightarrow> nat \<Rightarrow> config_error + socket_addr" where
  "field_socket val line =
     (case parse_socket (utf8 val) of Some a \<Rightarrow> Inr a | None \<Rightarrow> Inl (invalid val line))"

definition boolean :: "codes \<Rightarrow> nat \<Rightarrow> config_error + bool" where
  "boolean val line =
     (if val = lit ''1'' \<or> val = lit ''true'' \<or> val = lit ''yes'' then Inr True
      else if val = lit ''0'' \<or> val = lit ''false'' \<or> val = lit ''no'' then Inr False
      else Inl \<lparr>ce_line = line, ce_message = ExpectedBoolean val\<rparr>)"

definition set_list :: "codes \<Rightarrow> codes list" where
  "set_list val = filter (\<lambda>s. s \<noteq> []) (map trim (split_codes (of_char CHR '','') val))"

definition listen_addr :: "codes \<Rightarrow> nat \<Rightarrow> config_error + socket_addr" where
  "listen_addr val line =
     (case parse_socket (utf8 val) of
        Some sa \<Rightarrow> Inr sa
      | None \<Rightarrow>
          (case parse_ip (utf8 val) of
             Some ip \<Rightarrow> Inr (socket_new ip DEFAULT_PORT)
           | None \<Rightarrow> Inl \<lparr>ce_line = line, ce_message = InvalidListen val\<rparr>))"

section \<open>Lines\<close>

text \<open>The question mark of a fallible right-hand side.\<close>

definition andthen :: "'e + 'a \<Rightarrow> ('a \<Rightarrow> 'b) \<Rightarrow> 'e + 'b" where
  "andthen r k = (case r of Inl e \<Rightarrow> Inl e | Inr x \<Rightarrow> Inr (k x))"

lemma andthen_simps [simp]: "andthen (Inl e) k = Inl e" "andthen (Inr x) k = Inr (k x)"
  by (simp_all add: andthen_def)

text \<open>The detector's tunables that have a directive; \<open>None\<close> for any other key.\<close>

definition l7_directive :: "l7_config \<Rightarrow> codes \<Rightarrow> codes \<Rightarrow> nat \<Rightarrow> (config_error + l7_config) option" where
  "l7_directive c key val line =
     (if key = lit ''l7.reannounce_min_interval'' then
        Some (andthen (field_u32 val line) (\<lambda>x. c\<lparr>reannounce_min_interval := x\<rparr>))
      else if key = lit ''l7.score_ban_threshold'' then
        Some (andthen (field_u32 val line) (\<lambda>x. c\<lparr>score_ban_threshold := x\<rparr>))
      else if key = lit ''l7.ban_duration'' then
        Some (andthen (field_u32 val line) (\<lambda>x. c\<lparr>ban_duration := x\<rparr>))
      else if key = lit ''l7.max_entries'' then
        Some (andthen (field_usize val line) (\<lambda>x. c\<lparr>max_entries := x\<rparr>))
      else if key = lit ''l7.max_offenders'' then
        Some (andthen (field_usize val line) (\<lambda>x. c\<lparr>max_offenders := x\<rparr>))
      else if key = lit ''l7.reban_cooldown'' then
        Some (andthen (field_u32 val line) (\<lambda>x. c\<lparr>reban_cooldown := x\<rparr>))
      else if key = lit ''l7.fast_announce_gap'' then
        Some (andthen (field_u32 val line) (\<lambda>x. c\<lparr>fast_announce_gap := x\<rparr>))
      else None)"

definition directive :: "config \<Rightarrow> codes \<Rightarrow> codes \<Rightarrow> nat \<Rightarrow> config_error + config" where
  "directive c key val line =
     (if key = lit ''listen.udp'' then
        andthen (listen_addr val line) (\<lambda>sa. c\<lparr>cf_udp_listen := cf_udp_listen c @ [sa]\<rparr>)
      else if key = lit ''listen.tcp'' then
        andthen (listen_addr val line) (\<lambda>sa. c\<lparr>cf_tcp_listen := cf_tcp_listen c @ [sa]\<rparr>)
      else if key = lit ''listen.tcp_udp'' then
        andthen (listen_addr val line)
          (\<lambda>sa. c\<lparr>cf_udp_listen := cf_udp_listen c @ [sa], cf_tcp_listen := cf_tcp_listen c @ [sa]\<rparr>)
      else if key = lit ''listen.udp.workers'' then
        andthen (field_usize val line) (\<lambda>x. c\<lparr>cf_udp_workers := word_of_nat x\<rparr>)
      else if key = lit ''listen.udp.rcvbuf'' then
        andthen (field_usize val line) (\<lambda>x. c\<lparr>cf_udp_rcvbuf := Some (word_of_nat x)\<rparr>)
      else if key = lit ''udp.connid_window'' then
        andthen (field_u32 val line) (\<lambda>x. c\<lparr>cf_connid_window := x\<rparr>)
      else if key = lit ''tracker.redirect_url'' then Inr (c\<lparr>cf_redirect_url := Some val\<rparr>)
      else if key = lit ''tracker.rootdir'' then Inr (c\<lparr>cf_rootdir := Some val\<rparr>)
      else if key = lit ''tracker.user'' then Inr (c\<lparr>cf_user := Some val\<rparr>)
      else if key = lit ''metrics.listen'' then
        andthen (field_socket val line) (\<lambda>sa. c\<lparr>cf_metrics_listen := Some sa\<rparr>)
      else if key = lit ''l7.enable'' then andthen (boolean val line) (\<lambda>b. c\<lparr>cf_l7_enable := b\<rparr>)
      else if key = lit ''nft.enable'' then andthen (boolean val line) (\<lambda>b. c\<lparr>cf_nft_enable := b\<rparr>)
      else if key = lit ''nft.table'' then Inr (c\<lparr>cf_nft_table := val\<rparr>)
      else if key = lit ''nft.set4'' then Inr (c\<lparr>cf_nft_set4 := set_list val\<rparr>)
      else if key = lit ''nft.set6'' then Inr (c\<lparr>cf_nft_set6 := set_list val\<rparr>)
      else (case l7_directive (cf_l7 c) key val line of
              Some r \<Rightarrow> andthen r (\<lambda>l. c\<lparr>cf_l7 := l\<rparr>)
            | None \<Rightarrow> Inr (c\<lparr>cf_unknown := cf_unknown c @ [key]\<rparr>)))"

definition config_line :: "config \<Rightarrow> nat \<Rightarrow> codes \<Rightarrow> config_error + config" where
  "config_line c line raw =
     (let trimmed = trim raw
      in if trimmed = [] \<or> take 1 trimmed = lit ''#'' then Inr c
         else (case (case split_once_ws trimmed of Some (k, v) \<Rightarrow> (k, trim v) | None \<Rightarrow> (trimmed, [])) of
                 (key, val) \<Rightarrow> directive c key val line))"

text \<open>The loop, with the number of lines already read.\<close>

fun config_lines :: "config \<Rightarrow> nat \<Rightarrow> codes list \<Rightarrow> config_error + config" where
  "config_lines c idx [] = Inr c"
| "config_lines c idx (raw # ls) =
     (case config_line c (idx + 1) raw of Inl e \<Rightarrow> Inl e | Inr c \<Rightarrow> config_lines c (idx + 1) ls)"

definition config_parse :: "codes \<Rightarrow> config_error + config" where
  "config_parse t = config_lines config_default 0 (lines_of t)"

end
