(* ===== verification/Config_Props.thy ===== *)
theory Config_Props
  imports Config Net_Addr_V6
begin

text \<open>
  The properties of the configuration parser: where errors are reported, which directives are
  ignored, that a printed configuration is read back, and that comments on value lines are not
  comments.
\<close>

section \<open>Errors name their line\<close>

definition error_at :: "nat \<Rightarrow> config_error + 'a \<Rightarrow> bool" where
  "error_at line r \<longleftrightarrow> (\<forall>e. r = Inl e \<longrightarrow> ce_line e = line)"

lemma error_at_simps [simp]:
  "error_at line (Inr x)"
  "error_at line (Inl e) \<longleftrightarrow> ce_line e = line"
  "error_at line (andthen r k) \<longleftrightarrow> error_at line r"
  by (auto simp: error_at_def andthen_def split: sum.split)

lemma error_at_if: "error_at line x \<Longrightarrow> error_at line y \<Longrightarrow> error_at line (if b then x else y)"
  by simp

lemma error_at_values [simp]:
  "error_at line (field_u32 val line)" "error_at line (field_usize val line)"
  "error_at line (field_socket val line)" "error_at line (boolean val line)"
  "error_at line (listen_addr val line)"
  by (auto simp: field_u32_def field_usize_def field_socket_def boolean_def listen_addr_def invalid_def
      split: option.split)

lemma l7_directive_error: "l7_directive c key val line = Some r \<Longrightarrow> error_at line r"
  by (auto simp: l7_directive_def split: if_split_asm)

lemma directive_error: "error_at line (directive c key val line)"
  unfolding directive_def
  by (intro error_at_if) (auto dest: l7_directive_error split: option.split)

lemma config_line_error: "error_at line (config_line c line raw)"
  by (simp add: config_line_def Let_def directive_error split: prod.split)

lemma config_lines_error:
  assumes "config_lines c idx ls = Inl e"
  shows "\<exists>k c'. ce_line e = idx + k + 1 \<and> k < length ls \<and> config_lines c idx (take k ls) = Inr c' \<and>
    config_line c' (ce_line e) (ls ! k) = Inl e"
  using assms
proof (induction ls arbitrary: c idx)
  case (Cons l ls)
  show ?case
  proof (cases "config_line c (idx + 1) l")
    case (Inl e')
    with Cons.prems config_line_error [of "idx + 1" c l] show ?thesis
      by (intro exI [of _ 0]) (auto simp: error_at_def)
  next
    case (Inr c1)
    with Cons.prems Cons.IH [of c1 "idx + 1"] obtain k c' where
      "ce_line e = idx + 1 + k + 1" "k < length ls" "config_lines c1 (idx + 1) (take k ls) = Inr c'"
      "config_line c' (ce_line e) (ls ! k) = Inl e" by auto
    with Inr show ?thesis by (intro exI [of _ "Suc k"]) auto
  qed
qed simp

text \<open>A rejected configuration names the first offending line: all lines before
  it are accepted, and that line, read after them, is the one that fails with this message.\<close>

lemma config_error_line:
  assumes "config_parse t = Inl e"
  shows "\<exists>c. 1 \<le> ce_line e \<and> ce_line e \<le> length (lines_of t) \<and>
    config_lines config_default 0 (take (ce_line e - 1) (lines_of t)) = Inr c \<and>
    config_line c (ce_line e) (lines_of t ! (ce_line e - 1)) = Inl e"
proof -
  from assms obtain k c where "ce_line e = 0 + k + 1" "k < length (lines_of t)"
    "config_lines config_default 0 (take k (lines_of t)) = Inr c"
    "config_line c (ce_line e) (lines_of t ! k) = Inl e"
    unfolding config_parse_def by (blast dest: config_lines_error)
  then show ?thesis by (intro exI [of _ c]) simp
qed

section \<open>Splitting into lines and words\<close>

lemma lit_eq_iff: "lit s = lit t \<longleftrightarrow> s = t"
proof -
  have "inj (of_char :: char \<Rightarrow> nat)" by (rule inj_on_inverseI [where g = char_of]) simp
  then show ?thesis by (simp add: lit_def inj_map_eq_map)
qed

lemma split_inclusive_line: "10 \<notin> set l \<Longrightarrow> split_inclusive (l @ 10 # t) = (l @ [10]) # split_inclusive t"
  by (induction l) auto

lemma lines_of_line:
  assumes "10 \<notin> set l" "l \<noteq> [] \<longrightarrow> last l \<noteq> 13"
  shows "lines_of (l @ 10 # t) = l # lines_of t"
  using assms by (auto simp: lines_of_def split_inclusive_line strip_eol_def Let_def)

lemma trim_fixed:
  assumes "l = [] \<or> (\<not> is_ws (hd l) \<and> \<not> is_ws (last l))"
  shows "trim l = l"
proof (cases "l = []")
  case False
  with assms have "dropWhile is_ws l = l" "dropWhile is_ws (rev l) = rev l"
    unfolding dropWhile_eq_self_iff hd_rev by simp_all
  then show ?thesis by (simp add: trim_def)
qed (simp add: trim_def)

lemma trim_key_space: "k \<noteq> [] \<Longrightarrow> \<not> is_ws (hd k) \<Longrightarrow> \<not> is_ws (last k) \<Longrightarrow> trim (k @ [32]) = k"
  by (cases k) (auto simp: trim_def is_ws_def [of 32] dropWhile_eq_self_iff hd_rev simp flip: hd_rev)

text \<open>A key that can stand at the start of a directive line, and a value that trimming keeps.\<close>

definition key_ok :: "codes \<Rightarrow> bool" where
  "key_ok k \<longleftrightarrow> k \<noteq> [] \<and> (\<forall>c \<in> set k. \<not> is_ws c) \<and> hd k \<noteq> of_char CHR ''#''"

definition value_ok :: "codes \<Rightarrow> bool" where
  "value_ok v \<longleftrightarrow> 10 \<notin> set v \<and> (v = [] \<or> (\<not> is_ws (hd v) \<and> \<not> is_ws (last v)))"

lemma config_line_directive:
  assumes "key_ok k" "value_ok v"
  shows "config_line c n (k @ 32 # v) = directive c k v n"
proof -
  have k: "k \<noteq> []" "\<not> is_ws (hd k)" "\<not> is_ws (last k)" "take 1 k \<noteq> lit ''#''"
    using assms(1) by (auto simp: key_ok_def lit_def take_Suc neq_Nil_conv)
  have tw: "takeWhile (\<lambda>c. \<not> is_ws c) (k @ xs) = k @ takeWhile (\<lambda>c. \<not> is_ws c) xs"
    "dropWhile (\<lambda>c. \<not> is_ws c) (k @ xs) = dropWhile (\<lambda>c. \<not> is_ws c) xs" for xs
    using assms(1) by (auto simp: key_ok_def)
  have ws: "is_ws 32" by (simp add: is_ws_def)
  show ?thesis
  proof (cases "v = []")
    case True
    have "dropWhile (\<lambda>c. \<not> is_ws c) k = []" using tw(2) [of "[]"] by simp
    then have "split_once_ws k = None" by (simp only: split_once_ws_def list.case)
    with True k show ?thesis by (simp add: config_line_def trim_key_space)
  next
    case False
    then have "trim (k @ 32 # v) = k @ 32 # v"
      using assms(2) k by (intro trim_fixed) (simp add: value_ok_def)
    moreover have "split_once_ws (k @ 32 # v) = Some (k, v)"
      using tw [of "32 # v"] ws by (simp add: split_once_ws_def)
    moreover have "trim v = v" using assms(2) by (intro trim_fixed) (simp add: value_ok_def)
    moreover have "take 1 (k @ 32 # v) = take 1 k" using k(1) by (cases k) simp_all
    ultimately show ?thesis using k(1,4) by (simp only: config_line_def Let_def) simp
  qed
qed

text \<open>A configuration text made of directives, one per line.\<close>

definition render :: "(codes \<times> codes) list \<Rightarrow> codes" where
  "render items = concat (map (\<lambda>(k, v). k @ 32 # v @ [10]) items)"

fun directives :: "config \<Rightarrow> nat \<Rightarrow> (codes \<times> codes) list \<Rightarrow> config_error + config" where
  "directives c idx [] = Inr c"
| "directives c idx ((k, v) # kvs) =
     (case directive c k v (idx + 1) of Inl e \<Rightarrow> Inl e | Inr c \<Rightarrow> directives c (idx + 1) kvs)"

definition item_ok :: "codes \<times> codes \<Rightarrow> bool" where
  "item_ok kv \<longleftrightarrow> key_ok (fst kv) \<and> value_ok (snd kv)"

lemma lines_of_render:
  "\<forall>kv \<in> set items. item_ok kv \<Longrightarrow> lines_of (render items) = map (\<lambda>(k, v). k @ 32 # v) items"
proof (induction items)
  case Nil
  then show ?case by (simp add: render_def lines_of_def)
next
  case (Cons kv items)
  obtain k v where kv: "kv = (k, v)" by (cases kv)
  with Cons.prems have "key_ok k" "value_ok v" by (auto simp: item_ok_def)
  moreover have "is_ws 10" "is_ws 13" by (simp_all add: is_ws_def)
  ultimately have "10 \<notin> set (k @ 32 # v)" "last (k @ 32 # v) \<noteq> 13"
    by (auto simp: key_ok_def value_ok_def)
  then have "lines_of ((k @ 32 # v) @ 10 # render items) = (k @ 32 # v) # lines_of (render items)"
    by (intro lines_of_line) simp_all
  with Cons kv show ?case by (simp add: render_def)
qed

lemma config_lines_render:
  "\<forall>kv \<in> set items. item_ok kv \<Longrightarrow>
   config_lines c idx (map (\<lambda>(k, v). k @ 32 # v) items) = directives c idx items"
proof (induction items arbitrary: c idx)
  case (Cons kv items)
  obtain k v where kv: "kv = (k, v)" by (cases kv)
  with Cons.prems have "config_line c (idx + 1) (k @ 32 # v) = directive c k v (idx + 1)"
    by (intro config_line_directive) (auto simp: item_ok_def)
  with Cons kv show ?case by (cases "directive c k v (idx + 1)") simp_all
qed simp

lemma parse_render:
  "\<forall>kv \<in> set items. item_ok kv \<Longrightarrow> config_parse (render items) = directives config_default 0 items"
  by (simp add: config_parse_def lines_of_render config_lines_render)

section \<open>Unknown directives\<close>

definition known_keys :: "string list" where
  "known_keys =
     [''listen.udp'', ''listen.tcp'', ''listen.tcp_udp'', ''listen.udp.workers'', ''listen.udp.rcvbuf'',
      ''udp.connid_window'', ''tracker.redirect_url'', ''tracker.rootdir'', ''tracker.user'',
      ''metrics.listen'', ''l7.enable'', ''l7.reannounce_min_interval'', ''l7.score_ban_threshold'',
      ''l7.ban_duration'', ''l7.max_entries'', ''l7.max_offenders'', ''l7.reban_cooldown'',
      ''l7.fast_announce_gap'', ''nft.enable'', ''nft.table'', ''nft.set4'', ''nft.set6'']"

lemma directive_unknown:
  "key \<notin> lit ` set known_keys \<Longrightarrow> directive c key val line = Inr (c\<lparr>cf_unknown := cf_unknown c @ [key]\<rparr>)"
  by (simp add: known_keys_def directive_def l7_directive_def)

text \<open>Directives with unknown keys never fail whatever their value, change no
  setting, and are recorded in their order.\<close>

lemma unknown_directives_ignored:
  assumes "\<forall>kv \<in> set items. item_ok kv \<and> fst kv \<notin> lit ` set known_keys"
  shows "config_parse (render items) = Inr (config_default\<lparr>cf_unknown := map fst items\<rparr>)"
proof -
  have "directives c idx items = Inr (c\<lparr>cf_unknown := cf_unknown c @ map fst items\<rparr>)" for c idx
    using assms
  proof (induction items arbitrary: c idx)
    case (Cons kv items)
    then show ?case by (cases kv) (simp add: directive_unknown)
  qed simp
  then show ?thesis using assms by (simp add: parse_render config_default_def)
qed

section \<open>Printing and reading a configuration\<close>

definition num :: "nat \<Rightarrow> codes" where
  "num n = map unat (dec n)"

lemma utf8_ascii: "\<forall>b \<in> set bs. unat b < 0x80 \<Longrightarrow> utf8 (map unat bs) = bs"
  by (induction bs) (auto simp: utf8_def utf8_char_def)

lemma dec_ascii: "\<forall>b \<in> set (dec n). unat b < 0x80"
  using dec_digits [of n] by (auto simp: is_digit_def)

lemma utf8_num: "utf8 (num n) = dec n"
  unfolding num_def by (rule utf8_ascii [OF dec_ascii])

lemma fields_num:
  "field_u32 (num (unat w)) line = Inr w"
  "n \<le> usize_max \<Longrightarrow> field_usize (num n) line = Inr n"
  using unat_le_max [of w]
  by (simp_all add: field_u32_def field_usize_def utf8_num parse_uint_dec u32_max_def)

lemma num_codes: "c \<in> set (num n) \<Longrightarrow> 48 \<le> c \<and> c \<le> 57"
  using dec_digits [of n] by (auto simp: num_def is_digit_def)

lemma num_nonempty [simp]: "num n \<noteq> []"
  by (simp add: num_def)

lemma plain_not_ws: "33 \<le> c \<Longrightarrow> c \<le> 126 \<Longrightarrow> \<not> is_ws c"
  by (auto simp: is_ws_def)

lemma value_ok_plain:
  assumes "v \<noteq> []" "\<forall>c \<in> set v. 33 \<le> c \<and> c \<le> 126"
  shows "value_ok v"
proof -
  have "\<not> is_ws c \<and> c \<noteq> 10" if "c \<in> set v" for c
    using assms(2) that plain_not_ws [of c] by fastforce
  with assms(1) hd_in_set [of v] last_in_set [of v] show ?thesis
    unfolding value_ok_def by blast
qed

lemma value_ok_num: "value_ok (num n)"
proof (rule value_ok_plain)
  show "\<forall>c \<in> set (num n). 33 \<le> c \<and> c \<le> 126"
  proof
    fix c assume "c \<in> set (num n)"
    from num_codes [OF this] show "33 \<le> c \<and> c \<le> 126" by simp
  qed
qed simp

definition flag :: "bool \<Rightarrow> codes" where
  "flag b = (if b then lit ''yes'' else lit ''no'')"

lemma boolean_flag: "boolean (flag b) line = Inr b"
  by (simp add: boolean_def flag_def lit_eq_iff)

text \<open>A socket as text.\<close>

definition print_socket :: "socket_addr \<Rightarrow> codes" where
  "print_socket sa = map unat (print_addr sa)"

lemma print_socket_plain: "c \<in> set (print_socket sa) \<Longrightarrow> 33 \<le> c \<and> c \<le> 126"
  using print_addr_plain by (auto simp: print_socket_def)

lemma utf8_plain: "\<forall>b \<in> set bs. 33 \<le> unat b \<and> unat b \<le> 126 \<Longrightarrow> utf8 (map unat bs) = bs"
  by (rule utf8_ascii) fastforce

lemma utf8_socket: "utf8 (print_socket sa) = print_addr sa"
  unfolding print_socket_def using print_addr_plain by (intro utf8_plain) blast

lemma listen_print: "socket_ok sa \<Longrightarrow> listen_addr (print_socket sa) line = Inr sa"
  by (simp add: listen_addr_def utf8_socket parse_socket_print)

lemma field_print_socket: "socket_ok sa \<Longrightarrow> field_socket (print_socket sa) n = Inr sa"
  by (simp add: field_socket_def utf8_socket parse_socket_print)

lemma value_ok_socket: "value_ok (print_socket sa)"
proof (rule value_ok_plain)
  show "print_socket sa \<noteq> []" by (cases sa) (simp_all add: print_socket_def)
qed (use print_socket_plain in blast)

text \<open>A listen address prints and reads back: \<open>a.b.c.d:port\<close> gives that socket for
  every address and port, and a bare \<open>a.b.c.d\<close> gives the default port.\<close>

lemma listen_addr_roundtrip:
  assumes "length ip = 4"
  shows "listen_addr (map unat (print_v4 ip @ of_char CHR '':'' # dec (unat port))) line = Inr (SockV4 ip port) \<and>
    listen_addr (map unat (print_v4 ip)) line = Inr (SockV4 ip 6969)"
proof -
  have u: "utf8 (map unat (print_v4 ip)) = print_v4 ip"
    using print_v4_plain by (intro utf8_plain) blast
  have r: "read_ipv4 (print_v4 ip) = Some (ip, [])"
    using read_v4_print [OF assms, of "[]"] by simp
  moreover have "read_port [] = None" by (simp add: read_port_def)
  moreover have "print_v4 ip \<noteq> []" "read_char (of_char CHR ''['') (print_v4 ip) = None"
  proof -
    from assms obtain a b c d where ip: "ip = [a, b, c, d]"
      by (auto simp: numeral_eq_Suc length_Suc_conv)
    obtain x xs where x: "print_v4 ip = x # xs" "is_digit x"
      using dec_hd [of "unat a"] dec_nonempty [of "unat a"]
      by (cases "dec (unat a)") (auto simp: ip print_v4_def)
    have "\<not> is_digit (of_char CHR ''['')" by (simp add: is_digit_def)
    with x show "print_v4 ip \<noteq> []" "read_char (of_char CHR ''['') (print_v4 ip) = None" by auto
  qed
  ultimately have "parse_socket (print_v4 ip) = None" "parse_ip (print_v4 ip) = Some (IpV4 ip)"
    by (simp_all add: parse_socket_def parse_all_def read_socket_v4_def read_socket_v6_def parse_ip_def)
  with u listen_print [of "SockV4 ip port"] assms show ?thesis
    by (simp add: listen_addr_def DEFAULT_PORT_def print_socket_def)
qed

lemmas directive_defs = directive_def l7_directive_def lit_eq_iff

lemma directive_simps:
  "directive c (lit ''listen.udp'') v n = andthen (listen_addr v n) (\<lambda>sa. c\<lparr>cf_udp_listen := cf_udp_listen c @ [sa]\<rparr>)"
  "directive c (lit ''listen.tcp'') v n = andthen (listen_addr v n) (\<lambda>sa. c\<lparr>cf_tcp_listen := cf_tcp_listen c @ [sa]\<rparr>)"
  "directive c (lit ''listen.tcp_udp'') v n = andthen (listen_addr v n)
    (\<lambda>sa. c\<lparr>cf_udp_listen := cf_udp_listen c @ [sa], cf_tcp_listen := cf_tcp_listen c @ [sa]\<rparr>)"
  "directive c (lit ''listen.udp.workers'') v n = andthen (field_usize v n) (\<lambda>x. c\<lparr>cf_udp_workers := word_of_nat x\<rparr>)"
  "directive c (lit ''listen.udp.rcvbuf'') v n = andthen (field_usize v n) (\<lambda>x. c\<lparr>cf_udp_rcvbuf := Some (word_of_nat x)\<rparr>)"
  "directive c (lit ''udp.connid_window'') v n = andthen (field_u32 v n) (\<lambda>x. c\<lparr>cf_connid_window := x\<rparr>)"
  "directive c (lit ''tracker.redirect_url'') v n = Inr (c\<lparr>cf_redirect_url := Some v\<rparr>)"
  "directive c (lit ''tracker.rootdir'') v n = Inr (c\<lparr>cf_rootdir := Some v\<rparr>)"
  "directive c (lit ''tracker.user'') v n = Inr (c\<lparr>cf_user := Some v\<rparr>)"
  "directive c (lit ''metrics.listen'') v n = andthen (field_socket v n) (\<lambda>sa. c\<lparr>cf_metrics_listen := Some sa\<rparr>)"
  "directive c (lit ''l7.enable'') v n = andthen (boolean v n) (\<lambda>b. c\<lparr>cf_l7_enable := b\<rparr>)"
  "directive c (lit ''nft.enable'') v n = andthen (boolean v n) (\<lambda>b. c\<lparr>cf_nft_enable := b\<rparr>)"
  "directive c (lit ''nft.table'') v n = Inr (c\<lparr>cf_nft_table := v\<rparr>)"
  "directive c (lit ''nft.set4'') v n = Inr (c\<lparr>cf_nft_set4 := set_list v\<rparr>)"
  "directive c (lit ''nft.set6'') v n = Inr (c\<lparr>cf_nft_set6 := set_list v\<rparr>)"
  by (simp_all add: directive_defs)

lemma l7_directive_simps:
  "directive c (lit ''l7.reannounce_min_interval'') (num (unat w)) n =
    Inr (c\<lparr>cf_l7 := (cf_l7 c)\<lparr>reannounce_min_interval := w\<rparr>\<rparr>)"
  "directive c (lit ''l7.score_ban_threshold'') (num (unat w)) n =
    Inr (c\<lparr>cf_l7 := (cf_l7 c)\<lparr>score_ban_threshold := w\<rparr>\<rparr>)"
  "directive c (lit ''l7.ban_duration'') (num (unat w)) n = Inr (c\<lparr>cf_l7 := (cf_l7 c)\<lparr>ban_duration := w\<rparr>\<rparr>)"
  "m \<le> usize_max \<Longrightarrow>
    directive c (lit ''l7.max_entries'') (num m) n = Inr (c\<lparr>cf_l7 := (cf_l7 c)\<lparr>max_entries := m\<rparr>\<rparr>)"
  "m \<le> usize_max \<Longrightarrow>
    directive c (lit ''l7.max_offenders'') (num m) n = Inr (c\<lparr>cf_l7 := (cf_l7 c)\<lparr>max_offenders := m\<rparr>\<rparr>)"
  "directive c (lit ''l7.reban_cooldown'') (num (unat w)) n = Inr (c\<lparr>cf_l7 := (cf_l7 c)\<lparr>reban_cooldown := w\<rparr>\<rparr>)"
  "directive c (lit ''l7.fast_announce_gap'') (num (unat w)) n =
    Inr (c\<lparr>cf_l7 := (cf_l7 c)\<lparr>fast_announce_gap := w\<rparr>\<rparr>)"
  by (simp_all add: directive_defs fields_num)

definition print_opt :: "string \<Rightarrow> ('a \<Rightarrow> codes) \<Rightarrow> 'a option \<Rightarrow> (codes \<times> codes) list" where
  "print_opt key p x = (case x of None \<Rightarrow> [] | Some v \<Rightarrow> [(lit key, p v)])"

fun join_names :: "codes list \<Rightarrow> codes" where
  "join_names [] = []"
| "join_names [s] = s"
| "join_names (s # ss) = s @ of_char CHR '','' # join_names ss"

definition known_items :: "config \<Rightarrow> (codes \<times> codes) list" where
  "known_items c =
     map (\<lambda>sa. (lit ''listen.udp'', print_socket sa)) (cf_udp_listen c) @
     map (\<lambda>sa. (lit ''listen.tcp'', print_socket sa)) (cf_tcp_listen c) @
     [(lit ''listen.udp.workers'', num (unat (cf_udp_workers c)))] @
     print_opt ''listen.udp.rcvbuf'' (\<lambda>w. num (unat w)) (cf_udp_rcvbuf c) @
     [(lit ''udp.connid_window'', num (unat (cf_connid_window c)))] @
     print_opt ''tracker.redirect_url'' id (cf_redirect_url c) @
     print_opt ''tracker.rootdir'' id (cf_rootdir c) @
     print_opt ''tracker.user'' id (cf_user c) @
     print_opt ''metrics.listen'' print_socket (cf_metrics_listen c) @
     [(lit ''l7.enable'', flag (cf_l7_enable c)),
      (lit ''l7.reannounce_min_interval'', num (unat (reannounce_min_interval (cf_l7 c)))),
      (lit ''l7.score_ban_threshold'', num (unat (score_ban_threshold (cf_l7 c)))),
      (lit ''l7.ban_duration'', num (unat (ban_duration (cf_l7 c)))),
      (lit ''l7.max_entries'', num (max_entries (cf_l7 c))),
      (lit ''l7.max_offenders'', num (max_offenders (cf_l7 c))),
      (lit ''l7.reban_cooldown'', num (unat (reban_cooldown (cf_l7 c)))),
      (lit ''l7.fast_announce_gap'', num (unat (fast_announce_gap (cf_l7 c)))),
      (lit ''nft.enable'', flag (cf_nft_enable c)),
      (lit ''nft.table'', cf_nft_table c),
      (lit ''nft.set4'', join_names (cf_nft_set4 c)),
      (lit ''nft.set6'', join_names (cf_nft_set6 c))]"

text \<open>The settings, and the directives that name no setting.\<close>

definition config_items :: "config \<Rightarrow> (codes \<times> codes) list" where
  "config_items c = known_items c @ map (\<lambda>key. (key, [])) (cf_unknown c)"

definition name_ok :: "codes \<Rightarrow> bool" where
  "name_ok s \<longleftrightarrow> s \<noteq> [] \<and> value_ok s \<and> of_char CHR '','' \<notin> set s"

text \<open>Detector settings that differ from the defaults in the seven tunables only.\<close>

definition l7_tuned :: "l7_config \<Rightarrow> bool" where
  "l7_tuned l \<longleftrightarrow> max_entries l \<le> usize_max \<and> max_offenders l \<le> usize_max \<and>
     l = l7_config_default\<lparr>reannounce_min_interval := reannounce_min_interval l,
       score_ban_threshold := score_ban_threshold l, ban_duration := ban_duration l,
       max_entries := max_entries l, max_offenders := max_offenders l,
       reban_cooldown := reban_cooldown l, fast_announce_gap := fast_announce_gap l\<rparr>"

text \<open>The configurations a file can express: well-formed sockets of either family, values that
  trimming keeps, the detector's other tunables at their defaults, and unknown keys that are one
  word and not the start of a comment.\<close>

definition expressible :: "config \<Rightarrow> bool" where
  "expressible c \<longleftrightarrow>
     (\<forall>sa \<in> set (cf_udp_listen c) \<union> set (cf_tcp_listen c) \<union> set_option (cf_metrics_listen c). socket_ok sa) \<and>
     (\<forall>v \<in> set_option (cf_redirect_url c) \<union> set_option (cf_rootdir c) \<union> set_option (cf_user c). value_ok v) \<and>
     value_ok (cf_nft_table c) \<and> (\<forall>s \<in> set (cf_nft_set4 c) \<union> set (cf_nft_set6 c). name_ok s) \<and>
     l7_tuned (cf_l7 c) \<and>
     (\<forall>key \<in> set (cf_unknown c). key_ok key \<and> key \<notin> lit ` set known_keys)"

lemma split_codes_join:
  "\<forall>s \<in> set ss. of_char CHR '','' \<notin> set s \<Longrightarrow> ss \<noteq> [] \<Longrightarrow> split_codes (of_char CHR '','') (join_names ss) = ss"
proof (induction ss rule: join_names.induct)
  case (2 s)
  have "split_codes d s = [s]" if "d \<notin> set s" for d
    using that by (induction s) auto
  with 2 show ?case by simp
next
  case (3 s t ss)
  have "split_codes d (s @ d # r) = s # split_codes d r" if "d \<notin> set s" for d r
    using that by (induction s) auto
  with 3 show ?case by simp
qed simp

lemma set_list_join: "\<forall>s \<in> set ss. name_ok s \<Longrightarrow> set_list (join_names ss) = ss"
proof (cases "ss = []")
  case False
  assume ok: "\<forall>s \<in> set ss. name_ok s"
  then have "split_codes (of_char CHR '','') (join_names ss) = ss"
    using False by (intro split_codes_join) (auto simp: name_ok_def)
  moreover have "map trim ss = ss"
    using ok by (intro map_idI trim_fixed) (auto simp: name_ok_def value_ok_def)
  moreover have "filter (\<lambda>s. s \<noteq> []) ss = ss" using ok by (simp add: name_ok_def filter_id_conv)
  ultimately show ?thesis by (simp add: set_list_def)
qed (simp add: set_list_def trim_def)

lemma value_ok_join: "\<forall>s \<in> set ss. name_ok s \<Longrightarrow> value_ok (join_names ss)"
proof (induction ss rule: join_names.induct)
  case (3 s t ss)
  then have "join_names (t # ss) \<noteq> []" by (cases ss) (auto simp: name_ok_def)
  with 3 show ?case by (auto simp: name_ok_def value_ok_def)
qed (auto simp: name_ok_def value_ok_def)

lemma directives_append:
  "directives c idx (xs @ ys) =
     (case directives c idx xs of Inl e \<Rightarrow> Inl e | Inr c \<Rightarrow> directives c (idx + length xs) ys)"
proof (induction xs arbitrary: c idx)
  case (Cons kv xs)
  obtain k v where "kv = (k, v)" by (cases kv)
  with Cons show ?case by (cases "directive c k v (idx + 1)") (simp_all cong: sum.case_cong)
qed simp

lemma directives_udp:
  "\<forall>sa \<in> set sas. socket_ok sa \<Longrightarrow>
   directives c idx (map (\<lambda>sa. (lit ''listen.udp'', print_socket sa)) sas) =
     Inr (c\<lparr>cf_udp_listen := cf_udp_listen c @ sas\<rparr>)"
  by (induction sas arbitrary: c idx) (simp_all add: directive_simps listen_print)

lemma directives_tcp:
  "\<forall>sa \<in> set sas. socket_ok sa \<Longrightarrow>
   directives c idx (map (\<lambda>sa. (lit ''listen.tcp'', print_socket sa)) sas) =
     Inr (c\<lparr>cf_tcp_listen := cf_tcp_listen c @ sas\<rparr>)"
  by (induction sas arbitrary: c idx) (simp_all add: directive_simps listen_print)

lemma key_ok_known: "key \<in> set known_keys \<Longrightarrow> key_ok (lit key)"
proof -
  have "\<forall>key \<in> set known_keys. key \<noteq> [] \<and>
      (\<forall>ch \<in> set key. 33 \<le> (of_char ch :: nat) \<and> (of_char ch :: nat) \<le> 126) \<and> hd key \<noteq> CHR ''#''"
    by (simp add: known_keys_def)
  moreover assume "key \<in> set known_keys"
  ultimately have k: "key \<noteq> []" "\<forall>ch \<in> set key. 33 \<le> (of_char ch :: nat) \<and> (of_char ch :: nat) \<le> 126"
    "hd key \<noteq> CHR ''#''" by auto
  have "inj (of_char :: char \<Rightarrow> nat)" by (rule inj_on_inverseI [where g = char_of]) simp
  then have "of_char (hd key) \<noteq> (of_char CHR ''#'' :: nat)" using k(3) by (metis injD)
  then have "hd (lit key) \<noteq> of_char CHR ''#''" using k(1) by (simp add: lit_def hd_map)
  with k show ?thesis by (auto simp: key_ok_def lit_def dest: plain_not_ws)
qed

lemma value_ok_flag: "value_ok (flag b)"
  by (rule value_ok_plain) (auto simp: flag_def lit_def)

lemma items_ok:
  assumes "expressible c"
  shows "\<forall>kv \<in> set (config_items c). item_ok kv"
proof -
  have k: "item_ok (lit key, v)" if "key \<in> set known_keys" "value_ok v" for key v
    using that by (simp add: item_ok_def key_ok_known)
  have o: "\<forall>kv \<in> set (print_opt key p x). item_ok kv"
    if "key \<in> set known_keys" "\<And>v. x = Some v \<Longrightarrow> value_ok (p v)" for key and p :: "'a \<Rightarrow> codes" and x
    using that by (cases x) (simp_all add: print_opt_def k)
  note ok = assms [unfolded expressible_def]
  have "\<forall>kv \<in> set (known_items c). item_ok kv"
    unfolding known_items_def set_append ball_Un
    using ok
    by (intro conjI o) (auto simp: known_keys_def value_ok_num value_ok_socket value_ok_flag value_ok_join intro!: k)
  moreover have "\<forall>kv \<in> set (map (\<lambda>key. (key, [])) (cf_unknown c)). item_ok kv"
    using ok by (auto simp: item_ok_def value_ok_def)
  ultimately show ?thesis unfolding config_items_def set_append ball_Un by blast
qed

lemma unat_u64_usize: "unat (w :: u64) \<le> usize_max"
  using unat_le_max [of w] by (simp add: usize_max_def)

lemma directives_opt:
  "cf_udp_rcvbuf c = None \<Longrightarrow>
    directives c n (print_opt ''listen.udp.rcvbuf'' (\<lambda>w. num (unat w)) x) = Inr (c\<lparr>cf_udp_rcvbuf := x\<rparr>)"
  "cf_redirect_url c = None \<Longrightarrow>
    directives c n (print_opt ''tracker.redirect_url'' id y) = Inr (c\<lparr>cf_redirect_url := y\<rparr>)"
  "cf_rootdir c = None \<Longrightarrow>
    directives c n (print_opt ''tracker.rootdir'' id y) = Inr (c\<lparr>cf_rootdir := y\<rparr>)"
  "cf_user c = None \<Longrightarrow>
    directives c n (print_opt ''tracker.user'' id y) = Inr (c\<lparr>cf_user := y\<rparr>)"
  "cf_metrics_listen c = None \<Longrightarrow> \<forall>sa \<in> set_option z. socket_ok sa \<Longrightarrow>
    directives c n (print_opt ''metrics.listen'' print_socket z) = Inr (c\<lparr>cf_metrics_listen := z\<rparr>)"
  by (cases x; cases y; cases z;
      simp add: print_opt_def directive_simps fields_num unat_u64_usize field_print_socket)+

lemma directives_unknown:
  "\<forall>key \<in> set keys. key \<notin> lit ` set known_keys \<Longrightarrow>
   directives c n (map (\<lambda>key. (key, [])) keys) = Inr (c\<lparr>cf_unknown := cf_unknown c @ keys\<rparr>)"
  by (induction keys arbitrary: c n) (simp_all add: directive_unknown)

lemma parse_expressible:
  assumes "expressible c"
  shows "config_parse (render (config_items c)) = Inr c"
proof -
  note ok = assms [unfolded expressible_def l7_tuned_def]
  have l7: "l7_config_default\<lparr>reannounce_min_interval := reannounce_min_interval (cf_l7 c),
       score_ban_threshold := score_ban_threshold (cf_l7 c), ban_duration := ban_duration (cf_l7 c),
       max_entries := max_entries (cf_l7 c), max_offenders := max_offenders (cf_l7 c),
       reban_cooldown := reban_cooldown (cf_l7 c), fast_announce_gap := fast_announce_gap (cf_l7 c)\<rparr> = cf_l7 c"
    using ok by simp
  have known: "directives config_default 0 (known_items c) = Inr (c\<lparr>cf_unknown := []\<rparr>)"
    using ok
    by (simp add: known_items_def directives_append directives_udp directives_tcp directives_opt
        directive_simps l7_directive_simps fields_num unat_u64_usize boolean_flag set_list_join
        config_default_def l7)
  have "directives config_default 0 (config_items c) = Inr c"
    unfolding config_items_def directives_append known sum.case
    by (subst directives_unknown) (use ok in simp_all)
  then show ?thesis by (simp only: parse_render [OF items_ok [OF assms]])
qed

lemma expressible_default: "expressible config_default"
proof -
  have "is_ws 10 \<and> \<not> is_ws 105 \<and> \<not> is_ws 108 \<and> \<not> is_ws 114 \<and> \<not> is_ws 52 \<and> \<not> is_ws 54"
    by (simp add: is_ws_def)
  then show ?thesis
    by (simp add: expressible_def l7_tuned_def config_default_def name_ok_def value_ok_def lit_def
        l7_config_default_def usize_max_def)
qed

section \<open>What the parser returns can be expressed\<close>

lemma split_inclusive_pieces: "l \<in> set (split_inclusive t) \<Longrightarrow> l \<noteq> [] \<and> 10 \<notin> set (butlast l)"
  by (induction t arbitrary: l) (auto split: list.splits if_splits)

lemma lines_of_no_newline:
  assumes "l \<in> set (lines_of t)"
  shows "10 \<notin> set l"
proof -
  from assms obtain p where p: "p \<in> set (split_inclusive t)" "l = strip_eol p"
    by (auto simp: lines_of_def)
  from split_inclusive_pieces [OF p(1)] have b: "p = butlast p @ [last p]" "10 \<notin> set (butlast p)" by simp_all
  then have "10 \<notin> set (butlast (butlast p))" by (blast dest: in_set_butlastD)
  moreover have "10 \<notin> set p" if "last p \<noteq> 10" using b that by (metis Un_iff set_ConsD set_append set_empty2 empty_iff empty_set)
  ultimately show ?thesis using b(2) by (auto simp: p(2) strip_eol_def Let_def)
qed

lemma in_dropWhile: "x \<in> set (dropWhile P s) \<Longrightarrow> x \<in> set s"
  by (induction s) (auto split: if_splits)

lemma set_trim: "set (trim s) \<subseteq> set s"
proof
  fix x assume "x \<in> set (trim s)"
  then have "x \<in> set (dropWhile is_ws (rev (dropWhile is_ws s)))" by (simp only: trim_def set_rev)
  from in_dropWhile [OF this] show "x \<in> set s" using in_dropWhile [of x is_ws s] by simp
qed

lemma trim_ends:
  assumes "trim s \<noteq> []"
  shows "\<not> is_ws (hd (trim s))" "\<not> is_ws (last (trim s))"
proof -
  let ?u = "dropWhile is_ws s"
  have r: "dropWhile is_ws (rev ?u) \<noteq> []" using assms by (simp only: trim_def rev_is_Nil_conv not_False_eq_True)
  then have u: "?u \<noteq> []" by (metis dropWhile.simps(1) rev.simps(1))
  from r show "\<not> is_ws (last (trim s))" by (simp add: trim_def last_rev hd_dropWhile)
  have "rev ?u = takeWhile is_ws (rev ?u) @ dropWhile is_ws (rev ?u)" by simp
  then have "?u = trim s @ rev (takeWhile is_ws (rev ?u))" unfolding trim_def by (metis rev_append rev_rev_ident)
  then have "hd ?u = hd (trim s)" using assms by (metis hd_append2)
  with u show "\<not> is_ws (hd (trim s))" by (metis hd_dropWhile)
qed

lemma value_ok_trim: "10 \<notin> set s \<Longrightarrow> value_ok (trim s)"
  using set_trim [of s] trim_ends [of s] by (auto simp: value_ok_def)

lemma split_codes_parts: "p \<in> set (split_codes d s) \<Longrightarrow> set p \<subseteq> set s \<and> d \<notin> set p"
  by (induction s arbitrary: p) (fastforce split: list.splits if_splits)+

lemma name_ok_set_list:
  assumes "value_ok v" "s \<in> set (set_list v)"
  shows "name_ok s"
proof -
  from assms(2) obtain p where p: "p \<in> set (split_codes (of_char CHR '','') v)" "s = trim p" "s \<noteq> []"
    by (auto simp: set_list_def)
  from split_codes_parts [OF p(1)] assms(1) have "10 \<notin> set p" "of_char CHR '','' \<notin> set p"
    by (auto simp: value_ok_def)
  with p(2,3) value_ok_trim [of p] set_trim [of p] show ?thesis by (auto simp: name_ok_def)
qed

lemma fields_bounded:
  "field_usize v n = Inr m \<Longrightarrow> m \<le> usize_max"
  "field_socket v n = Inr sa \<Longrightarrow> socket_ok sa"
  "listen_addr v n = Inr sa \<Longrightarrow> socket_ok sa"
  by (auto simp: field_usize_def field_socket_def listen_addr_def parse_uint_iff
      dest: parse_socket_ok split: option.splits intro: parse_ip_ok)

lemma andthen_Inr: "andthen r k = Inr y \<longleftrightarrow> (\<exists>x. r = Inr x \<and> y = k x)"
  by (cases r) auto

lemma l7_tuned_updates:
  assumes "l7_tuned l"
  shows "l7_tuned (l\<lparr>reannounce_min_interval := w\<rparr>)" "l7_tuned (l\<lparr>score_ban_threshold := w\<rparr>)"
    "l7_tuned (l\<lparr>ban_duration := w\<rparr>)" "m \<le> usize_max \<Longrightarrow> l7_tuned (l\<lparr>max_entries := m\<rparr>)"
    "m \<le> usize_max \<Longrightarrow> l7_tuned (l\<lparr>max_offenders := m\<rparr>)" "l7_tuned (l\<lparr>reban_cooldown := w\<rparr>)"
    "l7_tuned (l\<lparr>fast_announce_gap := w\<rparr>)"
  using assms by (cases l; simp add: l7_tuned_def l7_config_default_def)+

lemma l7_tuned_directive: "l7_directive l key val n = Some (Inr l') \<Longrightarrow> l7_tuned l \<Longrightarrow> l7_tuned l'"
  by (auto simp: l7_directive_def andthen_Inr intro: l7_tuned_updates dest: fields_bounded split: if_splits)

lemma expressible_updates:
  assumes "expressible c"
  shows "socket_ok sa \<Longrightarrow> expressible (c\<lparr>cf_udp_listen := cf_udp_listen c @ [sa]\<rparr>)"
    "socket_ok sa \<Longrightarrow> expressible (c\<lparr>cf_tcp_listen := cf_tcp_listen c @ [sa]\<rparr>)"
    "socket_ok sa \<Longrightarrow>
      expressible (c\<lparr>cf_udp_listen := cf_udp_listen c @ [sa], cf_tcp_listen := cf_tcp_listen c @ [sa]\<rparr>)"
    "expressible (c\<lparr>cf_udp_workers := x\<rparr>)" "expressible (c\<lparr>cf_udp_rcvbuf := y\<rparr>)"
    "expressible (c\<lparr>cf_connid_window := w\<rparr>)" "value_ok v \<Longrightarrow> expressible (c\<lparr>cf_redirect_url := Some v\<rparr>)"
    "value_ok v \<Longrightarrow> expressible (c\<lparr>cf_rootdir := Some v\<rparr>)" "value_ok v \<Longrightarrow> expressible (c\<lparr>cf_user := Some v\<rparr>)"
    "socket_ok sa \<Longrightarrow> expressible (c\<lparr>cf_metrics_listen := Some sa\<rparr>)" "expressible (c\<lparr>cf_l7_enable := b\<rparr>)"
    "expressible (c\<lparr>cf_nft_enable := b\<rparr>)" "value_ok v \<Longrightarrow> expressible (c\<lparr>cf_nft_table := v\<rparr>)"
    "value_ok v \<Longrightarrow> expressible (c\<lparr>cf_nft_set4 := set_list v\<rparr>)"
    "value_ok v \<Longrightarrow> expressible (c\<lparr>cf_nft_set6 := set_list v\<rparr>)" "l7_tuned l \<Longrightarrow> expressible (c\<lparr>cf_l7 := l\<rparr>)"
  using assms name_ok_set_list [of v] by (auto simp: expressible_def)

lemma expressible_unknown:
  "expressible c \<Longrightarrow> key_ok key \<Longrightarrow> key \<notin> lit ` set known_keys \<Longrightarrow>
   expressible (c\<lparr>cf_unknown := cf_unknown c @ [key]\<rparr>)"
  by (simp add: expressible_def del: image_eqI image_iff)

definition l7_keys :: "string list" where
  "l7_keys = [''l7.reannounce_min_interval'', ''l7.score_ban_threshold'', ''l7.ban_duration'', ''l7.max_entries'',
     ''l7.max_offenders'', ''l7.reban_cooldown'', ''l7.fast_announce_gap'']"

lemma directive_l7:
  "k \<in> set l7_keys \<Longrightarrow> \<exists>r. l7_directive (cf_l7 c) (lit k) v n = Some r \<and>
    directive c (lit k) v n = andthen r (\<lambda>l. c\<lparr>cf_l7 := l\<rparr>)"
  by (auto simp: l7_keys_def directive_def l7_directive_def lit_eq_iff)

lemma expressible_known:
  assumes "directive c (lit k) val n = Inr c'" "expressible c" "value_ok val" "k \<in> set known_keys"
  shows "expressible c'"
proof (cases "k \<in> set l7_keys")
  case True
  then obtain r where r: "l7_directive (cf_l7 c) (lit k) val n = Some r"
    "directive c (lit k) val n = andthen r (\<lambda>l. c\<lparr>cf_l7 := l\<rparr>)"
    using directive_l7 by blast
  from assms(1) obtain l where "r = Inr l" "c' = c\<lparr>cf_l7 := l\<rparr>" unfolding r(2) andthen_Inr by blast
  with r(1) have "l7_directive (cf_l7 c) (lit k) val n = Some (Inr l)" "c' = c\<lparr>cf_l7 := l\<rparr>" by simp_all
  moreover have "l7_tuned (cf_l7 c)" using assms(2) by (simp add: expressible_def)
  ultimately show ?thesis using expressible_updates(16) [OF assms(2)] l7_tuned_directive by blast
next
  case False
  with assms(4) have "k \<in> set (filter (\<lambda>k. k \<notin> set l7_keys) known_keys)" by simp
  then have "k \<in> set [''listen.udp'', ''listen.tcp'', ''listen.tcp_udp'', ''listen.udp.workers'', ''listen.udp.rcvbuf'',
      ''udp.connid_window'', ''tracker.redirect_url'', ''tracker.rootdir'', ''tracker.user'',
      ''metrics.listen'', ''l7.enable'', ''nft.enable'', ''nft.table'', ''nft.set4'', ''nft.set6'']"
    by (simp add: known_keys_def l7_keys_def)
  with assms(1,3) show ?thesis
    by (auto simp: directive_simps andthen_Inr intro!: expressible_updates [OF assms(2)] dest: fields_bounded)
qed

lemma expressible_directive:
  assumes "directive c key val n = Inr c'" "expressible c" "key_ok key" "value_ok val"
  shows "expressible c'"
proof (cases "key \<in> lit ` set known_keys")
  case False
  with assms directive_unknown [OF False, of c val n] expressible_unknown show ?thesis by auto
qed (use assms expressible_known in blast)

lemma split_once_ws_key:
  assumes "split_once_ws s = Some (k, v)" "s \<noteq> []" "\<not> is_ws (hd s)" "take 1 s \<noteq> lit ''#''"
  shows "key_ok k" "set v \<subseteq> set s"
proof -
  from assms(1) obtain c where d: "dropWhile (\<lambda>c. \<not> is_ws c) s = c # v" "k = takeWhile (\<lambda>c. \<not> is_ws c) s"
    by (auto simp: split_once_ws_def split: list.splits)
  then have "set (c # v) \<subseteq> set s" using in_dropWhile [of _ "\<lambda>c. \<not> is_ws c" s] by (metis subsetI)
  then show "set v \<subseteq> set s" by simp
  from assms(2-4) d(2) show "key_ok k" by (cases s) (auto simp: key_ok_def lit_def dest: set_takeWhileD)
qed

lemma split_once_ws_none:
  assumes "split_once_ws s = None" "s \<noteq> []" "take 1 s \<noteq> lit ''#''"
  shows "key_ok s"
proof -
  have "dropWhile (\<lambda>c. \<not> is_ws c) s = []" using assms(1) by (auto simp: split_once_ws_def split: list.splits)
  then have "\<forall>c \<in> set s. \<not> is_ws c" by (simp add: dropWhile_eq_Nil_conv)
  with assms(2,3) show ?thesis by (cases s) (auto simp: key_ok_def lit_def)
qed

lemma expressible_line:
  assumes "config_line c n raw = Inr c'" "expressible c" "10 \<notin> set raw"
  shows "expressible c'"
proof (cases "trim raw = [] \<or> take 1 (trim raw) = lit ''#''")
  case True
  with assms show ?thesis by (simp add: config_line_def)
next
  case False
  note ends = trim_ends [of raw]
  show ?thesis
  proof (cases "split_once_ws (trim raw)")
    case None
    with assms(1) False have "directive c (trim raw) [] n = Inr c'" by (simp add: config_line_def)
    moreover from None False have "key_ok (trim raw)" by (intro split_once_ws_none) auto
    ultimately show ?thesis using assms(2) expressible_directive by (auto simp: value_ok_def)
  next
    case (Some kv)
    obtain k v where kv: "kv = (k, v)" by (cases kv)
    with assms(1) False Some have "directive c k (trim v) n = Inr c'" by (simp add: config_line_def)
    moreover from split_once_ws_key [of "trim raw" k v] Some kv False ends
    have "key_ok k" "set v \<subseteq> set (trim raw)" by auto
    moreover from this(2) have "10 \<notin> set v" using assms(3) set_trim [of raw] by blast
    ultimately show ?thesis using assms(2) expressible_directive value_ok_trim by blast
  qed
qed

lemma expressible_lines:
  "config_lines c idx ls = Inr c' \<Longrightarrow> expressible c \<Longrightarrow> \<forall>l \<in> set ls. 10 \<notin> set l \<Longrightarrow> expressible c'"
  by (induction ls arbitrary: c idx) (auto intro: expressible_line split: sum.splits)

lemma expressible_parse: "config_parse t = Inr c \<Longrightarrow> expressible c"
  using expressible_lines [OF _ expressible_default] lines_of_no_newline
  by (auto simp: config_parse_def)

text \<open>C36. A configuration is the result of parsing some file exactly when its sockets are
  well formed (of either family, with any port and scope), its values are trimmed single lines,
  its set names have no comma, its unknown keys are single words that no directive has, and the
  detector's settings differ from the defaults in the seven tunables only; and every such
  configuration is read back exactly from its printed form, with every listen address, optional
  setting, flag, list of sets and unknown key in its order.\<close>

theorem config_roundtrip:
  "((\<exists>t. config_parse t = Inr c) \<longleftrightarrow> expressible c) \<and>
   (expressible c \<longrightarrow> config_parse (render (config_items c)) = Inr c)"
  using parse_expressible expressible_parse by blast

theorem config_roundtrip_witness:
  "let c = config_default\<lparr>cf_udp_listen := [SockV6 (replicate 15 0 @ [1]) 2710 3, SockV4 [10, 0, 0, 1] 80],
      cf_nft_set4 := [lit ''a'', lit ''b''], cf_unknown := [lit ''x'', lit ''y'']\<rparr>
   in config_parse (render (config_items c)) = Inr c"
proof -
  let ?c = "config_default\<lparr>cf_udp_listen := [SockV6 (replicate 15 0 @ [1]) 2710 3, SockV4 [10, 0, 0, 1] 80],
      cf_nft_set4 := [lit ''a'', lit ''b''], cf_unknown := [lit ''x'', lit ''y'']\<rparr>"
  have "key_ok (lit ''x'')" "key_ok (lit ''y'')" "name_ok (lit ''a'')" "name_ok (lit ''b'')"
    by (simp_all add: key_ok_def name_ok_def value_ok_def lit_def is_ws_def)
  moreover have "lit ''x'' \<notin> lit ` set known_keys" "lit ''y'' \<notin> lit ` set known_keys"
    by (simp_all add: known_keys_def lit_eq_iff)
  moreover have "expressible config_default" by (rule expressible_default)
  ultimately have "expressible ?c" by (simp add: expressible_def)
  then show ?thesis using config_roundtrip [of ?c] by (simp only: Let_def)
qed

section \<open>Comments on value lines\<close>

text \<open>
  Only a line that starts with \<open>#\<close> is a comment. The head of the shipped
  \<open>bluefrog.conf.sample\<close>, whose own header promises that comments are ignored, ends with a
  directive that carries one.
\<close>

definition sample_head :: "codes list" where
  "sample_head =
     [lit ''# bluefrog config. Directives are `section.key value`; `#` comments and blank lines are ignored;'',
      lit ''# unrecognised directives are parsed and ignored.'',
      lit '''',
      lit ''# --- listen ---------------------------------------------------------------------------------'',
      lit ''# UDP is the tracker; HTTP is optional. Use [::] for dual-stack.'',
      lit ''listen.udp [::]:2710'',
      lit ''listen.tcp [::]:27108'',
      lit ''listen.udp.workers 16          # SO_REUSEPORT sockets/tasks (default: 1)'']"

lemma field_trailing_comment:
  assumes "is_ws c" "c < 0x80" "v \<noteq> []"
  shows "field_u32 (num n @ c # v) line = Inl (invalid (num n @ c # v) line) \<and>
    field_usize (num n @ c # v) line = Inl (invalid (num n @ c # v) line)"
proof -
  have "utf8 (xs @ ys) = utf8 xs @ utf8 ys" for xs ys by (simp add: utf8_def)
  then have u: "utf8 (num n @ c # v) = dec n @ word_of_nat c # utf8 v"
    using assms(2) by (simp add: utf8_num) (simp add: utf8_def utf8_char_def)
  have nd: "\<not> is_digit (word_of_nat c)"
    using assms(1,2) by (auto simp: is_digit_def is_ws_def unat_of_nat)
  have "parse_uint mx (dec n @ word_of_nat c # w) = None" for mx w
  proof (rule ccontr)
    assume "parse_uint mx (dec n @ word_of_nat c # w) \<noteq> None"
    then obtain m where "parse_uint mx (dec n @ word_of_nat c # w) = Some m" by blast
    then have "\<exists>ds. (dec n @ word_of_nat c # w = ds \<or> dec n @ word_of_nat c # w = of_char CHR ''+'' # ds) \<and>
        (\<forall>d \<in> set ds. is_digit d)"
      by (auto simp: parse_uint_iff)
    then obtain ds where d: "dec n @ word_of_nat c # w = ds \<or> dec n @ word_of_nat c # w = of_char CHR ''+'' # ds"
      "\<forall>d \<in> set ds. is_digit d" by blast
    have "\<not> is_digit (of_char CHR ''+'')" by (simp add: is_digit_def)
    with d nd dec_hd [of n] show False by (cases "dec n") auto
  qed
  with u show ?thesis by (simp add: field_u32_def field_usize_def)
qed

lemma lines_of_known:
  "\<forall>l \<in> set ls. 10 \<notin> set l \<and> (l \<noteq> [] \<longrightarrow> last l \<noteq> 13) \<Longrightarrow>
   lines_of (concat (map (\<lambda>l. l @ [10]) ls) @ rest) = ls @ lines_of rest"
  by (induction ls) (simp_all add: lines_of_line)

lemma comment_line: "config_line c n (of_char CHR ''#'' # l) = Inr c"
proof -
  have "\<not> is_ws (of_char CHR ''#'')" by (simp add: is_ws_def)
  then have "take 1 (trim (of_char CHR ''#'' # l)) = lit ''#''"
    by (simp add: trim_def dropWhile_append lit_def)
  then show ?thesis by (simp add: config_line_def Let_def)
qed

lemma empty_line: "config_line c n (lit []) = Inr c"
  by (simp add: config_line_def trim_def lit_def)

text \<open>The wildcard IPv6 socket, on any port.\<close>

lemma read_groups_stop:
  assumes "digit_of 16 c = None" "digit_of 10 c = None"
  shows "read_groups k 0 acc (c # b) = (acc, False, c # b)"
  using assms
  by (cases k)
    (simp_all add: read_sep_def read_ipv4_def read_octet_def read_number_upto_def finish_number_def)

lemma digit_of_punctuation:
  "digit_of r (of_char CHR '':'') = None" "digit_of r (of_char CHR '']'') = None"
  "digit_of r (of_char CHR ''['') = None"
  by (simp_all add: digit_of_def hex_val_def)

definition wildcard :: "u16 \<Rightarrow> bytes" where
  "wildcard port = of_char CHR ''['' # of_char CHR '':'' # of_char CHR '':'' # of_char CHR '']'' #
     of_char CHR '':'' # dec (unat port)"

lemma wildcard_print: "print_addr (SockV6 (replicate 16 0) port 0) = wildcard port"
proof -
  have "print_v6 (replicate 16 0) = [of_char CHR '':'', of_char CHR '':'']" by code_simp
  then show ?thesis by (simp add: wildcard_def)
qed

lemma parse_socket_wildcard: "parse_socket (wildcard port) = Some (SockV6 (replicate 16 0) port 0)"
  using parse_socket_print [of "SockV6 (replicate 16 0) port 0"] by (simp only: wildcard_print) simp

lemma listen_wildcard: "listen_addr (map unat (wildcard port)) n = Inr (SockV6 (replicate 16 0) port 0)"
  using listen_print [of "SockV6 (replicate 16 0) port 0"]
  by (simp only: print_socket_def wildcard_print) simp

lemma sample_listen:
  "listen_addr (lit ''[::]:2710'') n = Inr (SockV6 (replicate 16 0) 2710 0)"
  "listen_addr (lit ''[::]:27108'') n = Inr (SockV6 (replicate 16 0) 27108 0)"
  using listen_wildcard [of 2710 n] listen_wildcard [of 27108 n]
  by (simp_all add: wildcard_def lit_def dec.simps)

text \<open>Whatever follows, the configuration that starts like the shipped sample is rejected at
  its eighth line, the comment being taken for part of the number.\<close>

lemma sample_rejected:
  "config_parse (concat (map (\<lambda>l. l @ [10]) sample_head) @ rest) =
    Inl \<lparr>ce_line = 8, ce_message =
      InvalidValue (lit ''16          # SO_REUSEPORT sockets/tasks (default: 1)'')\<rparr>"
proof -
  let ?v = "lit ''16          # SO_REUSEPORT sockets/tasks (default: 1)''"
  have ws: "is_ws 32" by (simp add: is_ws_def)
  have "num 16 = lit ''16''" by (simp add: num_def dec.simps lit_def)
  then have v: "?v = num 16 @ 32 # lit ''         # SO_REUSEPORT sockets/tasks (default: 1)''"
    by (simp add: lit_def)
  have f: "field_usize ?v n = Inl (invalid ?v n)" for n
    unfolding v using field_trailing_comment [OF ws] by (simp add: lit_def)
  have keys: "key_ok (lit ''listen.udp'')" "key_ok (lit ''listen.tcp'')" "key_ok (lit ''listen.udp.workers'')"
    by (simp_all add: key_ok_def lit_def is_ws_def)
  have vals: "value_ok (lit ''[::]:2710'')" "value_ok (lit ''[::]:27108'')" "value_ok ?v"
    by (simp_all add: value_ok_def lit_def is_ws_def)
  have split: "lit ''listen.udp [::]:2710'' = lit ''listen.udp'' @ 32 # lit ''[::]:2710''"
    "lit ''listen.tcp [::]:27108'' = lit ''listen.tcp'' @ 32 # lit ''[::]:27108''"
    "lit ''listen.udp.workers 16          # SO_REUSEPORT sockets/tasks (default: 1)'' =
      lit ''listen.udp.workers'' @ 32 # ?v"
    by (simp_all add: lit_def)
  have "lines_of (concat (map (\<lambda>l. l @ [10]) sample_head) @ rest) = sample_head @ lines_of rest"
    by (rule lines_of_known) (simp add: sample_head_def lit_def)
  moreover have "config_line c n (lit (CHR ''#'' # s)) = Inr c" for c n s
    using comment_line by (simp add: lit_def)
  ultimately show ?thesis
    by (simp add: config_parse_def sample_head_def empty_line split invalid_def
        config_line_directive [OF keys(1) vals(1)] config_line_directive [OF keys(2) vals(2)]
        config_line_directive [OF keys(3) vals(3)] directive_simps sample_listen f)
qed

end
