(* ===== verification/Metrics.thy ===== *)
theory Metrics
  imports Http_Query
begin

text \<open>
  crates/bf-metrics/src/lib.rs: the tracker's counters and their text exposition. A counter is an
  atomic \<open>u64\<close> that wraps; an increment is one step. The exposition is checked against a
  reader of the format.
\<close>

record metrics =
  udp_announces :: u64
  udp_scrapes :: u64
  udp_connects :: u64
  udp_connid_mismatch :: u64
  udp_dropped :: u64
  http_announces :: u64
  http_scrapes :: u64
  m_errors :: u64
  l7_flagged :: u64
  l7_bans :: u64
  l7_bans_escalated :: u64
  nft_errors :: u64

datatype counter = UdpAnnounce | UdpScrape | UdpConnect | UdpConnidMismatch | UdpDropped
  | HttpAnnounce | HttpScrape | Error | L7Flagged | L7Ban | L7BanEscalated | NftError

record gauges =
  g_torrents :: u64
  g_seeders :: u64
  g_leechers :: u64
  g_l7_tracked :: u64
  g_l7_offenders :: u64

definition metrics_new :: metrics where
  "metrics_new =
     \<lparr>udp_announces = 0, udp_scrapes = 0, udp_connects = 0, udp_connid_mismatch = 0, udp_dropped = 0,
      http_announces = 0, http_scrapes = 0, m_errors = 0, l7_flagged = 0, l7_bans = 0,
      l7_bans_escalated = 0, nft_errors = 0\<rparr>"

text \<open>\<open>Metrics::field\<close>, as the pair of reading and updating the field it borrows.\<close>

primrec field :: "counter \<Rightarrow> metrics \<Rightarrow> u64" where
  "field UdpAnnounce m = udp_announces m"
| "field UdpScrape m = udp_scrapes m"
| "field UdpConnect m = udp_connects m"
| "field UdpConnidMismatch m = udp_connid_mismatch m"
| "field UdpDropped m = udp_dropped m"
| "field HttpAnnounce m = http_announces m"
| "field HttpScrape m = http_scrapes m"
| "field Error m = m_errors m"
| "field L7Flagged m = l7_flagged m"
| "field L7Ban m = l7_bans m"
| "field L7BanEscalated m = l7_bans_escalated m"
| "field NftError m = nft_errors m"

primrec field_update :: "counter \<Rightarrow> (u64 \<Rightarrow> u64) \<Rightarrow> metrics \<Rightarrow> metrics" where
  "field_update UdpAnnounce f m = m\<lparr>udp_announces := f (udp_announces m)\<rparr>"
| "field_update UdpScrape f m = m\<lparr>udp_scrapes := f (udp_scrapes m)\<rparr>"
| "field_update UdpConnect f m = m\<lparr>udp_connects := f (udp_connects m)\<rparr>"
| "field_update UdpConnidMismatch f m = m\<lparr>udp_connid_mismatch := f (udp_connid_mismatch m)\<rparr>"
| "field_update UdpDropped f m = m\<lparr>udp_dropped := f (udp_dropped m)\<rparr>"
| "field_update HttpAnnounce f m = m\<lparr>http_announces := f (http_announces m)\<rparr>"
| "field_update HttpScrape f m = m\<lparr>http_scrapes := f (http_scrapes m)\<rparr>"
| "field_update Error f m = m\<lparr>m_errors := f (m_errors m)\<rparr>"
| "field_update L7Flagged f m = m\<lparr>l7_flagged := f (l7_flagged m)\<rparr>"
| "field_update L7Ban f m = m\<lparr>l7_bans := f (l7_bans m)\<rparr>"
| "field_update L7BanEscalated f m = m\<lparr>l7_bans_escalated := f (l7_bans_escalated m)\<rparr>"
| "field_update NftError f m = m\<lparr>nft_errors := f (nft_errors m)\<rparr>"

text \<open>\<open>fetch_add\<close> wraps around.\<close>

definition inc :: "counter \<Rightarrow> metrics \<Rightarrow> metrics" where
  "inc c m = field_update c (\<lambda>v. v + 1) m"

definition COUNTERS :: "(string \<times> counter) list" where
  "COUNTERS =
     [(''bf_udp_announces_total'', UdpAnnounce),
      (''bf_udp_scrapes_total'', UdpScrape),
      (''bf_udp_connects_total'', UdpConnect),
      (''bf_udp_connid_mismatch_total'', UdpConnidMismatch),
      (''bf_udp_dropped_total'', UdpDropped),
      (''bf_http_announces_total'', HttpAnnounce),
      (''bf_http_scrapes_total'', HttpScrape),
      (''bf_errors_total'', Error),
      (''bf_l7_flagged_total'', L7Flagged),
      (''bf_l7_bans_total'', L7Ban),
      (''bf_l7_bans_escalated_total'', L7BanEscalated),
      (''bf_nft_errors_total'', NftError)]"

definition GAUGES :: "gauges \<Rightarrow> (string \<times> u64) list" where
  "GAUGES g =
     [(''bf_torrents'', g_torrents g),
      (''bf_seeders'', g_seeders g),
      (''bf_leechers'', g_leechers g),
      (''bf_l7_tracked_sources'', g_l7_tracked g),
      (''bf_l7_offenders'', g_l7_offenders g)]"

text \<open>One formatted sample of the given type.\<close>

definition sample :: "string \<Rightarrow> string \<Rightarrow> u64 \<Rightarrow> bytes" where
  "sample kind name v =
     str ''# TYPE '' @ str name @ str '' '' @ str kind @ [10] @ str name @ str '' '' @ dec (unat v) @ [10]"

definition metrics_render :: "metrics \<Rightarrow> gauges \<Rightarrow> bytes" where
  "metrics_render m g =
     (let out = [];
          out = foldl (\<lambda>out (name, c). out @ sample ''counter'' name (field c m)) out COUNTERS;
          out = foldl (\<lambda>out (name, v). out @ sample ''gauge'' name v) out (GAUGES g)
      in out)"

section \<open>Counting\<close>

lemma field_inc [simp]: "field c (inc d m) = (if c = d then field c m + 1 else field c m)"
  by (cases c; cases d) (simp_all add: inc_def)

lemma metrics_eqI: "(\<And>c. field c m = field c n) \<Longrightarrow> m = (n :: metrics)"
  using field.simps by (metis (full_types) metrics.equality unit.exhaust)

lemma field_new [simp]: "field c metrics_new = 0"
  by (cases c) (simp_all add: metrics_new_def)

lemma field_incs: "field c (fold inc cs m) = field c m + word_of_nat (count_list cs c)"
  by (induction cs arbitrary: m) (simp_all add: ac_simps)

text \<open>However the increments of the workers interleave, each counter holds the
  number of its own increments (modulo \<open>2^64\<close>): two orders of the same increments leave
  the same metrics.\<close>

lemma counters_independent:
  "field c (fold inc cs metrics_new) = word_of_nat (length (filter (\<lambda>d. d = c) cs)) \<and>
   (mset cs = mset ds \<longrightarrow> fold inc cs m = fold inc ds m)"
proof -
  have n: "count_list cs c = length (filter (\<lambda>d. d = c) cs)" for cs c
    by (induction cs) auto
  have "fold inc cs m = fold inc ds m" if "mset cs = mset ds"
  proof (rule metrics_eqI)
    fix c
    have "count_list cs c = count_list ds c"
      unfolding n using that by (metis mset_filter size_mset)
    then show "field c (fold inc cs m) = field c (fold inc ds m)" by (simp add: field_incs)
  qed
  then show ?thesis by (simp add: field_incs n)
qed

section \<open>Reading the exposition\<close>

text \<open>A scraper of the text format: the lines that are no comments, split at the space.\<close>

definition read_sample :: "bytes \<Rightarrow> (bytes \<times> nat) option" where
  "read_sample l =
     (case split_once 0x20 l of
        Some (name, v) \<Rightarrow> map_option (\<lambda>n. (name, n)) (parse_uint (2 ^ 64 - 1) v)
      | None \<Rightarrow> None)"

definition is_comment :: "bytes \<Rightarrow> bool" where
  "is_comment l \<longleftrightarrow> l = [] \<or> take 1 l = str ''#''"

definition scrape_samples :: "bytes \<Rightarrow> (bytes \<times> nat) option list" where
  "scrape_samples t = map read_sample (filter (\<lambda>l. \<not> is_comment l) (split_on 0x0a t))"

text \<open>A metric name in the format: no spaces, no line ends, not the start of a comment.\<close>

definition name_fits :: "string \<Rightarrow> bool" where
  "name_fits name \<longleftrightarrow> name \<noteq> [] \<and>
     list_all (\<lambda>b. b \<noteq> 0x20 \<and> b \<noteq> 0x0a \<and> b \<noteq> 0x23) (str name)"

lemma str_append: "str (a @ b) = str a @ str b" "str [] = []" "str (c # cs) = of_char c # str cs"
  by (simp_all add: str_def)

lemma dec_no_sep: "b \<in> set (dec n) \<Longrightarrow> b \<noteq> 0x20 \<and> b \<noteq> 0x0a"
  using dec_digits [of n] by (auto simp: is_digit_def)

lemma sample_lines:
  assumes "name_fits name" "list_all (\<lambda>b. b \<noteq> 0x0a) (str kind)"
  shows "scrape_samples (sample kind name v @ t) = Some (str name, unat v) # scrape_samples t"
proof -
  let ?c = "str ''# TYPE '' @ str name @ str '' '' @ str kind" and ?l = "str name @ 0x20 # dec (unat v)"
  have n: "str name \<noteq> []" "0x20 \<notin> set (str name)" "0x0a \<notin> set (str name)" "0x23 \<notin> set (str name)"
    using assms(1) by (auto simp: name_fits_def list_all_iff str_def)
  have c: "0x0a \<notin> set ?c" using n(3) assms(2) by (auto simp: str_append list_all_iff)
  have l: "0x0a \<notin> set ?l" using n(3) dec_no_sep by auto
  have "sample kind name v @ t = ?c @ 0x0a # ?l @ 0x0a # t"
    by (simp add: sample_def str_append)
  with split_on_append [OF c] split_on_append [OF l]
  have "split_on 0x0a (sample kind name v @ t) = ?c # ?l # split_on 0x0a t" by simp
  moreover have "is_comment ?c" by (simp add: is_comment_def str_append)
  moreover have "\<not> is_comment ?l"
    using n(1,4) by (cases "str name") (auto simp: is_comment_def str_append)
  moreover have "read_sample ?l = Some (str name, unat v)"
    using unat_le_max [of v] by (simp add: read_sample_def split_once_append [OF n(2)] parse_uint_dec)
  ultimately show ?thesis by (simp add: scrape_samples_def)
qed

lemma samples_foldl:
  assumes "\<forall>e \<in> set es. name_fits (fst e)" "list_all (\<lambda>b. b \<noteq> 0x0a) (str kind)"
  shows "\<exists>t. foldl (\<lambda>out (name, x). out @ sample kind name (val x)) out es = out @ t \<and>
    (\<forall>t'. scrape_samples (t @ t') = map (\<lambda>(name, x). Some (str name, unat (val x))) es @ scrape_samples t')"
  using assms(1)
proof (induction es arbitrary: out)
  case (Cons e es)
  obtain name x where e: "e = (name, x)" by (cases e)
  from Cons.prems have "\<forall>e \<in> set es. name_fits (fst e)" by simp
  from Cons.IH [OF this, of "out @ sample kind name (val x)"] obtain t where t:
    "foldl (\<lambda>out (name, x). out @ sample kind name (val x)) (out @ sample kind name (val x)) es =
      (out @ sample kind name (val x)) @ t"
    "\<forall>t'. scrape_samples (t @ t') = map (\<lambda>(name, x). Some (str name, unat (val x))) es @ scrape_samples t'"
    by blast
  from Cons.prems e have "name_fits name" by simp
  with t e assms(2) show ?case
    by (intro exI [of _ "sample kind name (val x) @ t"]) (simp add: sample_lines)
qed simp

text \<open>C39. A scraper that reads the exposition gets exactly the twelve counters
  and the five gauges, in order, each under its name and with its exact value.\<close>

theorem exposition_reads_back:
  "scrape_samples (metrics_render m g) = map (\<lambda>(name, v). Some (str name, unat v))
    [(''bf_udp_announces_total'', udp_announces m), (''bf_udp_scrapes_total'', udp_scrapes m),
     (''bf_udp_connects_total'', udp_connects m),
     (''bf_udp_connid_mismatch_total'', udp_connid_mismatch m),
     (''bf_udp_dropped_total'', udp_dropped m), (''bf_http_announces_total'', http_announces m),
     (''bf_http_scrapes_total'', http_scrapes m), (''bf_errors_total'', m_errors m),
     (''bf_l7_flagged_total'', l7_flagged m), (''bf_l7_bans_total'', l7_bans m),
     (''bf_l7_bans_escalated_total'', l7_bans_escalated m), (''bf_nft_errors_total'', nft_errors m),
     (''bf_torrents'', g_torrents g), (''bf_seeders'', g_seeders g), (''bf_leechers'', g_leechers g),
     (''bf_l7_tracked_sources'', g_l7_tracked g), (''bf_l7_offenders'', g_l7_offenders g)]"
proof -
  have c: "\<forall>e \<in> set COUNTERS. name_fits (fst e)" "\<forall>e \<in> set (GAUGES g). name_fits (fst e)"
    by (simp_all add: COUNTERS_def GAUGES_def name_fits_def str_def)
  obtain t1 where t1: "foldl (\<lambda>out (name, c). out @ sample ''counter'' name (field c m)) [] COUNTERS = [] @ t1"
    "\<And>t'. scrape_samples (t1 @ t') =
      map (\<lambda>(name, c). Some (str name, unat (field c m))) COUNTERS @ scrape_samples t'"
    using samples_foldl [OF c(1), of "''counter''" "\<lambda>c. field c m" "[]"] by (auto simp: str_def)
  obtain t2 where t2: "foldl (\<lambda>out (name, v). out @ sample ''gauge'' name v) t1 (GAUGES g) = t1 @ t2"
    "\<And>t'. scrape_samples (t2 @ t') =
      map (\<lambda>(name, v). Some (str name, unat v)) (GAUGES g) @ scrape_samples t'"
    using samples_foldl [OF c(2), of "''gauge''" "\<lambda>v. v" t1] by (auto simp: str_def)
  have "metrics_render m g = t1 @ t2" using t1(1) t2(1) by (simp add: metrics_render_def)
  moreover have "scrape_samples [] = []" by (simp add: scrape_samples_def is_comment_def)
  ultimately show ?thesis
    using t1(2) [of t2] t2(2) [of "[]"] by (simp add: COUNTERS_def GAUGES_def)
qed

end
