(* ===== verification/Nft.thy ===== *)
theory Nft
  imports Config
begin

text \<open>
  crates/bf-nft/src/sink.rs: the ban sink (the Linux one). Everything up to the element that is
  to be added is here; writing it over netlink is the third-party crate \<open>rustables\<close>, the
  parameter \<open>netlink\<close>, which says whether the write succeeded.
\<close>

datatype nft_family = FamIpv4 | FamIpv6 | FamInet

datatype sink_error = NoSetConfigured | NetlinkError

record netlink_sink =
  nk_family :: nft_family
  nk_table :: codes
  nk_sets4 :: "codes list"
  nk_sets6 :: "codes list"

record nft_element =
  el_family :: nft_family
  el_table :: codes
  el_set :: codes
  el_ip :: ip_addr

text \<open>\<open>str::split_whitespace\<close>\<close>

fun split_ws :: "codes \<Rightarrow> codes list" where
  "split_ws [] = [[]]"
| "split_ws (c # cs) =
     (if is_ws c then [] # split_ws cs
      else (case split_ws cs of p # ps \<Rightarrow> (c # p) # ps | [] \<Rightarrow> [[c]]))"

definition split_whitespace :: "codes \<Rightarrow> codes list" where
  "split_whitespace s = filter (\<lambda>p. p \<noteq> []) (split_ws s)"

definition sink_new :: "codes \<Rightarrow> codes list \<Rightarrow> codes list \<Rightarrow> netlink_sink" where
  "sink_new tbl sets4 sets6 =
     (let parts = split_whitespace tbl;
          family = (case parts of
              p # _ \<Rightarrow> if p = lit ''ip'' then FamIpv4 else if p = lit ''ip6'' then FamIpv6 else FamInet
            | [] \<Rightarrow> FamInet);
          tbl = (case drop 1 parts of p # _ \<Rightarrow> p | [] \<Rightarrow> lit ''filter'')
      in \<lparr>nk_family = family, nk_table = tbl, nk_sets4 = sets4, nk_sets6 = sets6\<rparr>)"

definition tier_set :: "codes list \<Rightarrow> nat \<Rightarrow> sink_error + codes" where
  "tier_set sets tier =
     (let i = min tier (length sets - 1)
      in if i < length sets then Inr (sets ! i) else Inl NoSetConfigured)"

text \<open>\<open>ban\<close>: an error, or the element that was written.\<close>

definition sink_ban ::
  "(nft_element \<Rightarrow> bool) \<Rightarrow> netlink_sink \<Rightarrow> ip_addr \<Rightarrow> nat \<Rightarrow> u32 \<Rightarrow> sink_error + nft_element" where
  "sink_ban netlink s ip tier duration =
     (case tier_set (case ip of IpV4 a \<Rightarrow> nk_sets4 s | IpV6 a \<Rightarrow> nk_sets6 s) tier of
        Inl e \<Rightarrow> Inl e
      | Inr st \<Rightarrow>
          (let elements = \<lparr>el_family = nk_family s, el_table = nk_table s, el_set = st, el_ip = ip\<rparr>
           in if netlink elements then Inr elements else Inl NetlinkError))"

section \<open>Tiers\<close>

lemma tier_set_eq:
  "tier_set sets tier = (if sets = [] then Inl NoSetConfigured else Inr (sets ! min tier (length sets - 1)))"
  by (cases sets) (simp_all add: tier_set_def Let_def)

lemma sink_ban_cases:
  assumes "sink_ban netlink s ip tier duration = Inr el"
  shows "el_ip el = ip \<and> el_family el = nk_family s \<and> el_table el = nk_table s \<and> netlink el \<and>
    tier_set (case ip of IpV4 a \<Rightarrow> nk_sets4 s | IpV6 a \<Rightarrow> nk_sets6 s) tier = Inr (el_set el)"
  using assms by (auto simp: sink_ban_def Let_def split: sum.splits if_splits)

text \<open>With the sets ordered as the sink expects them, the shortest-lived first, a
  ban at a higher tier never expires earlier than one at a lower tier, every tier beyond the
  last set uses the last set, and banning fails before any write only when no set is configured.\<close>

lemma tiers_escalate:
  assumes "sorted (map lifetime sets)" "tier \<le> tier'" "sets \<noteq> []"
  shows "\<exists>a b. tier_set sets tier = Inr a \<and> tier_set sets tier' = Inr b \<and> a \<in> set sets \<and> b \<in> set sets \<and>
    lifetime a \<le> (lifetime b :: nat) \<and> (length sets \<le> tier \<longrightarrow> a = last sets \<and> b = last sets)"
proof -
  let ?i = "min tier (length sets - 1)" and ?j = "min tier' (length sets - 1)"
  have i: "?i \<le> ?j" "?j < length sets" using assms(2,3) by (cases sets; simp)+
  then have "map lifetime sets ! ?i \<le> map lifetime sets ! ?j"
    using assms(1) by (intro sorted_nth_mono) simp_all
  with i have "lifetime (sets ! ?i) \<le> lifetime (sets ! ?j)" by simp
  moreover have "sets ! ?i = last sets \<and> sets ! ?j = last sets" if "length sets \<le> tier"
    using that assms(2,3) by (simp add: min.absorb2 last_conv_nth)
  moreover have "sets ! ?i \<in> set sets" "sets ! ?j \<in> set sets"
    using i by (intro nth_mem; linarith)+
  ultimately show ?thesis using assms(3) by (simp add: tier_set_eq)
qed

end
