(* ===== verification/Source_Addr.thy ===== *)
theory Source_Addr
  imports Net_Addr
begin

text \<open>
  Addresses of sources in crates/bluefrog/src/main.rs: un-mapping the IPv4-mapped addresses of a
  dual-stack socket, the 16-byte form the handlers take, and the test for public addresses. The
  predicates of \<open>core::net\<close> that the code calls are written out.
\<close>

fun ip_ok :: "ip_addr \<Rightarrow> bool" where
  "ip_ok (IpV4 a) \<longleftrightarrow> length a = 4"
| "ip_ok (IpV6 a) \<longleftrightarrow> length a = 16"

fun is_ipv4 :: "ip_addr \<Rightarrow> bool" where
  "is_ipv4 (IpV4 a) \<longleftrightarrow> True"
| "is_ipv4 (IpV6 a) \<longleftrightarrow> False"

definition mapped_prefix :: bytes where
  "mapped_prefix = replicate 10 0 @ [0xff, 0xff]"

definition to_ipv6_mapped :: "bytes \<Rightarrow> bytes" where
  "to_ipv6_mapped a = mapped_prefix @ a"

definition to_ipv4_mapped :: "bytes \<Rightarrow> bytes option" where
  "to_ipv4_mapped a = (if take 12 a = mapped_prefix then Some (drop 12 a) else None)"

fun ip_to_16 :: "ip_addr \<Rightarrow> bytes" where
  "ip_to_16 (IpV4 a) = to_ipv6_mapped a"
| "ip_to_16 (IpV6 a) = a"

fun canonical_ip :: "ip_addr \<Rightarrow> ip_addr" where
  "canonical_ip (IpV6 a) = (case to_ipv4_mapped a of Some b \<Rightarrow> IpV4 b | None \<Rightarrow> IpV6 a)"
| "canonical_ip (IpV4 a) = IpV4 a"

text \<open>\<open>Ipv4Addr::is_private\<close> and its siblings, on the four octets.\<close>

fun v4_is_private :: "bytes \<Rightarrow> bool" where
  "v4_is_private (a # b # cs) \<longleftrightarrow>
     a = 10 \<or> a = 172 \<and> 16 \<le> b \<and> b \<le> 31 \<or> a = 192 \<and> b = 168"
| "v4_is_private _ \<longleftrightarrow> False"

fun v4_is_documentation :: "bytes \<Rightarrow> bool" where
  "v4_is_documentation (a # b # c # ds) \<longleftrightarrow>
     a = 192 \<and> b = 0 \<and> c = 2 \<or> a = 198 \<and> b = 51 \<and> c = 100 \<or> a = 203 \<and> b = 0 \<and> c = 113"
| "v4_is_documentation _ \<longleftrightarrow> False"

definition v4_is_loopback :: "bytes \<Rightarrow> bool" where
  "v4_is_loopback a \<longleftrightarrow> take 1 a = [127]"

definition v4_is_link_local :: "bytes \<Rightarrow> bool" where
  "v4_is_link_local a \<longleftrightarrow> take 2 a = [169, 254]"

definition v4_is_unspecified :: "bytes \<Rightarrow> bool" where
  "v4_is_unspecified a \<longleftrightarrow> a = [0, 0, 0, 0]"

definition v4_is_broadcast :: "bytes \<Rightarrow> bool" where
  "v4_is_broadcast a \<longleftrightarrow> a = [255, 255, 255, 255]"

definition v6_is_loopback :: "bytes \<Rightarrow> bool" where
  "v6_is_loopback a \<longleftrightarrow> a = replicate 15 0 @ [1]"

definition v6_is_unspecified :: "bytes \<Rightarrow> bool" where
  "v6_is_unspecified a \<longleftrightarrow> a = replicate 16 0"

fun is_loopback :: "ip_addr \<Rightarrow> bool" where
  "is_loopback (IpV4 a) \<longleftrightarrow> v4_is_loopback a"
| "is_loopback (IpV6 a) \<longleftrightarrow> v6_is_loopback a"

fun is_public :: "ip_addr \<Rightarrow> bool" where
  "is_public (IpV4 a) \<longleftrightarrow>
     \<not> (v4_is_private a \<or> v4_is_loopback a \<or> v4_is_link_local a \<or> v4_is_unspecified a \<or>
        v4_is_broadcast a \<or> v4_is_documentation a)"
| "is_public (IpV6 a) \<longleftrightarrow>
     (let head = (from_be (take 2 a) :: u16)
      in \<not> (v6_is_loopback a \<or> v6_is_unspecified a \<or> head AND 0xfe00 = 0xfc00 \<or> head AND 0xffc0 = 0xfe80))"

section \<open>Canonical addresses\<close>

lemma to_ipv4_mapped_iff: "to_ipv4_mapped a = Some b \<longleftrightarrow> a = mapped_prefix @ b"
proof -
  have "length mapped_prefix = 12" by (simp add: mapped_prefix_def)
  then show ?thesis by (auto simp: to_ipv4_mapped_def) (metis append_take_drop_id)
qed

lemma ip_to_16_canonical [simp]: "ip_to_16 (canonical_ip ip) = ip_to_16 ip"
  by (cases ip) (auto simp: to_ipv6_mapped_def to_ipv4_mapped_iff split: option.split)

lemma ip_to_16_length [simp]: "ip_ok ip \<Longrightarrow> length (ip_to_16 ip) = 16"
  by (cases ip) (simp_all add: to_ipv6_mapped_def mapped_prefix_def)

lemma canonical_ok: "ip_ok ip \<Longrightarrow> ip_ok (canonical_ip ip)"
  by (cases ip) (auto simp: to_ipv4_mapped_iff mapped_prefix_def split: option.split)

text \<open>The canonical address that a 16-byte form stands for.\<close>

definition of_16 :: "bytes \<Rightarrow> ip_addr" where
  "of_16 b = (case to_ipv4_mapped b of Some a \<Rightarrow> IpV4 a | None \<Rightarrow> IpV6 b)"

lemma canonical_of_16: "canonical_ip ip = of_16 (ip_to_16 ip)"
proof (cases ip)
  case (IpV4 a)
  have "to_ipv4_mapped (mapped_prefix @ a) = Some a" by (simp only: to_ipv4_mapped_iff)
  with IpV4 show ?thesis by (simp add: to_ipv6_mapped_def of_16_def)
qed (simp add: of_16_def)

lemma ip_to_16_of_16 [simp]: "ip_to_16 (of_16 b) = b"
  by (auto simp: of_16_def to_ipv4_mapped_iff to_ipv6_mapped_def split: option.split)

text \<open>A source is the same to the tracker whichever of its two forms the socket
  reports: canonical addresses agree exactly when the 16-byte forms agree, canonicalizing
  changes no 16-byte form and is idempotent, and the result is IPv4 exactly for the
  IPv4-mapped range.\<close>

lemma canonical_unique:
  "(canonical_ip a = canonical_ip b \<longleftrightarrow> ip_to_16 a = ip_to_16 b) \<and>
   ip_to_16 (canonical_ip a) = ip_to_16 a \<and> canonical_ip (canonical_ip a) = canonical_ip a \<and>
   (is_ipv4 (canonical_ip a) \<longleftrightarrow> take 12 (ip_to_16 a) = replicate 10 0 @ [0xff, 0xff])"
proof -
  have "of_16 x = of_16 y \<longleftrightarrow> x = y" for x y using ip_to_16_of_16 by metis
  moreover have "is_ipv4 (of_16 x) \<longleftrightarrow> take 12 x = mapped_prefix" for x
    by (simp add: of_16_def to_ipv4_mapped_def)
  ultimately show ?thesis by (simp add: canonical_of_16 mapped_prefix_def)
qed

section \<open>Public addresses\<close>

text \<open>The reserved blocks, as ranges of the address read as a number.\<close>

definition v4_reserved :: "(nat \<times> nat) list" where
  "v4_reserved =
     [(0x00000000, 0x00000000), (0x0a000000, 0x0affffff), (0x7f000000, 0x7fffffff),
      (0xa9fe0000, 0xa9feffff), (0xac100000, 0xac1fffff), (0xc0000200, 0xc00002ff),
      (0xc0a80000, 0xc0a8ffff), (0xc6336400, 0xc63364ff), (0xcb007100, 0xcb0071ff),
      (0xffffffff, 0xffffffff)]"

definition in_ranges :: "nat \<Rightarrow> (nat \<times> nat) list \<Rightarrow> bool" where
  "in_ranges n rs \<longleftrightarrow> list_ex (\<lambda>(lo, hi). lo \<le> n \<and> n \<le> hi) rs"

definition v6_head_reserved :: "(nat \<times> nat) list" where
  "v6_head_reserved = [(0xfc00, 0xfdff), (0xfe80, 0xfebf)]"

lemma high_bits:
  fixes h :: u16
  assumes "n < 16"
  shows "unat (h AND - (2 ^ n)) = unat h div 2 ^ n * 2 ^ n"
proof -
  have "h AND push_bit n (- 1) = push_bit n (drop_bit n h)"
    by (rule bit_word_eqI) (auto simp: bit_simps)
  then have e: "h AND - (2 ^ n) = push_bit n (drop_bit n h)" by (simp add: push_bit_eq_mult)
  have "unat h div 2 ^ n * 2 ^ n \<le> unat h" by simp
  also have "unat h < 2 ^ 16" using unat_bound [of h] by simp
  finally have "take_bit 16 (push_bit n (drop_bit n (unat h))) = unat h div 2 ^ n * 2 ^ n"
    by (simp add: drop_bit_eq_div push_bit_eq_mult take_bit_eq_mod)
  then show ?thesis unfolding e by (simp add: unsigned_push_bit_eq unat_drop_bit_eq)
qed

lemma head_masks:
  fixes h :: u16
  shows "h AND 0xfe00 = 0xfc00 \<longleftrightarrow> 0xfc00 \<le> unat h \<and> unat h \<le> 0xfdff"
    and "h AND 0xffc0 = 0xfe80 \<longleftrightarrow> 0xfe80 \<le> unat h \<and> unat h \<le> 0xfebf"
proof -
  have "(0xfe00 :: u16) + 2 ^ 9 = 0" "(0xffc0 :: u16) + 2 ^ 6 = 0" by simp_all
  then have masks: "- (2 ^ 9) = (0xfe00 :: u16)" "- (2 ^ 6) = (0xffc0 :: u16)"
    by (simp_all only: eq_neg_iff_add_eq_0 [symmetric])
  have "unat (h AND 0xfe00) = unat h div 512 * 512" "unat (h AND 0xffc0) = unat h div 64 * 64"
    using high_bits [of 9 h] high_bits [of 6 h] unfolding masks by simp_all
  then show "h AND 0xfe00 = 0xfc00 \<longleftrightarrow> 0xfc00 \<le> unat h \<and> unat h \<le> 0xfdff"
    "h AND 0xffc0 = 0xfe80 \<longleftrightarrow> 0xfe80 \<le> unat h \<and> unat h \<le> 0xfebf"
    unfolding word_unat_eq_iff by (simp, linarith)+
qed

text \<open>A block of addresses that share their leading octets is a range.\<close>

lemma block_range:
  fixes n k lo hi :: nat
  assumes "0 < k"
  shows "lo * k \<le> n \<and> n \<le> hi * k + (k - 1) \<longleftrightarrow> lo \<le> n div k \<and> n div k \<le> hi"
proof -
  have "n div k \<le> hi \<longleftrightarrow> n < Suc hi * k"
    using div_less_iff_less_mult [OF assms, of n "Suc hi"] by (simp only: less_Suc_eq_le)
  also have "\<dots> \<longleftrightarrow> n \<le> hi * k + (k - 1)" using assms by auto
  finally show ?thesis using assms by (simp add: less_eq_div_iff_mult_less_eq)
qed

lemma block_eq:
  fixes n k q :: nat
  assumes "0 < k"
  shows "q * k \<le> n \<and> n \<le> q * k + (k - 1) \<longleftrightarrow> n div k = q"
  unfolding block_range [OF assms] by (rule iffI) simp_all

lemma octet_span:
  fixes a b x y :: nat
  assumes "b < 256" "y' < 256"
  shows "x * 256 + y \<le> a * 256 + b \<and> a * 256 + b \<le> x * 256 + y' \<longleftrightarrow> a = x \<and> y \<le> b \<and> b \<le> y'"
proof (cases a x rule: linorder_cases)
  case less
  then have "a * 256 + 256 \<le> x * 256" by simp
  with assms less show ?thesis by auto
next
  case greater
  then have "x * 256 + 256 \<le> a * 256" by simp
  with assms greater show ?thesis by auto
qed auto

lemma octet_pair:
  fixes a b x y :: nat
  assumes "b < 256" "y < 256"
  shows "a * 256 + b = x * 256 + y \<longleftrightarrow> a = x \<and> b = y"
  using octet_span [OF assms, of x y a] by (metis le_antisym order_refl)

lemma v4_ranges:
  "(\<not> is_public (IpV4 [a, b, c, d])) = in_ranges (be_val [a, b, c, d]) v4_reserved"
proof -
  let ?a = "unat a" and ?b = "unat b" and ?c = "unat c" and ?d = "unat d"
  define n where "n = ((?a * 256 + ?b) * 256 + ?c) * 256 + ?d"
  have o: "?a < 256" "?b < 256" "?c < 256" "?d < 256"
    using unat_bound [of a] unat_bound [of b] unat_bound [of c] unat_bound [of d] by simp_all
  have v: "be_val [a, b, c, d] = n" by (simp add: be_val_def n_def)
  have n3: "n div 256 = (?a * 256 + ?b) * 256 + ?c" using o by (simp add: n_def)
  moreover have "n div 65536 = n div 256 div 256" by (simp add: div_mult2_eq [symmetric])
  ultimately have n2: "n div 65536 = ?a * 256 + ?b" using o by simp
  moreover have "n div 16777216 = n div 65536 div 256" by (simp add: div_mult2_eq [symmetric])
  ultimately have n1: "n div 16777216 = ?a" using o by simp
  have pair: "?a * 256 + ?b = x * 256 + y \<longleftrightarrow> ?a = x \<and> ?b = y" if "y < 256" for x y
    using octet_pair [OF o(2) that] .
  have triple: "(?a * 256 + ?b) * 256 + ?c = (x * 256 + y) * 256 + z \<longleftrightarrow> ?a = x \<and> ?b = y \<and> ?c = z"
    if "y < 256" "z < 256" for x y z
    using octet_pair [OF o(3) that(2), of "?a * 256 + ?b" "x * 256 + y"] pair [OF that(1)] by blast
  have priv: "0x0a000000 \<le> n \<and> n \<le> 0x0affffff \<longleftrightarrow> ?a = 10"
    "0xac100000 \<le> n \<and> n \<le> 0xac1fffff \<longleftrightarrow> ?a = 172 \<and> 16 \<le> ?b \<and> ?b \<le> 31"
    "0xc0a80000 \<le> n \<and> n \<le> 0xc0a8ffff \<longleftrightarrow> ?a = 192 \<and> ?b = 168"
    using block_eq [of 16777216 10 n] block_range [of 65536 "172 * 256 + 16" n "172 * 256 + 31"]
      block_eq [of 65536 "192 * 256 + 168" n] pair [of 168 192] octet_span [OF o(2), of 31 172 16 ?a]
    unfolding n1 n2 by simp_all
  have others: "0x7f000000 \<le> n \<and> n \<le> 0x7fffffff \<longleftrightarrow> ?a = 127"
    "0xa9fe0000 \<le> n \<and> n \<le> 0xa9feffff \<longleftrightarrow> ?a = 169 \<and> ?b = 254"
    using block_eq [of 16777216 127 n] block_eq [of 65536 "169 * 256 + 254" n] pair [of 254 169]
    unfolding n1 n2 by simp_all
  have docs: "0xc0000200 \<le> n \<and> n \<le> 0xc00002ff \<longleftrightarrow> ?a = 192 \<and> ?b = 0 \<and> ?c = 2"
    "0xc6336400 \<le> n \<and> n \<le> 0xc63364ff \<longleftrightarrow> ?a = 198 \<and> ?b = 51 \<and> ?c = 100"
    "0xcb007100 \<le> n \<and> n \<le> 0xcb0071ff \<longleftrightarrow> ?a = 203 \<and> ?b = 0 \<and> ?c = 113"
    using block_eq [of 256 "(192 * 256 + 0) * 256 + 2" n] triple [of 0 2 192]
      block_eq [of 256 "(198 * 256 + 51) * 256 + 100" n] triple [of 51 100 198]
      block_eq [of 256 "(203 * 256 + 0) * 256 + 113" n] triple [of 0 113 203]
    unfolding n3 by simp_all
  have ends: "n \<le> 0 \<longleftrightarrow> ?a = 0 \<and> ?b = 0 \<and> ?c = 0 \<and> ?d = 0"
    "0xffffffff \<le> n \<and> n \<le> 0xffffffff \<longleftrightarrow> ?a = 255 \<and> ?b = 255 \<and> ?c = 255 \<and> ?d = 255"
    using o by (auto simp: n_def)
  let ?in = "\<lambda>lo hi. lo \<le> n \<and> n \<le> hi"
  have p: "v4_is_private [a, b, c, d] \<longleftrightarrow> ?in 0x0a000000 0x0affffff \<or> ?in 0xac100000 0xac1fffff \<or> ?in 0xc0a80000 0xc0a8ffff"
    unfolding priv by (simp add: word_unat_eq_iff word_le_nat_alt)
  have d: "v4_is_documentation [a, b, c, d] \<longleftrightarrow>
      ?in 0xc0000200 0xc00002ff \<or> ?in 0xc6336400 0xc63364ff \<or> ?in 0xcb007100 0xcb0071ff"
    unfolding docs by (simp add: word_unat_eq_iff)
  have l: "v4_is_loopback [a, b, c, d] \<longleftrightarrow> ?in 0x7f000000 0x7fffffff"
    "v4_is_link_local [a, b, c, d] \<longleftrightarrow> ?in 0xa9fe0000 0xa9feffff"
    unfolding others by (simp_all add: v4_is_loopback_def v4_is_link_local_def word_unat_eq_iff)
  have e: "v4_is_unspecified [a, b, c, d] \<longleftrightarrow> ?in 0 0" "v4_is_broadcast [a, b, c, d] \<longleftrightarrow> ?in 0xffffffff 0xffffffff"
    unfolding ends using ends(1) by (simp_all add: v4_is_unspecified_def v4_is_broadcast_def word_unat_eq_iff)
  show ?thesis
    unfolding v in_ranges_def v4_reserved_def list_ex_Nil_iff list_ex_Cons_iff prod.case is_public.simps p d l e not_not
    by (simp only: disj_ac simp_thms)
qed

lemma v4_list: "length a = 4 \<Longrightarrow> \<exists>w x y z. a = [w, x, y, z]"
  by (auto simp: numeral_eq_Suc length_Suc_conv)

text \<open>An IPv4 source counts as private exactly when its address lies in one of ten
  reserved ranges (unspecified, 10/8, 127/8, 169.254/16, 172.16/12, 192.0.2/24, 192.168/16,
  198.51.100/24, 203.0.113/24, broadcast), an IPv6 source exactly when it is \<open>::\<close>, \<open>::1\<close>, or
  starts in fc00::/7 or fe80::/10.\<close>

lemma is_public_ranges:
  assumes "length a = 4" "length b = 16"
  shows "(is_public (IpV4 a) \<longleftrightarrow> \<not> in_ranges (be_val a) v4_reserved) \<and>
    (is_public (IpV6 b) \<longleftrightarrow> be_val b \<noteq> 0 \<and> be_val b \<noteq> 1 \<and> \<not> in_ranges (be_val (take 2 b)) v6_head_reserved)"
proof
  from v4_list [OF assms(1)] v4_ranges show "is_public (IpV4 a) \<longleftrightarrow> \<not> in_ranges (be_val a) v4_reserved"
    by blast
  have z: "be_val (replicate 16 0) = 0" "be_val (replicate 15 0 @ [1]) = 1" by code_simp+
  have inj: "be_val b = be_val c \<longleftrightarrow> b = c" if "length c = 16" for c
    using be_enc_be_val [of b] be_enc_be_val [of c] assms(2) that by metis
  have "v6_is_unspecified b \<longleftrightarrow> be_val b = 0" "v6_is_loopback b \<longleftrightarrow> be_val b = 1"
    using inj [of "replicate 16 0"] inj [of "replicate 15 0 @ [1]"]
    unfolding v6_is_unspecified_def v6_is_loopback_def z by simp_all
  moreover have "be_val (take 2 b) < 2 ^ 16" using be_val_bound [of "take 2 b"] assms(2) by simp
  then have "unat (from_be (take 2 b) :: u16) = be_val (take 2 b)"
    by (simp add: from_be_def unat_of_nat)
  ultimately show "is_public (IpV6 b) \<longleftrightarrow>
      be_val b \<noteq> 0 \<and> be_val b \<noteq> 1 \<and> \<not> in_ranges (be_val (take 2 b)) v6_head_reserved"
    by (auto simp: Let_def head_masks in_ranges_def v6_head_reserved_def)
qed

end
