(* ===== verification/Runtime.thy ===== *)
theory Runtime
  imports L7_Safety Http_Handler Metrics Nft Source_Addr
begin

text \<open>
  crates/bluefrog/src/main.rs: what the daemon does with a datagram, a request, a clock tick and a
  sweep, over the state that all tasks share. Sockets, the task runtime and the HTTP library are
  not modelled: a received datagram, a request target, the time and the random part of the
  interval are arguments. A netlink write spawned on the blocking pool is a job in the state
  until the pool runs it.
\<close>

record ban_job =
  job_ip :: ip_addr
  job_tier :: nat
  job_duration :: u32

record shared =
  sh_connid :: connid
  sh_store :: store
  sh_detector :: detector
  sh_metrics :: metrics
  sh_config :: config
  sh_clock :: u64
  sh_sink :: netlink_sink
  sh_jobs :: "ban_job list"

definition UDP_BUF :: nat where "UDP_BUF = 2048"

text \<open>\<open>u32::try_from(v).unwrap_or(u32::MAX)\<close>\<close>

definition to_u32_sat :: "u64 \<Rightarrow> u32" where
  "to_u32_sat v = (if unat v < 2 ^ 32 then ucast v else - 1)"

definition build_shared :: "config \<Rightarrow> bytes \<Rightarrow> u64 \<Rightarrow> shared" where
  "build_shared cfg random_key now =
     \<lparr>sh_connid = connid_new random_key (ucast (cf_connid_window cfg)),
      sh_store = store_new,
      sh_detector = detector_new (cf_l7 cfg),
      sh_metrics = metrics_new,
      sh_config = cfg,
      sh_clock = now,
      sh_sink = sink_new (cf_nft_table cfg) (cf_nft_set4 cfg) (cf_nft_set6 cfg),
      sh_jobs = []\<rparr>"

section \<open>The detector's feed\<close>

type_synonym parsed = "parse_error + request"

text \<open>The swarm size that the announce reply carries.\<close>

definition swarm_peers :: "bytes \<Rightarrow> u32" where
  "swarm_peers out =
     (if length out \<ge> 20
      then sat_add (from_be [out ! 12, out ! 13, out ! 14, out ! 15])
             (from_be [out ! 16, out ! 17, out ! 18, out ! 19])
      else 0)"

definition announce_feed :: "announce \<Rightarrow> ip_addr \<Rightarrow> bytes \<Rightarrow> announce_info" where
  "announce_feed a ip out =
     \<lparr>ai_info_hash = an_info_hash a, ai_peer_id = an_peer_id a, ai_key = an_key a,
      ai_declared_ip = an_declared_ip a, ai_port = an_port a, ai_left = an_left a,
      ai_downloaded = an_downloaded a, ai_uploaded = an_uploaded a, ai_num_want = an_num_want a,
      ai_source_is_public = is_public ip, ai_swarm_peers = swarm_peers out\<rparr>"

definition feed_l7 ::
  "client_order \<Rightarrow> offender_order \<Rightarrow> detector \<Rightarrow> parsed \<Rightarrow> ip_addr \<Rightarrow> bytes \<Rightarrow> action \<Rightarrow> bytes \<Rightarrow> u32 \<Rightarrow>
    (detector \<times> verdict) option" where
  "feed_l7 oc oo d parsed ip ip16 act out now_secs =
     (if act = ConnidMismatch then on_connid_mismatch oc oo d ip16 now_secs
      else case parsed of
        Inr (Announce a) \<Rightarrow> on_announce oc oo d ip16 (announce_feed a ip out) now_secs
      | Inr (Scrape q) \<Rightarrow>
          do {
            hashes \<leftarrow> iter_hashes q;
            on_scrape oc oo d ip16 (length hashes) now_secs
          }
      | Inr (Connect tx) \<Rightarrow> on_connect oc oo d ip16 now_secs
      | Inl e \<Rightarrow> Some (d, Allow))"

section \<open>The UDP worker\<close>

definition record_udp_metric :: "metrics \<Rightarrow> parsed \<Rightarrow> action \<Rightarrow> metrics" where
  "record_udp_metric m parsed act =
     (case act of
        Drop \<Rightarrow> inc UdpDropped m
      | ConnidMismatch \<Rightarrow> inc UdpConnidMismatch m
      | Reply n \<Rightarrow>
          (case parsed of
             Inr (Connect tx) \<Rightarrow> inc UdpConnect m
           | Inr (Announce a) \<Rightarrow> inc UdpAnnounce m
           | Inr (Scrape q) \<Rightarrow> inc UdpScrape m
           | Inl e \<Rightarrow> inc UdpDropped m))"

text \<open>\<open>ban\<close> spawns the job.\<close>

definition ban :: "shared \<Rightarrow> ip_addr \<Rightarrow> nat \<Rightarrow> u32 \<Rightarrow> shared" where
  "ban sh ip tier duration =
     sh\<lparr>sh_jobs := sh_jobs sh @ [\<lparr>job_ip = ip, job_tier = tier, job_duration = duration\<rparr>]\<rparr>"

definition apply_verdict :: "shared \<Rightarrow> ip_addr \<Rightarrow> verdict \<Rightarrow> shared" where
  "apply_verdict sh ip v =
     (case v of
        Allow \<Rightarrow> sh
      | Ban duration tier \<Rightarrow>
          (let sh = sh\<lparr>sh_metrics := inc L7Ban (sh_metrics sh)\<rparr>;
               sh = (if tier > 0 then sh\<lparr>sh_metrics := inc L7BanEscalated (sh_metrics sh)\<rparr> else sh)
           in if cf_nft_enable (sh_config sh) then ban sh ip (unat tier) duration else sh))"

definition worker_l7 ::
  "client_order \<Rightarrow> offender_order \<Rightarrow> shared \<Rightarrow> parsed \<Rightarrow> ip_addr \<Rightarrow> bytes \<Rightarrow> action \<Rightarrow> bytes \<Rightarrow> u64 \<Rightarrow>
    shared option" where
  "worker_l7 oc oo sh parsed ip ip16 act out now =
     (if cf_l7_enable (sh_config sh)
      then do {
        (d, v) \<leftarrow> feed_l7 oc oo (sh_detector sh) parsed ip ip16 act out (to_u32_sat now);
        Some (apply_verdict (sh\<lparr>sh_detector := d\<rparr>) ip v)
      } else Some sh)"

text \<open>The body of the worker's loop: \<open>rnd\<close> is the random value below 360, \<open>out\<close> the worker's output
  vector; the result holds the bytes sent back.\<close>

definition udp_worker ::
  "mac \<Rightarrow> peer_order \<Rightarrow> client_order \<Rightarrow> offender_order \<Rightarrow> shared \<Rightarrow> bytes \<Rightarrow> bytes \<Rightarrow> ip_addr \<Rightarrow> u32 \<Rightarrow>
    (shared \<times> bytes \<times> bytes option) option" where
  "udp_worker mac op oc oo sh out datagram peer_ip rnd =
     do {
       let buf = take UDP_BUF datagram;
       let ip = canonical_ip peer_ip;
       let ip16 = ip_to_16 ip;
       let is_v4 = is_ipv4 ip;
       let now = sh_clock sh;
       let interval = 1620 + rnd;
       parsed \<leftarrow> parse buf;
       (s, out, act) \<leftarrow> udp_handle mac (sh_connid sh) op (sh_store sh) buf ip16 is_v4 now interval out;
       let sh = sh\<lparr>sh_store := s, sh_metrics := record_udp_metric (sh_metrics sh) parsed act\<rparr>;
       sh \<leftarrow> worker_l7 oc oo sh parsed ip ip16 act out now;
       case act of
         Reply len \<Rightarrow>
           do {
             sent \<leftarrow> slice out 0 len;
             Some (sh, out, Some sent)
           }
       | _ \<Rightarrow> Some (sh, out, None)
     }"

text \<open>The loop over the datagrams received: the peer, the bytes and the random value of each.\<close>

fun udp_loop ::
  "mac \<Rightarrow> peer_order \<Rightarrow> client_order \<Rightarrow> offender_order \<Rightarrow> shared \<Rightarrow> bytes \<Rightarrow> (ip_addr \<times> bytes \<times> u32) list \<Rightarrow>
    (shared \<times> (ip_addr \<times> bytes) list) option" where
  "udp_loop mac op oc oo sh out [] = Some (sh, [])"
| "udp_loop mac op oc oo sh out ((peer, datagram, rnd) # rs) =
     do {
       (sh, out, sent) \<leftarrow> udp_worker mac op oc oo sh out datagram peer rnd;
       (sh, replies) \<leftarrow> udp_loop mac op oc oo sh out rs;
       Some (sh, (case sent of Some b \<Rightarrow> [(peer, b)] | None \<Rightarrow> []) @ replies)
     }"

section \<open>HTTP\<close>

record http_reply =
  hr_status :: nat
  hr_location :: "codes option"
  hr_body :: bytes

definition plain_reply :: "nat \<Rightarrow> bytes \<Rightarrow> http_reply" where
  "plain_reply status body = \<lparr>hr_status = status, hr_location = None, hr_body = body\<rparr>"

text \<open>The HTTP library rejects some header values: \<open>header_ok\<close>. The builder then falls back to
  an empty response.\<close>

definition handle_http ::
  "itoa \<Rightarrow> (codes \<Rightarrow> bool) \<Rightarrow> peer_order \<Rightarrow> shared \<Rightarrow> bytes \<Rightarrow> ip_addr \<Rightarrow> u32 \<Rightarrow> (shared \<times> http_reply) option" where
  "handle_http itoa header_ok op sh target ip rnd =
     do {
       let is_v4 = is_ipv4 ip;
       let ip16 = ip_to_16 ip;
       let now_min = to_u32_sat (sh_clock sh div 60);
       let interval = 1620 + rnd;
       (s, r) \<leftarrow> http_handle itoa op (sh_store sh) target ip16 is_v4 now_min interval;
       let sh = sh\<lparr>sh_store := s\<rparr>;
       Some (case r of
         Body b \<Rightarrow>
           (if starts_with target (str ''/announce'')
            then sh\<lparr>sh_metrics := inc HttpAnnounce (sh_metrics sh)\<rparr>
            else if starts_with target (str ''/scrape'')
            then sh\<lparr>sh_metrics := inc HttpScrape (sh_metrics sh)\<rparr>
            else sh,
            plain_reply 200 b)
       | Redirect \<Rightarrow>
           (let url = (case cf_redirect_url (sh_config sh) of Some u \<Rightarrow> u | None \<Rightarrow> [])
            in (sh, if header_ok url then \<lparr>hr_status = 302, hr_location = Some url, hr_body = []\<rparr>
                    else plain_reply 200 []))
       | BadRequest \<Rightarrow> (sh\<lparr>sh_metrics := inc Error (sh_metrics sh)\<rparr>, plain_reply 400 (str ''400''))
       | NotFound \<Rightarrow> (sh, plain_reply 404 (str ''404'')))
     }"

text \<open>\<open>serve_http\<close> canonicalizes the peer's address.\<close>

definition serve_http ::
  "itoa \<Rightarrow> (codes \<Rightarrow> bool) \<Rightarrow> peer_order \<Rightarrow> shared \<Rightarrow> bytes \<Rightarrow> ip_addr \<Rightarrow> u32 \<Rightarrow> (shared \<times> http_reply) option" where
  "serve_http itoa header_ok op sh target peer_ip rnd =
     handle_http itoa header_ok op sh target (canonical_ip peer_ip) rnd"

definition sample_gauges :: "shared \<Rightarrow> gauges" where
  "sample_gauges sh =
     (let tot = totals_of (sh_store sh)
      in \<lparr>g_torrents = tot_torrents tot, g_seeders = tot_seeders tot, g_leechers = tot_leechers tot,
          g_l7_tracked = word_of_nat (tracked (sh_detector sh)),
          g_l7_offenders = word_of_nat (offender_count (sh_detector sh))\<rparr>)"

text \<open>\<open>serve_metrics\<close>: \<open>None\<close> when the connection is closed unanswered.\<close>

definition serve_metrics :: "shared \<Rightarrow> ip_addr \<Rightarrow> http_reply option" where
  "serve_metrics sh peer_ip =
     (if \<not> is_loopback peer_ip then None
      else Some (plain_reply 200 (metrics_render (sh_metrics sh) (sample_gauges sh))))"

section \<open>Background tasks\<close>

definition clock_tick :: "u64 \<Rightarrow> shared \<Rightarrow> shared" where
  "clock_tick now sh = sh\<lparr>sh_clock := now\<rparr>"

text \<open>\<open>gc_task\<close>; the shard \<open>i\<close> is swept in one step.\<close>

definition gc_tick :: "u64 \<Rightarrow> nat \<Rightarrow> shared \<Rightarrow> shared" where
  "gc_tick now i sh = sh\<lparr>sh_store := gc_at (to_u32_sat (now div 60)) i (sh_store sh)\<rparr>"

text \<open>The closure that \<open>ban\<close> runs on the blocking pool.\<close>

definition run_job :: "(nft_element \<Rightarrow> bool) \<Rightarrow> ban_job \<Rightarrow> shared \<Rightarrow> shared" where
  "run_job netlink j sh =
     (case sink_ban netlink (sh_sink sh) (job_ip j) (job_tier j) (job_duration j) of
        Inl e \<Rightarrow> sh\<lparr>sh_metrics := inc NftError (sh_metrics sh)\<rparr>
      | Inr el \<Rightarrow> sh)"

end
