(* ===== verification/Daemon.thy ===== *)
theory Daemon
  imports Runtime L7_Honest
begin

text \<open>
  The daemon as a state machine. A step is one datagram, one request, one clock update, the sweep
  of one shard or the run of one ban job; the tasks interleave at this grain, which is that of
  the locks: a datagram's store and detector parts touch different components of the state.
\<close>

section \<open>One datagram\<close>

text \<open>The event that a datagram is to the detector.\<close>

definition feed_event :: "parsed \<Rightarrow> ip_addr \<Rightarrow> action \<Rightarrow> bytes \<Rightarrow> l7_event option" where
  "feed_event parsed ip act out =
     (if act = ConnidMismatch then Some MismatchEv
      else case parsed of
        Inr (Announce a) \<Rightarrow> Some (AnnounceEv (announce_feed a ip out))
      | Inr (Scrape q) \<Rightarrow> Some (ScrapeEv (length (chunks_exact 20 (sc_hashes q))))
      | Inr (Connect tx) \<Rightarrow> Some ConnectEv
      | Inl e \<Rightarrow> None)"

lemma feed_l7_eq:
  "feed_l7 oc oo d parsed ip ip16 act out now =
     (case feed_event parsed ip act out of
        None \<Rightarrow> Some (d, Allow) | Some ev \<Rightarrow> l7_on oc oo d ip16 now ev)"
  by (simp add: feed_l7_def feed_event_def iter_hashes_eq split: sum.split request.split)

text \<open>What feeding a datagram may do to the detector.\<close>

definition fed ::
  "bool \<Rightarrow> detector \<Rightarrow> ip16 \<Rightarrow> u32 \<Rightarrow> l7_event option \<Rightarrow> detector \<Rightarrow> verdict \<Rightarrow> bool" where
  "fed enabled d ip16 now ev d' v \<longleftrightarrow>
     (case ev of
        Some e \<Rightarrow> if enabled then l7_step d ip16 now e d' v else d' = d \<and> v = Allow
      | None \<Rightarrow> d' = d \<and> v = Allow)"

lemma fed_ok: "fed en d ip16 now ev d' v \<Longrightarrow> detector_ok d \<Longrightarrow> detector_ok d' \<and> config d' = config d"
  by (auto simp: fed_def dest: step_ok split: option.splits if_splits)

lemma worker_l7_spec:
  assumes "detector_ok (sh_detector sh)" "iteration_order oc" "iteration_order oo"
  obtains d' v where
    "fed (cf_l7_enable (sh_config sh)) (sh_detector sh) ip16 (to_u32_sat now) (feed_event parsed ip act out) d' v"
    "worker_l7 oc oo sh parsed ip ip16 act out now = Some (apply_verdict (sh\<lparr>sh_detector := d'\<rparr>) ip v)"
proof (cases "cf_l7_enable (sh_config sh)")
  case False
  then show thesis
    by (intro that [of "sh_detector sh" Allow])
      (simp_all add: worker_l7_def fed_def apply_verdict_def split: option.split)
next
  case True
  show thesis
  proof (cases "feed_event parsed ip act out")
    case None
    with True show thesis
      by (intro that [of "sh_detector sh" Allow]) (simp_all add: worker_l7_def feed_l7_eq fed_def)
  next
    case (Some ev)
    obtain d' v where s: "l7_on oc oo (sh_detector sh) ip16 (to_u32_sat now) ev = Some (d', v)"
      by (rule l7_on_spec [OF assms, of "to_u32_sat now" ev ip16])
    then have "l7_step (sh_detector sh) ip16 (to_u32_sat now) ev d' v"
      using assms(2,3) by (intro handled)
    with True Some s show thesis
      by (intro that [of d' v]) (simp_all add: worker_l7_def feed_l7_eq fed_def)
  qed
qed

definition sent_bytes :: "action \<Rightarrow> bytes \<Rightarrow> bytes option" where
  "sent_bytes act out = (case act of Reply n \<Rightarrow> Some out | _ \<Rightarrow> None)"

lemma parse_some: "\<exists>p. parse buf = Some p"
  by (cases rule: parse_cases [of buf]) auto

lemma udp_worker_spec:
  assumes "store_ok (sh_store sh)" "detector_ok (sh_detector sh)" "ip_ok peer"
    and "iteration_order op" "iteration_order oc" "iteration_order oo"
  obtains parsed s' out' act d' v where
    "parse (take UDP_BUF dg) = Some parsed"
    "udp_handle mac (sh_connid sh) op (sh_store sh) (take UDP_BUF dg) (ip_to_16 peer)
      (is_ipv4 (canonical_ip peer)) (sh_clock sh) (1620 + rnd) out = Some (s', out', act)"
    "fed (cf_l7_enable (sh_config sh)) (sh_detector sh) (ip_to_16 peer) (to_u32_sat (sh_clock sh))
      (feed_event parsed (canonical_ip peer) act out') d' v"
    "udp_worker mac op oc oo sh out dg peer rnd =
      Some (apply_verdict (sh\<lparr>sh_store := s', sh_metrics := record_udp_metric (sh_metrics sh) parsed act,
        sh_detector := d'\<rparr>) (canonical_ip peer) v, out', sent_bytes act out')"
proof -
  let ?buf = "take UDP_BUF dg" and ?ip = "canonical_ip peer" and ?now = "sh_clock sh"
  obtain parsed where p: "parse ?buf = Some parsed" using parse_some by blast
  have len: "length (ip_to_16 peer) = 16" using assms(3) by simp
  obtain s' out' act where h: "udp_handle mac (sh_connid sh) op (sh_store sh) ?buf (ip_to_16 peer)
      (is_ipv4 ?ip) ?now (1620 + rnd) out = Some (s', out', act)"
    using handle_total [OF assms(1) len assms(4)] by (metis not_None_eq prod_cases3)
  let ?sh = "sh\<lparr>sh_store := s', sh_metrics := record_udp_metric (sh_metrics sh) parsed act\<rparr>"
  have d: "detector_ok (sh_detector ?sh)" using assms(2) by simp
  obtain d' v where w: "fed (cf_l7_enable (sh_config ?sh)) (sh_detector ?sh) (ip_to_16 peer)
      (to_u32_sat ?now) (feed_event parsed ?ip act out') d' v"
    "worker_l7 oc oo ?sh parsed ?ip (ip_to_16 peer) act out' ?now =
      Some (apply_verdict (?sh\<lparr>sh_detector := d'\<rparr>) ?ip v)"
    by (rule worker_l7_spec [OF d assms(5,6)])
  have "\<forall>n. act = Reply n \<longrightarrow> n = length out'"
    using handle_cases [OF assms(1) len assms(4) h] by blast
  then have "udp_worker mac op oc oo sh out dg peer rnd =
      Some (apply_verdict (?sh\<lparr>sh_detector := d'\<rparr>) ?ip v, out', sent_bytes act out')"
    using p h w(2) by (cases act) (simp_all add: udp_worker_def Let_def sent_bytes_def slice_def)
  with that [OF p h] w(1) show thesis by simp
qed

lemma apply_verdict_simps [simp]:
  "sh_store (apply_verdict sh ip v) = sh_store sh"
  "sh_detector (apply_verdict sh ip v) = sh_detector sh"
  "sh_connid (apply_verdict sh ip v) = sh_connid sh"
  "sh_config (apply_verdict sh ip v) = sh_config sh"
  "sh_clock (apply_verdict sh ip v) = sh_clock sh"
  "sh_sink (apply_verdict sh ip v) = sh_sink sh"
  by (cases v; simp add: apply_verdict_def ban_def Let_def)+

lemma apply_verdict_jobs:
  "sh_jobs (apply_verdict sh ip v) = sh_jobs sh @
     (if v \<noteq> Allow \<and> cf_nft_enable (sh_config sh)
      then [\<lparr>job_ip = ip, job_tier = unat (ban_tier v), job_duration = ban_for v\<rparr>] else [])"
  by (cases v) (simp_all add: apply_verdict_def ban_def Let_def)

lemma apply_verdict_metrics:
  "sh_metrics (apply_verdict sh ip v) =
     (if v = Allow then sh_metrics sh
      else if ban_tier v > 0 then inc L7BanEscalated (inc L7Ban (sh_metrics sh))
      else inc L7Ban (sh_metrics sh))"
  by (cases v) (simp_all add: apply_verdict_def ban_def Let_def)

section \<open>Steps\<close>

datatype daemon_event =
    UdpIn ip_addr bytes
  | HttpIn ip_addr bytes
  | ClockTick u64
  | GcTick u64 nat
  | JobRun ban_job

inductive daemon_step ::
  "mac \<Rightarrow> (nft_element \<Rightarrow> bool) \<Rightarrow> shared \<Rightarrow> daemon_event \<Rightarrow> shared \<Rightarrow> bool" for mac netlink where
  step_udp:
    "iteration_order op \<Longrightarrow> iteration_order oc \<Longrightarrow> iteration_order oo \<Longrightarrow> ip_ok peer \<Longrightarrow>
     udp_worker mac op oc oo sh out dg peer rnd = Some (sh', out', sent) \<Longrightarrow>
     daemon_step mac netlink sh (UdpIn peer dg) sh'"
| step_http:
    "iteration_order op \<Longrightarrow> ip_ok peer \<Longrightarrow>
     serve_http itoa header_ok op sh target peer rnd = Some (sh', r) \<Longrightarrow>
     daemon_step mac netlink sh (HttpIn peer target) sh'"
| step_clock: "daemon_step mac netlink sh (ClockTick now) (clock_tick now sh)"
| step_gc: "i < SHARD_COUNT \<Longrightarrow> daemon_step mac netlink sh (GcTick now i) (gc_tick now i sh)"
| step_job:
    "sh_jobs sh = js @ j # ks \<Longrightarrow>
     daemon_step mac netlink sh (JobRun j) (run_job netlink j (sh\<lparr>sh_jobs := js @ ks\<rparr>))"

inductive_cases daemon_stepE: "daemon_step mac netlink sh ev sh'"

abbreviation daemon_reach ::
  "mac \<Rightarrow> (nft_element \<Rightarrow> bool) \<Rightarrow> config \<Rightarrow> bytes \<Rightarrow> shared \<Rightarrow> bool" where
  "daemon_reach mac netlink cfg key \<equiv>
     reach (\<lambda>sh. \<exists>now. sh = build_shared cfg key now) (daemon_step mac netlink)"

lemma reach_start: "daemon_reach mac netlink cfg key (build_shared cfg key now)"
  by (auto intro: reach_init)

text \<open>What one step may do to the store, to the detector and to the configuration.\<close>

definition store_moved :: "store \<Rightarrow> store \<Rightarrow> bool" where
  "store_moved s s' \<longleftrightarrow> store_ok s' \<and>
     (s' = s \<or> (\<exists>e. event_ok e \<and> view s' = spec_step e (view s)))"

definition detector_moved :: "detector \<Rightarrow> detector \<Rightarrow> bool" where
  "detector_moved d d' \<longleftrightarrow> d' = d \<or> (\<exists>ip now ev v. l7_step d ip now ev d' v)"

definition kept :: "shared \<Rightarrow> shared \<Rightarrow> bool" where
  "kept sh sh' \<longleftrightarrow>
     sh_connid sh' = sh_connid sh \<and> sh_config sh' = sh_config sh \<and> sh_sink sh' = sh_sink sh"

lemma store_moved_refl: "store_ok s \<Longrightarrow> store_moved s s"
  by (simp add: store_moved_def)

lemma detector_moved_refl: "detector_moved d d"
  by (simp add: detector_moved_def)

lemma fed_moved: "fed en d ip now ev d' v \<Longrightarrow> detector_moved d d'"
  by (auto simp: fed_def detector_moved_def split: option.splits if_splits)

lemma udp_event_ok: "length ip = 16 \<Longrightarrow> event_ok (udp_event a ip is_v4 now)"
  by (simp add: udp_event_def Let_def length_peer_key)

lemma udp_moved:
  assumes "store_ok s" "length ip = 16" "iteration_order ord"
    and "udp_handle mac ci ord s buf ip is_v4 now interval out = Some (s', out', act)"
  shows "store_moved s s'"
  using handle_cases [OF assms] udp_event_ok [OF assms(2)] unfolding store_moved_def by blast

lemma handle_http_spec:
  assumes "store_ok (sh_store sh)" "ip_ok ip" "iteration_order op"
  shows "\<exists>sh' r. handle_http itoa header_ok op sh target ip rnd = Some (sh', r) \<and>
    store_moved (sh_store sh) (sh_store sh') \<and> sh_detector sh' = sh_detector sh \<and>
    sh_jobs sh' = sh_jobs sh \<and> kept sh sh'"
proof -
  let ?now = "to_u32_sat (sh_clock sh div 60)"
  have "length (ip_to_16 ip) = 16" using assms(2) by simp
  from http_handle_spec [OF assms(1) this assms(3), of itoa target "is_ipv4 ip" ?now "1620 + rnd"]
  obtain s' r where h: "http_handle itoa op (sh_store sh) target (ip_to_16 ip) (is_ipv4 ip) ?now (1620 + rnd) =
      Some (s', r)" and m: "store_moved (sh_store sh) s'"
    unfolding store_moved_def by blast
  from h m show ?thesis
    by (cases r) (simp_all add: handle_http_def kept_def Let_def)
qed

lemma sweep_moved:
  assumes "store_ok s" "i < SHARD_COUNT"
  shows "store_moved s (gc_at now i s)"
proof -
  have st: "store_step s (Sweep now i) (gc_at now i s)" using assms(2) by (rule step_sweep)
  from step_refines [OF this assms(1)] step_view [OF st assms(1)] assms(2) show ?thesis
    unfolding store_moved_def by (metis event_ok.simps(3))
qed

lemma run_job_simps [simp]:
  "sh_store (run_job netlink j sh) = sh_store sh"
  "sh_detector (run_job netlink j sh) = sh_detector sh"
  "sh_jobs (run_job netlink j sh) = sh_jobs sh"
  "sh_connid (run_job netlink j sh) = sh_connid sh"
  "sh_config (run_job netlink j sh) = sh_config sh"
  "sh_sink (run_job netlink j sh) = sh_sink sh"
  by (simp_all add: run_job_def split: sum.split)

lemma step_moved:
  assumes "daemon_step mac netlink sh ev sh'" "store_ok (sh_store sh)" "detector_ok (sh_detector sh)"
  shows "store_moved (sh_store sh) (sh_store sh') \<and> detector_moved (sh_detector sh) (sh_detector sh') \<and>
    kept sh sh'"
  using assms(1)
proof cases
  case (step_udp op oc oo peer out dg rnd out' sent)
  have len: "length (ip_to_16 peer) = 16" using step_udp(5) by simp
  show ?thesis
  proof (rule udp_worker_spec [OF assms(2,3) step_udp(5) step_udp(2-4), of dg mac rnd out])
    fix parsed s1 out1 act d' v
    assume u: "udp_handle mac (sh_connid sh) op (sh_store sh) (take UDP_BUF dg) (ip_to_16 peer)
        (is_ipv4 (canonical_ip peer)) (sh_clock sh) (1620 + rnd) out = Some (s1, out1, act)"
      "fed (cf_l7_enable (sh_config sh)) (sh_detector sh) (ip_to_16 peer) (to_u32_sat (sh_clock sh))
        (feed_event parsed (canonical_ip peer) act out1) d' v"
      "udp_worker mac op oc oo sh out dg peer rnd =
        Some (apply_verdict (sh\<lparr>sh_store := s1, sh_metrics := record_udp_metric (sh_metrics sh) parsed act,
          sh_detector := d'\<rparr>) (canonical_ip peer) v, out1, sent_bytes act out1)"
    from udp_moved [OF assms(2) len step_udp(2) u(1)] fed_moved [OF u(2)] u(3) step_udp(6)
    show ?thesis by (auto simp: kept_def)
  qed
next
  case (step_http op peer itoa header_ok target rnd r)
  have "ip_ok (canonical_ip peer)" using step_http(3) by (rule canonical_ok)
  from handle_http_spec [OF assms(2) this step_http(2), of itoa header_ok target rnd] step_http(4)
  show ?thesis by (auto simp: serve_http_def detector_moved_refl)
qed (use assms(2) in \<open>auto simp: clock_tick_def gc_tick_def kept_def store_moved_refl
  detector_moved_refl sweep_moved\<close>)

section \<open>Reachable states\<close>

lemma build_shared_simps [simp]:
  "sh_store (build_shared cfg key now) = store_new"
  "sh_detector (build_shared cfg key now) = detector_new (cf_l7 cfg)"
  "sh_config (build_shared cfg key now) = cfg"
  "sh_connid (build_shared cfg key now) = connid_new key (ucast (cf_connid_window cfg))"
  "sh_sink (build_shared cfg key now) = sink_new (cf_nft_table cfg) (cf_nft_set4 cfg) (cf_nft_set6 cfg)"
  "sh_jobs (build_shared cfg key now) = []"
  "sh_clock (build_shared cfg key now) = now"
  by (simp_all add: build_shared_def)

definition daemon_ok :: "config \<Rightarrow> bytes \<Rightarrow> shared \<Rightarrow> bool" where
  "daemon_ok cfg key sh \<longleftrightarrow> l7_reach (cf_l7 cfg) (sh_detector sh) \<and>
     store_ok (sh_store sh) \<and> detector_ok (sh_detector sh) \<and> config (sh_detector sh) = cf_l7 cfg \<and>
     sh_config sh = cfg \<and> sh_connid sh = connid_new key (ucast (cf_connid_window cfg)) \<and>
     sh_sink sh = sink_new (cf_nft_table cfg) (cf_nft_set4 cfg) (cf_nft_set6 cfg)"

definition tracks_spec :: "store \<Rightarrow> bool" where
  "tracks_spec s \<longleftrightarrow>
     (\<exists>es. (\<forall>e \<in> set es. event_ok e) \<and> view s = fold spec_step es Map.empty)"

lemma detector_moved_ok:
  assumes "detector_moved d d'" "detector_ok d" "l7_reach cfg d"
  shows "detector_ok d' \<and> config d' = config d \<and> l7_reach cfg d'"
  using assms by (auto simp: detector_moved_def dest: step_ok intro: l7_reach_step)

lemma step_keeps_ok:
  assumes "daemon_step mac netlink sh ev sh'" "daemon_ok cfg key sh"
  shows "daemon_ok cfg key sh'"
  using step_moved [OF assms(1)] detector_moved_ok [of "sh_detector sh" "sh_detector sh'" "cf_l7 cfg"] assms(2)
  by (auto simp: daemon_ok_def kept_def store_moved_def)

text \<open>The daemon is a machine whose invariant is \<open>daemon_ok\<close> and which refines, through its store
  alone, the abstract tracker.\<close>

interpretation daemon: refinement
  "\<lambda>sh. \<exists>now. sh = build_shared cfg key now" "daemon_step mac netlink" "daemon_ok cfg key"
  "\<lambda>sh. view (sh_store sh)" spec_step event_ok Map.empty for mac netlink cfg key
proof unfold_locales
  fix sh sh' ev
  show "\<exists>now. sh = build_shared cfg key now \<Longrightarrow> daemon_ok cfg key sh"
    using detector_ok_new [of "cf_l7 cfg"] store_ok_new
    by (auto simp: daemon_ok_def l7_reach_new) (simp add: detector_new_def)
  show "\<exists>now. sh = build_shared cfg key now \<Longrightarrow> view (sh_store sh) = Map.empty"
    by (auto simp: view_new)
  assume step: "daemon_step mac netlink sh ev sh'" and ok: "daemon_ok cfg key sh"
  then show "daemon_ok cfg key sh'" by (rule step_keeps_ok)
  from step_moved [OF step] ok
  show "view (sh_store sh') = view (sh_store sh) \<or>
      (\<exists>a. event_ok a \<and> view (sh_store sh') = spec_step a (view (sh_store sh)))"
    by (auto simp: daemon_ok_def store_moved_def)
qed

text \<open>C1. In every reachable state of the daemon, whatever datagrams, requests, clock
  updates, sweeps and ban jobs were interleaved, the store is well-formed and shows what the
  specification shows after some sequence of its events, the detector is in one of its own
  reachable states, and the next datagram and the next request, whatever their content, are
  handled without a panic.\<close>

theorem daemon_safe:
  assumes "daemon_reach mac netlink cfg key sh"
    and "ip_ok peer" "iteration_order op" "iteration_order oc" "iteration_order oo"
  shows "store_ok (sh_store sh) \<and> tracks_spec (sh_store sh) \<and> l7_reach (cf_l7 cfg) (sh_detector sh) \<and>
    udp_worker mac op oc oo sh out dg peer rnd \<noteq> None \<and>
    serve_http itoa header_ok op sh target peer rnd \<noteq> None"
proof -
  have inv: "daemon_ok cfg key sh" "tracks_spec (sh_store sh)" "l7_reach (cf_l7 cfg) (sh_detector sh)"
    using daemon.reach_inv [OF assms(1)] daemon.reach_explained [OF assms(1)]
    by (auto simp: daemon_ok_def tracks_spec_def)
  then have ok: "store_ok (sh_store sh)" "detector_ok (sh_detector sh)" by (simp_all add: daemon_ok_def)
  have "udp_worker mac op oc oo sh out dg peer rnd \<noteq> None"
    by (rule udp_worker_spec [OF ok assms(2-5), of dg mac rnd out]) simp
  moreover have "serve_http itoa header_ok op sh target peer rnd \<noteq> None"
    using handle_http_spec [OF ok(1) canonical_ok [OF assms(2)] assms(3), of itoa header_ok target rnd]
    by (auto simp: serve_http_def)
  ultimately show ?thesis using inv ok by simp
qed

theorem daemon_safe_witness:
  "udp_worker (\<lambda>k m. m) rev rev rev (build_shared config_default [1] 90) [] [1, 2, 3] (IpV4 [10, 0, 0, 1]) 5 \<noteq> None"
  using daemon_safe [OF reach_start, where peer = "IpV4 [10, 0, 0, 1]" and op = rev and oc = rev and oo = rev]
  by simp

end
