(* ===== verification/Daemon_Claims.thy ===== *)
theory Daemon_Claims
  imports Daemon
begin

text \<open>
  Properties that span the daemon's components: what a datagram changes, what the detector is
  told, and where a ban ends up.
\<close>

lemma fresh_ok:
  "store_ok (sh_store (build_shared cfg key now))" "detector_ok (sh_detector (build_shared cfg key now))"
  by (simp_all add: store_ok_new detector_ok_new)

lemma worker_runs:
  assumes "store_ok (sh_store sh)" "detector_ok (sh_detector sh)" "ip_ok peer"
    and "iteration_order op" "iteration_order oc" "iteration_order oo"
  obtains sh' out' sent where "udp_worker mac op oc oo sh out dg peer rnd = Some (sh', out', sent)"
  by (rule udp_worker_spec [OF assms, of dg mac rnd out]) (rule that)

section \<open>Answers and counters\<close>

text \<open>C29. The detector has no say in the answers: two daemons with the same store, connection
  ids and clock send the same bytes for a datagram and store the same, whatever their
  detectors, settings and metrics are. In particular a banned source is answered as before
  until the packet filter drops it.\<close>

theorem answers_ignore_detector:
  assumes "store_ok (sh_store sh)" "detector_ok (sh_detector sh)" "detector_ok (sh_detector sh2)"
    and "sh_store sh2 = sh_store sh" "sh_connid sh2 = sh_connid sh" "sh_clock sh2 = sh_clock sh"
    and "ip_ok peer" "iteration_order op" "iteration_order oc" "iteration_order oo"
    and "iteration_order oc2" "iteration_order oo2"
  shows "\<exists>sh1' sh2' out' sent.
    udp_worker mac op oc oo sh out dg peer rnd = Some (sh1', out', sent) \<and>
    udp_worker mac op oc2 oo2 sh2 out dg peer rnd = Some (sh2', out', sent) \<and>
    sh_store sh2' = sh_store sh1'"
proof -
  have ok2: "store_ok (sh_store sh2)" using assms(1,4) by simp
  show ?thesis
    by (rule udp_worker_spec [OF assms(1,2,7,8-10), of dg mac rnd out],
        rule udp_worker_spec [OF ok2 assms(3,7,8,11,12), of dg mac rnd out])
      (use assms(4-6) in simp)
qed

theorem answers_ignore_detector_witness:
  "\<exists>sh1' sh2' out' sent.
    udp_worker (\<lambda>k m. m) rev rev rev (build_shared config_default [1] 90) [] [1, 2, 3] (IpV4 [10, 0, 0, 1]) 5 =
      Some (sh1', out', sent) \<and>
    udp_worker (\<lambda>k m. m) rev rev rev
      (build_shared (config_default\<lparr>cf_l7_enable := True\<rparr>) [1] 90) [] [1, 2, 3] (IpV4 [10, 0, 0, 1]) 5 =
      Some (sh2', out', sent)"
  using answers_ignore_detector [where sh = "build_shared config_default [1] 90" and
      ?sh2.0 = "build_shared (config_default\<lparr>cf_l7_enable := True\<rparr>) [1] 90" and
      peer = "IpV4 [10, 0, 0, 1]" and op = rev and oc = rev and oo = rev and ?oc2.0 = rev and ?oo2.0 = rev
      and mac = "\<lambda>k m. m" and out = "[]" and dg = "[1, 2, 3]" and rnd = 5]
    detector_ok_new store_ok_new
  by (simp add: config_default_def) blast

definition udp_counters :: "counter list" where
  "udp_counters = [UdpAnnounce, UdpScrape, UdpConnect, UdpConnidMismatch, UdpDropped]"

lemma udp_counters_verdict [simp]:
  "c \<in> set udp_counters \<Longrightarrow> field c (sh_metrics (apply_verdict sh ip v)) = field c (sh_metrics sh)"
  by (auto simp: udp_counters_def apply_verdict_metrics)

lemma handle_action:
  assumes "parse buf = Some parsed"
    and "udp_handle mac ci ord s buf ip is_v4 now interval out = Some (s', out', act)"
  shows "(\<exists>e. parsed = Inl e) \<longleftrightarrow> act = Drop"
  using assms
  by (auto simp: udp_handle_def Let_def split: sum.splits request.splits if_splits prod.splits
      Option.bind_splits)

text \<open>Each datagram is counted exactly once: one of the five UDP counters grows by
  one, the others stay; a reply is sent exactly when the datagram is counted as a served
  connect, announce or scrape.\<close>

lemma one_counter_per_datagram:
  assumes "store_ok (sh_store sh)" "detector_ok (sh_detector sh)" "ip_ok peer"
    and "iteration_order op" "iteration_order oc" "iteration_order oo"
    and "udp_worker mac op oc oo sh out dg peer rnd = Some (sh', out', sent)"
  shows "\<exists>c \<in> set udp_counters.
    (\<forall>d \<in> set udp_counters. field d (sh_metrics sh') = field d (sh_metrics sh) + (if d = c then 1 else 0)) \<and>
    (sent \<noteq> None \<longleftrightarrow> c \<in> {UdpConnect, UdpAnnounce, UdpScrape})"
proof (rule udp_worker_spec [OF assms(1-6), of dg mac rnd out])
  fix parsed s1 out1 act d' v
  assume p: "parse (take UDP_BUF dg) = Some parsed"
    and h: "udp_handle mac (sh_connid sh) op (sh_store sh) (take UDP_BUF dg) (ip_to_16 peer)
      (is_ipv4 (canonical_ip peer)) (sh_clock sh) (1620 + rnd) out = Some (s1, out1, act)"
    and w: "udp_worker mac op oc oo sh out dg peer rnd =
      Some (apply_verdict (sh\<lparr>sh_store := s1, sh_metrics := record_udp_metric (sh_metrics sh) parsed act,
        sh_detector := d'\<rparr>) (canonical_ip peer) v, out1, sent_bytes act out1)"
  let ?m = "sh_metrics sh"
  have "\<exists>c \<in> set udp_counters. record_udp_metric ?m parsed act = inc c ?m \<and>
      (sent_bytes act out1 \<noteq> None \<longleftrightarrow> c \<in> {UdpConnect, UdpAnnounce, UdpScrape})"
    using handle_action [OF p h]
    by (cases act; cases parsed; cases "projr parsed")
      (auto simp: record_udp_metric_def sent_bytes_def udp_counters_def)
  then obtain c where c: "c \<in> set udp_counters" "record_udp_metric ?m parsed act = inc c ?m"
    "sent_bytes act out1 \<noteq> None \<longleftrightarrow> c \<in> {UdpConnect, UdpAnnounce, UdpScrape}"
    by blast
  from w assms(7) have "sent = sent_bytes act out1"
    "\<forall>d \<in> set udp_counters. field d (sh_metrics sh') = field d (inc c ?m)"
    by (auto simp: c(2))
  with c show ?thesis by (intro bexI [of _ c]) auto
qed

section \<open>What the detector is told\<close>

lemma swarm_peers_reply:
  "swarm_peers (u32_be w @ u32_be x @ u32_be y @ u32_be l @ u32_be s @ ps) = sat_add l s"
proof -
  let ?out = "u32_be w @ u32_be x @ u32_be y @ u32_be l @ u32_be s @ ps"
  have four: "[xs ! n, xs ! (n + 1), xs ! (n + 2), xs ! (n + 3)] = take 4 (drop n xs)"
    if "n + 4 \<le> length xs" for n and xs :: bytes
    using that by (simp add: numeral_eq_Suc flip: Cons_nth_drop_Suc)
  have "[?out ! 12, ?out ! 13, ?out ! 14, ?out ! 15] = u32_be l"
    using four [of 12 ?out] by simp
  moreover have "[?out ! 16, ?out ! 17, ?out ! 18, ?out ! 19] = u32_be s"
    using four [of 16 ?out] by simp
  ultimately show ?thesis by (simp only: swarm_peers_def) simp
qed

text \<open>C26. The detector is fed the announce the tracker served: an accepted announce is
  one detector event for its source, with the fields the client sent and as swarm size the sum
  (saturating) of the leechers and seeders that the store holds after the announce, the
  announcing peer included. The field is documented as the peers already in the swarm: the first
  announcer of a torrent is fed 1, not 0.\<close>

theorem announce_fed_with_swarm_size:
  assumes "store_ok (sh_store sh)" "detector_ok (sh_detector sh)" "ip_ok peer"
    and "iteration_order op" "iteration_order oc" "iteration_order oo"
    and "cf_l7_enable (sh_config sh)" "parse (take UDP_BUF dg) = Some (Inr (Announce a))"
    and "validate mac (sh_connid sh) (an_connection_id a) (ip_to_16 peer) (sh_clock sh)"
  shows "\<exists>sh' out' sent v. udp_worker mac op oc oo sh out dg peer rnd = Some (sh', out', sent) \<and>
    l7_step (sh_detector sh) (ip_to_16 peer) (to_u32_sat (sh_clock sh))
      (AnnounceEv \<lparr>ai_info_hash = an_info_hash a, ai_peer_id = an_peer_id a, ai_key = an_key a,
         ai_declared_ip = an_declared_ip a, ai_port = an_port a, ai_left = an_left a,
         ai_downloaded = an_downloaded a, ai_uploaded = an_uploaded a, ai_num_want = an_num_want a,
         ai_source_is_public = is_public (canonical_ip peer),
         ai_swarm_peers = sat_add (incomplete (spec_counts (view (sh_store sh')) (an_info_hash a)))
           (complete (spec_counts (view (sh_store sh')) (an_info_hash a)))\<rparr>)
      (sh_detector sh') v"
proof (rule udp_worker_spec [OF assms(1-6), of dg mac rnd out])
  fix parsed s1 out1 act d' v
  assume p: "parse (take UDP_BUF dg) = Some parsed"
    and h: "udp_handle mac (sh_connid sh) op (sh_store sh) (take UDP_BUF dg) (ip_to_16 peer)
      (is_ipv4 (canonical_ip peer)) (sh_clock sh) (1620 + rnd) out = Some (s1, out1, act)"
    and f: "fed (cf_l7_enable (sh_config sh)) (sh_detector sh) (ip_to_16 peer) (to_u32_sat (sh_clock sh))
      (feed_event parsed (canonical_ip peer) act out1) d' v"
    and w: "udp_worker mac op oc oo sh out dg peer rnd =
      Some (apply_verdict (sh\<lparr>sh_store := s1, sh_metrics := record_udp_metric (sh_metrics sh) parsed act,
        sh_detector := d'\<rparr>) (canonical_ip peer) v, out1, sent_bytes act out1)"
  have len: "length (ip_to_16 peer) = 16" using assms(3) by simp
  obtain ps where ps: "out1 = u32_be 1 @ u32_be (an_transaction_id a) @ u32_be (1620 + rnd) @
      u32_be (incomplete (spec_counts (view s1) (an_info_hash a))) @
      u32_be (complete (spec_counts (view s1) (an_info_hash a))) @ ps" "act = Reply (20 + length ps)"
    by (rule handle_announce [OF assms(1) len assms(4,8,9), of "is_ipv4 (canonical_ip peer)" "1620 + rnd" out])
      (use h in auto)
  have "feed_event parsed (canonical_ip peer) act out1 =
      Some (AnnounceEv (announce_feed a (canonical_ip peer) out1))"
    using p [symmetric] ps(2) unfolding assms(8) by (simp add: feed_event_def)
  with f assms(7) w show ?thesis
    by (auto simp: fed_def announce_feed_def ps(1) swarm_peers_reply)
qed

lemma zero_mac_validates: "validate (\<lambda>k m. replicate 32 0) ci 0 ip now"
  by (simp add: validate_iff for_window_def from_le_def be_val_zeros)

lemma sample_parse:
  "parse (take UDP_BUF (encode_request (Announce (sample_announce\<lparr>an_connection_id := c\<rparr>)))) =
    Some (Inr (Announce (sample_announce\<lparr>an_connection_id := c\<rparr>)))"
proof -
  let ?r = "Announce (sample_announce\<lparr>an_connection_id := c\<rparr>)"
  have p: "parse (encode_request ?r) = Some (Inr ?r)"
    using encode_parse [of ?r "[]"] by (simp add: sample_announce_def)
  moreover have "length (encode_request ?r) \<le> UDP_BUF"
    by (simp add: UDP_BUF_def sample_announce_def encode_announce_def)
  ultimately show ?thesis by simp
qed

lemma sample_announce_parse:
  "parse (take UDP_BUF (encode_request (Announce sample_announce))) = Some (Inr (Announce sample_announce))"
  using sample_parse [of 0] by (simp add: sample_announce_def)

definition l7_on_config :: config where
  "l7_on_config = config_default\<lparr>cf_l7_enable := True, cf_nft_enable := True\<rparr>"

theorem announce_fed_with_swarm_size_witness:
  "\<exists>sh' out' sent v a. udp_worker (\<lambda>k m. replicate 32 0) rev rev rev (build_shared l7_on_config [1] 90) []
      (encode_request (Announce sample_announce)) (IpV4 [8, 8, 8, 8]) 5 = Some (sh', out', sent) \<and>
    l7_step (detector_new l7_config_default) (ip_to_16 (IpV4 [8, 8, 8, 8])) 90 (AnnounceEv a) (sh_detector sh') v \<and>
    ai_swarm_peers a = sat_add (incomplete (spec_counts (view (sh_store sh')) (replicate 20 1)))
      (complete (spec_counts (view (sh_store sh')) (replicate 20 1)))"
proof -
  let ?sh = "build_shared l7_on_config [1] 90" and ?ip = "IpV4 [8, 8, 8, 8]"
  have c: "cf_l7_enable (sh_config ?sh)" "cf_l7 l7_on_config = l7_config_default" "to_u32_sat 90 = 90"
    by (simp_all add: l7_on_config_def config_default_def to_u32_sat_def)
  have ip: "ip_ok ?ip" by simp
  have v: "validate (\<lambda>k m. replicate 32 0) (sh_connid ?sh) (an_connection_id sample_announce)
      (ip_to_16 ?ip) (sh_clock ?sh)"
    using zero_mac_validates by (simp add: sample_announce_def)
  from announce_fed_with_swarm_size [OF fresh_ok ip iteration_order_rev iteration_order_rev
      iteration_order_rev c(1) sample_announce_parse v, of "[]" 5]
  obtain sh' out' sent v a where "udp_worker (\<lambda>k m. replicate 32 0) rev rev rev ?sh []
      (encode_request (Announce sample_announce)) ?ip 5 = Some (sh', out', sent)"
    "l7_step (sh_detector ?sh) (ip_to_16 ?ip) (to_u32_sat (sh_clock ?sh)) (AnnounceEv a) (sh_detector sh') v"
    "ai_swarm_peers a = sat_add (incomplete (spec_counts (view (sh_store sh')) (an_info_hash sample_announce)))
      (complete (spec_counts (view (sh_store sh')) (an_info_hash sample_announce)))"
    by (metis (no_types, lifting) announce_info.select_convs(11))
  moreover have "an_info_hash sample_announce = replicate 20 1" by (simp add: sample_announce_def)
  ultimately show ?thesis using c by (metis build_shared_simps(2,7))
qed

section \<open>Where a ban ends up\<close>

text \<open>C27. A ban reaches the packet filter: a datagram spawns at most one ban job, and only
  with the detector and enforcement switched on; the job bans the datagram's own canonical
  source, at the tier of its earlier offences, and the element it writes goes to the set of
  the source's family that the configuration lists for that tier, or to the last set.\<close>

theorem ban_reaches_own_family:
  assumes "daemon_reach mac netlink cfg key sh" "ip_ok peer"
    and "iteration_order op" "iteration_order oc" "iteration_order oo"
    and "udp_worker mac op oc oo sh out dg peer rnd = Some (sh', out', sent)"
  shows "sh_jobs sh' = sh_jobs sh \<or>
    cf_l7_enable cfg \<and> cf_nft_enable cfg \<and>
    (\<exists>j. sh_jobs sh' = sh_jobs sh @ [j] \<and> job_ip j = canonical_ip peer \<and>
      job_duration j = ban_duration (cf_l7 cfg) \<and>
      job_tier j = min (min (unat (offences_of (sh_detector sh) (ip_to_16 peer))) (2 ^ 32 - 2))
        (unat (ban_tiers (cf_l7 cfg)) - 1) \<and>
      (\<forall>el. sink_ban netlink (sh_sink sh') (job_ip j) (job_tier j) (job_duration j) = Inr el \<longrightarrow>
        el_ip el = canonical_ip peer \<and>
        (let sets = (if is_ipv4 (canonical_ip peer) then cf_nft_set4 cfg else cf_nft_set6 cfg)
         in el_set el = sets ! min (job_tier j) (length sets - 1))))"
proof -
  have ok: "store_ok (sh_store sh)" "detector_ok (sh_detector sh)" "sh_config sh = cfg"
    "config (sh_detector sh) = cf_l7 cfg"
    "nk_sets4 (sh_sink sh) = cf_nft_set4 cfg" "nk_sets6 (sh_sink sh) = cf_nft_set6 cfg"
    using daemon.reach_inv [OF assms(1)] by (auto simp: daemon_ok_def sink_new_def Let_def)
  show ?thesis
  proof (rule udp_worker_spec [OF ok(1,2) assms(2-5), of dg mac rnd out])
    fix parsed s1 out1 act d' v
    assume f: "fed (cf_l7_enable (sh_config sh)) (sh_detector sh) (ip_to_16 peer) (to_u32_sat (sh_clock sh))
        (feed_event parsed (canonical_ip peer) act out1) d' v"
      and w: "udp_worker mac op oc oo sh out dg peer rnd =
        Some (apply_verdict (sh\<lparr>sh_store := s1, sh_metrics := record_udp_metric (sh_metrics sh) parsed act,
          sh_detector := d'\<rparr>) (canonical_ip peer) v, out1, sent_bytes act out1)"
    show ?thesis
    proof (cases "v = Allow \<or> \<not> cf_nft_enable cfg")
      case True
      with w assms(6) ok(3) show ?thesis by (auto simp: apply_verdict_jobs)
    next
      case False
      with f obtain ev where ev: "cf_l7_enable cfg"
        "l7_step (sh_detector sh) (ip_to_16 peer) (to_u32_sat (sh_clock sh)) ev d' v"
        unfolding ok(3) by (auto simp: fed_def split: option.splits if_splits)
      let ?j = "\<lparr>job_ip = canonical_ip peer, job_tier = unat (ban_tier v), job_duration = ban_for v\<rparr>"
      have "ban_for v = ban_duration (cf_l7 cfg)"
        "unat (ban_tier v) = min (min (unat (offences_of (sh_detector sh) (ip_to_16 peer))) (2 ^ 32 - 2))
          (unat (ban_tiers (cf_l7 cfg)) - 1)"
        using False ban_rule_lemma [OF ok(2) ev(2)] escalation_lemma [OF ok(2) ev(2)] ok(4) by auto
      moreover have "sh_jobs sh' = sh_jobs sh @ [?j]" "sh_sink sh' = sh_sink sh"
        using w assms(6) False ok(3) by (auto simp: apply_verdict_jobs)
      moreover have "el_ip el = canonical_ip peer \<and>
          (let sets = (if is_ipv4 (canonical_ip peer) then cf_nft_set4 cfg else cf_nft_set6 cfg)
           in el_set el = sets ! min tier (length sets - 1))"
        if "sink_ban netlink (sh_sink sh) (canonical_ip peer) tier dur = Inr el" for el tier dur
        using sink_ban_cases [OF that] ok(5,6)
        by (cases "canonical_ip peer") (auto simp: tier_set_eq Let_def split: if_splits)
      ultimately show ?thesis using False ev(1) by (intro disjI2 conjI exI [of _ ?j]) auto
    qed
  qed
qed

theorem ban_reaches_own_family_witness:
  "\<exists>sh' out' sent. udp_worker (\<lambda>k m. m) rev rev rev (build_shared config_default [1] 90) [] [1, 2, 3]
      (IpV4 [10, 0, 0, 1]) 5 = Some (sh', out', sent) \<and> sh_jobs sh' = []"
proof -
  let ?sh = "build_shared config_default [1] 90"
  have ip: "ip_ok (IpV4 [10, 0, 0, 1])" by simp
  obtain sh' out' sent where r: "udp_worker (\<lambda>k m. m) rev rev rev ?sh [] [1, 2, 3] (IpV4 [10, 0, 0, 1]) 5 =
      Some (sh', out', sent)"
    by (rule worker_runs [OF fresh_ok ip iteration_order_rev iteration_order_rev iteration_order_rev])
  have "\<not> cf_l7_enable config_default" by (simp add: config_default_def)
  with r ban_reaches_own_family [OF reach_start ip iteration_order_rev iteration_order_rev iteration_order_rev r]
  show ?thesis by auto
qed

text \<open>C40. The metrics endpoint answers exactly the connections whose peer address is a
  loopback address as the socket reports it. An IPv4 loopback client of a dual-stack socket,
  which the socket reports as IPv4-mapped, is refused, although the canonical form the rest of
  the daemon uses is a loopback address.\<close>

theorem metrics_refuse_mapped_loopback:
  "(serve_metrics sh ip \<noteq> None \<longleftrightarrow> is_loopback ip) \<and>
   serve_metrics sh (IpV6 (to_ipv6_mapped [127, b, c, d])) = None \<and>
   serve_metrics sh (canonical_ip (IpV6 (to_ipv6_mapped [127, b, c, d]))) =
     Some (plain_reply 200 (metrics_render (sh_metrics sh) (sample_gauges sh)))"
proof -
  have "to_ipv6_mapped [127, b, c, d] ! 10 = 0xff" "(replicate 15 0 @ [1]) ! 10 = (0 :: u8)"
    by (simp_all add: to_ipv6_mapped_def mapped_prefix_def nth_append)
  then have "to_ipv6_mapped [127, b, c, d] \<noteq> replicate 15 0 @ [1]" by force
  moreover have "to_ipv4_mapped (to_ipv6_mapped [127, b, c, d]) = Some [127, b, c, d]"
    by (simp only: to_ipv4_mapped_iff to_ipv6_mapped_def)
  ultimately show ?thesis by (simp add: serve_metrics_def v6_is_loopback_def v4_is_loopback_def)
qed

section \<open>Unproven sources and bans\<close>

lemma mismatch_worker:
  assumes "detector_ok (sh_detector sh)" "iteration_order oc" "iteration_order oo"
    and "cf_l7_enable (sh_config sh)" "parse (take UDP_BUF dg) = Some (Inr (Announce a))"
    and "\<not> validate mac (sh_connid sh) (an_connection_id a) (ip_to_16 peer) (sh_clock sh)"
  obtains d' v where
    "l7_step (sh_detector sh) (ip_to_16 peer) (to_u32_sat (sh_clock sh)) MismatchEv d' v"
    "udp_worker mac op oc oo sh out dg peer rnd =
      Some (apply_verdict (sh\<lparr>sh_metrics := inc UdpConnidMismatch (sh_metrics sh), sh_detector := d'\<rparr>)
        (canonical_ip peer) v, out, None)"
proof -
  let ?buf = "take UDP_BUF dg" and ?sh = "sh\<lparr>sh_metrics := inc UdpConnidMismatch (sh_metrics sh)\<rparr>"
  have h: "udp_handle mac (sh_connid sh) op (sh_store sh) ?buf (ip_to_16 peer)
      (is_ipv4 (canonical_ip peer)) (sh_clock sh) (1620 + rnd) out = Some (sh_store sh, out, ConnidMismatch)"
    using assms(5,6) by (intro handle_mismatch [of ?buf a]) simp
  have d: "detector_ok (sh_detector ?sh)" using assms(1) by simp
  obtain d' v where w: "fed (cf_l7_enable (sh_config ?sh)) (sh_detector ?sh) (ip_to_16 peer)
      (to_u32_sat (sh_clock sh))
      (feed_event (Inr (Announce a)) (canonical_ip peer) ConnidMismatch out) d' v"
    "worker_l7 oc oo ?sh (Inr (Announce a)) (canonical_ip peer) (ip_to_16 peer) ConnidMismatch out (sh_clock sh) =
      Some (apply_verdict (?sh\<lparr>sh_detector := d'\<rparr>) (canonical_ip peer) v)"
    by (rule worker_l7_spec [OF d assms(2,3)])
  have "udp_worker mac op oc oo sh out dg peer rnd =
      Some (apply_verdict (?sh\<lparr>sh_detector := d'\<rparr>) (canonical_ip peer) v, out, None)"
    using assms(5) h w(2) by (simp add: udp_worker_def Let_def record_udp_metric_def)
  with that [of d' v] w(1) assms(4) show thesis by (simp add: fed_def feed_event_def)
qed

text \<open>A source with \<open>k\<close> mismatches at the second \<open>t\<close> against it and no ban so far.\<close>

definition struck :: "detector \<Rightarrow> ip16 \<Rightarrow> u32 \<Rightarrow> nat \<Rightarrow> bool" where
  "struck d ip t k \<longleftrightarrow>
     detector_ok d \<and> config d = l7_config_default \<and> offences_of d ip = 0 \<and>
     unat (score (touched d ip t)) = 15 * k \<and> decay_at (touched d ip t) = t \<and>
     banned_until (touched d ip t) = 0"

lemma decay_now: "decay_at c = t \<Longrightarrow> decay c t a i = c\<lparr>last_gap := sat_sub t (last_seen c), last_seen := t\<rparr>"
  by (simp add: decay_def Let_def)

lemma struck_new: "struck (detector_new l7_config_default) ip t 0"
  using detector_ok_new
  by (simp add: struck_def touched_def offences_of_def decay_now client_new_def)
    (simp add: detector_new_def)

lemma struck_step:
  assumes "struck d ip t k" "k \<le> 6" "l7_step d ip t MismatchEv d' v"
  shows "if k < 6 then v = Allow \<and> struck d' ip t (Suc k) else v = Ban 3600 0"
proof -
  note d = assms(1) [unfolded struck_def]
  have cfg: "score_ban_threshold l7_config_default = 100" "weight_connid l7_config_default = 15"
    "ban_duration l7_config_default = 3600"
    by (simp_all add: l7_config_default_def)
  obtain c where c: "c = (touched d ip t)\<lparr>score := sat_add (score (touched d ip t)) 15\<rparr>"
    "v \<noteq> Allow \<longleftrightarrow> 100 \<le> score c \<and> banned_until (touched d ip t) \<le> t"
    "v \<noteq> Allow \<longrightarrow> ban_for v = 3600" "v = Allow \<longrightarrow> client_at d' ip = Some c"
    using ban_rule_lemma [OF _ assms(3)] d cfg by auto
  have s: "unat (score c) = 15 * Suc k"
    using assms(2) d by (simp add: c(1) unat_sat_add)
  show ?thesis
  proof (cases "k < 6")
    case True
    then have v: "v = Allow" using c(2) s by (auto simp: word_le_nat_alt)
    then have "touched d' ip t = c\<lparr>last_gap := sat_sub t (last_seen c), last_seen := t\<rparr>"
      using c(1,4) d by (simp add: touched_def decay_now)
    moreover have "offences_of d' ip = 0"
      using escalation_lemma [OF _ assms(3)] d v by (simp add: offences_of_def)
    ultimately show ?thesis
      using True v s c(1) d step_ok [OF assms(3)] by (simp add: struck_def)
  next
    case False
    with assms(2) s have "unat (score c) = 105" by simp
    then have v: "v \<noteq> Allow" using c(2) d by (simp add: word_le_nat_alt)
    moreover have "unat (ban_tier v) = 0" using escalation_lemma [OF _ assms(3)] d v by simp
    then have "ban_tier v = 0" by (simp only: unat_eq_zero)
    ultimately have "v = Ban 3600 0" using c(3) by (cases v) auto
    with False show ?thesis by simp
  qed
qed

lemma strikes_ban:
  assumes "struck (sh_detector sh) (ip_to_16 peer) (to_u32_sat (sh_clock sh)) k" "k + n = 6"
    and "iteration_order oc" "iteration_order oo" "cf_l7_enable (sh_config sh)" "cf_nft_enable (sh_config sh)"
    and "parse (take UDP_BUF dg) = Some (Inr (Announce a))"
    and "\<not> validate mac (sh_connid sh) (an_connection_id a) (ip_to_16 peer) (sh_clock sh)"
  shows "\<exists>sh'. udp_loop mac op oc oo sh out (replicate (Suc n) (peer, dg, rnd)) = Some (sh', []) \<and>
    sh_jobs sh' = sh_jobs sh @ [\<lparr>job_ip = canonical_ip peer, job_tier = 0, job_duration = 3600\<rparr>] \<and>
    sh_store sh' = sh_store sh"
  using assms(1,2,5-8)
proof (induction n arbitrary: sh k)
  case 0
  then have "detector_ok (sh_detector sh)" by (simp add: struck_def)
  from mismatch_worker [OF this assms(3,4) 0(3,5,6), of op out rnd] obtain d' v where
    w: "l7_step (sh_detector sh) (ip_to_16 peer) (to_u32_sat (sh_clock sh)) MismatchEv d' v"
    "udp_worker mac op oc oo sh out dg peer rnd =
      Some (apply_verdict (sh\<lparr>sh_metrics := inc UdpConnidMismatch (sh_metrics sh), sh_detector := d'\<rparr>)
        (canonical_ip peer) v, out, None)" by blast
  with struck_step [OF 0(1) _ w(1)] 0(2,4) show ?case by (simp add: apply_verdict_jobs)
next
  case (Suc n)
  then have "detector_ok (sh_detector sh)" by (simp add: struck_def)
  from mismatch_worker [OF this assms(3,4) Suc(4,6,7), of op out rnd] obtain d' v where
    w: "l7_step (sh_detector sh) (ip_to_16 peer) (to_u32_sat (sh_clock sh)) MismatchEv d' v"
    "udp_worker mac op oc oo sh out dg peer rnd =
      Some (apply_verdict (sh\<lparr>sh_metrics := inc UdpConnidMismatch (sh_metrics sh), sh_detector := d'\<rparr>)
        (canonical_ip peer) v, out, None)" by blast
  let ?sh = "sh\<lparr>sh_metrics := inc UdpConnidMismatch (sh_metrics sh), sh_detector := d'\<rparr>"
  have v: "v = Allow" "struck d' (ip_to_16 peer) (to_u32_sat (sh_clock sh)) (Suc k)"
    using struck_step [OF Suc(2) _ w(1)] Suc(3) by simp_all
  then have step: "udp_worker mac op oc oo sh out dg peer rnd = Some (?sh, out, None)"
    using w(2) by (simp add: apply_verdict_def)
  obtain sh' where "udp_loop mac op oc oo ?sh out (replicate (Suc n) (peer, dg, rnd)) = Some (sh', [])"
    "sh_jobs sh' = sh_jobs ?sh @ [\<lparr>job_ip = canonical_ip peer, job_tier = 0, job_duration = 3600\<rparr>]"
    "sh_store sh' = sh_store ?sh"
    using Suc.IH [of ?sh "Suc k"] Suc(3-7) v(2) by auto
  with step show ?case by (simp only: replicate_Suc [of "Suc n"] udp_loop.simps) simp
qed

text \<open>C28. A source address is banned on datagrams that prove nothing about it: in a
  fresh daemon with the default detector, seven announces within one second that carry a
  connection id never issued to the address, as anyone can send under a forged source, spawn
  the job that bans the address, without a reply and without touching the store.\<close>

theorem unproven_datagrams_ban:
  assumes "iteration_order oc" "iteration_order oo"
    and "cf_l7 cfg = l7_config_default" "cf_l7_enable cfg" "cf_nft_enable cfg"
    and "parse (take UDP_BUF dg) = Some (Inr (Announce a))"
    and "\<not> validate mac (connid_new key (ucast (cf_connid_window cfg))) (an_connection_id a) (ip_to_16 victim) now"
  shows "\<exists>sh'. udp_loop mac op oc oo (build_shared cfg key now) out (replicate 7 (victim, dg, rnd)) = Some (sh', []) \<and>
    sh_jobs sh' = [\<lparr>job_ip = canonical_ip victim, job_tier = 0, job_duration = 3600\<rparr>] \<and>
    sh_store sh' = store_new"
proof -
  have "struck (sh_detector (build_shared cfg key now)) (ip_to_16 victim)
      (to_u32_sat (sh_clock (build_shared cfg key now))) 0"
    using assms(3) struck_new by simp
  from strikes_ban [OF this, of 6 oc oo dg a mac op out rnd] assms show ?thesis
    by (simp add: numeral_eq_Suc)
qed

theorem unproven_datagrams_ban_witness:
  "\<exists>sh'. udp_loop (\<lambda>k m. replicate 32 0) rev rev rev (build_shared l7_on_config [1] 90) []
      (replicate 7 (IpV4 [8, 8, 8, 8],
        encode_request (Announce (sample_announce\<lparr>an_connection_id := 7\<rparr>)), 5)) = Some (sh', []) \<and>
    sh_jobs sh' = [\<lparr>job_ip = canonical_ip (IpV4 [8, 8, 8, 8]), job_tier = 0, job_duration = 3600\<rparr>]"
proof -
  have c: "cf_l7 l7_on_config = l7_config_default" "cf_l7_enable l7_on_config" "cf_nft_enable l7_on_config"
    by (simp_all add: l7_on_config_def config_default_def)
  have "\<not> validate (\<lambda>k m. replicate 32 0) (connid_new [1] (ucast (cf_connid_window l7_on_config)))
      (an_connection_id (sample_announce\<lparr>an_connection_id := 7\<rparr>)) (ip_to_16 (IpV4 [8, 8, 8, 8])) 90"
    by (simp add: validate_iff for_window_def from_le_def be_val_zeros)
  from unproven_datagrams_ban [OF iteration_order_rev iteration_order_rev c sample_parse this]
  show ?thesis by blast
qed

end
