(* ===== verification/Startup.thy ===== *)
theory Startup
  imports Runtime Config_Props "HOL-Library.Sublist"
begin

text \<open>
  crates/bluefrog/src/main.rs: \<open>main\<close> and \<open>run\<close>, from the command line to the running tasks. What
  the daemon asks of the operating system is a list of calls; \<open>os\<close> says whether a call succeeds,
  from all calls made so far, this one the last. A failing call ends \<open>run\<close> (the \<open>?\<close> of the code).
\<close>

datatype task = ClockTask | GcTask | UdpWorker socket_addr | HttpServer socket_addr | MetricsServer socket_addr

datatype sys_call =
    SockNew bool
  | SetReuseAddress
  | SetReusePort
  | SetRecvBuffer u64
  | SetNonblocking
  | SockBind socket_addr
  | FromStd
  | TcpBind socket_addr
  | Spawn task

type_synonym os = "sys_call list \<Rightarrow> bool"

text \<open>Spawning a task cannot fail.\<close>

fun fallible :: "sys_call \<Rightarrow> bool" where
  "fallible (Spawn t) = False"
| "fallible _ = True"

lemma fallible_iff: "fallible c \<longleftrightarrow> (\<forall>t. c \<noteq> Spawn t)"
  by (cases c) simp_all

fun exec :: "os \<Rightarrow> sys_call list \<Rightarrow> sys_call list \<Rightarrow> sys_call list \<times> bool" where
  "exec os hist [] = (hist, True)"
| "exec os hist (c # cs) =
     (if fallible c \<and> \<not> os (hist @ [c]) then (hist @ [c], False) else exec os (hist @ [c]) cs)"

definition bind_reuseport_udp :: "socket_addr \<Rightarrow> u64 option \<Rightarrow> sys_call list" where
  "bind_reuseport_udp addr rcvbuf =
     [SockNew (case addr of SockV4 ip port \<Rightarrow> True | SockV6 ip port scope \<Rightarrow> False), SetReuseAddress, SetReusePort] @
     (case rcvbuf of Some sz \<Rightarrow> [SetRecvBuffer sz] | None \<Rightarrow> []) @
     [SetNonblocking, SockBind addr, FromStd]"

definition listen_udp :: "config \<Rightarrow> socket_addr \<Rightarrow> sys_call list" where
  "listen_udp cfg addr =
     (let workers = max (cf_udp_workers cfg) 1
      in concat (replicate (unat workers)
           (bind_reuseport_udp addr (cf_udp_rcvbuf cfg) @ [Spawn (UdpWorker addr)])))"

definition run_calls :: "config \<Rightarrow> sys_call list" where
  "run_calls cfg =
     [Spawn ClockTask, Spawn GcTask] @
     concat (map (listen_udp cfg) (cf_udp_listen cfg)) @
     concat (map (\<lambda>addr. [TcpBind addr, Spawn (HttpServer addr)]) (cf_tcp_listen cfg)) @
     (case cf_metrics_listen cfg of
        Some addr \<Rightarrow> [TcpBind addr, Spawn (MetricsServer addr)] | None \<Rightarrow> [])"

text \<open>\<open>run\<close>: the shared state, the calls made, and whether the daemon now waits for its end.\<close>

definition run_daemon :: "os \<Rightarrow> config \<Rightarrow> bytes \<Rightarrow> u64 \<Rightarrow> shared \<times> sys_call list \<times> bool" where
  "run_daemon os cfg random_key now = (build_shared cfg random_key now, exec os [] (run_calls cfg))"

datatype start_result =
    VersionPrinted
  | ReadFailed codes
  | ConfigInvalid codes config_error
  | Ran (warned: "codes list") (state: shared) (calls: "sys_call list") (serving: bool)

text \<open>\<open>main\<close>: \<open>arg\<close> is the first argument, \<open>read_file\<close> the text of a file that can be read; the
  unknown directives are named in a warning.\<close>

definition start_main :: "os \<Rightarrow> (codes \<Rightarrow> codes option) \<Rightarrow> codes option \<Rightarrow> bytes \<Rightarrow> u64 \<Rightarrow> start_result" where
  "start_main os read_file arg random_key now =
     (if arg = Some (lit ''--version'') \<or> arg = Some (lit ''-V'') then VersionPrinted
      else
        (let path = (case arg of Some p \<Rightarrow> p | None \<Rightarrow> lit ''/etc/bluefrog/bluefrog.conf'')
         in case read_file path of
              None \<Rightarrow> ReadFailed path
            | Some txt \<Rightarrow>
                (case config_parse txt of
                   Inl e \<Rightarrow> ConfigInvalid path e
                 | Inr cfg \<Rightarrow>
                     (case run_daemon os cfg random_key now of (sh, tr, ok) \<Rightarrow> Ran (cf_unknown cfg) sh tr ok))))"

section \<open>Running the calls\<close>

lemma exec_spec:
  assumes "exec os hist cs = (tr, ok)"
  obtains made where "prefix made cs" "tr = hist @ made" "ok \<Longrightarrow> made = cs"
    "\<not> ok \<Longrightarrow> made \<noteq> [] \<and> fallible (last made) \<and> \<not> os tr"
    "\<forall>j < length made. fallible (made ! j) \<and> (ok \<or> Suc j < length made) \<longrightarrow> os (hist @ take (Suc j) made)"
  using assms
proof (induction cs arbitrary: hist thesis)
  case Nil
  then show ?case by (intro Nil.prems(1) [of "[]"]) auto
next
  case (Cons c cs)
  show ?case
  proof (cases "fallible c \<and> \<not> os (hist @ [c])")
    case True
    with Cons.prems(2) show ?thesis by (intro Cons.prems(1) [of "[c]"]) auto
  next
    case False
    with Cons.prems(2) have e: "exec os (hist @ [c]) cs = (tr, ok)" by simp
    show ?thesis
    proof (rule Cons.IH [OF _ e])
      fix made
      assume d: "prefix made cs" "tr = (hist @ [c]) @ made" "ok \<Longrightarrow> made = cs"
        "\<not> ok \<Longrightarrow> made \<noteq> [] \<and> fallible (last made) \<and> \<not> os tr"
        "\<forall>j < length made. fallible (made ! j) \<and> (ok \<or> Suc j < length made) \<longrightarrow>
          os ((hist @ [c]) @ take (Suc j) made)"
      have "os (hist @ take (Suc j) (c # made))"
        if "j < length (c # made)" "fallible ((c # made) ! j)" "ok \<or> Suc j < length (c # made)" for j
        using that d(5) False by (cases j) auto
      with d show ?thesis by (intro Cons.prems(1) [of "c # made"]) auto
    qed
  qed
qed

section \<open>The tasks of a configuration\<close>

definition spawned :: "sys_call list \<Rightarrow> task list" where
  "spawned tr = List.map_filter (\<lambda>c. case c of Spawn t \<Rightarrow> Some t | _ \<Rightarrow> None) tr"

lemma spawned_simps [simp]:
  "spawned [] = []"
  "spawned (Spawn t # tr) = t # spawned tr"
  "\<forall>t. c \<noteq> Spawn t \<Longrightarrow> spawned (c # tr) = spawned tr"
  by (simp_all add: spawned_def split: sys_call.split)

lemma spawned_append [simp]: "spawned (xs @ ys) = spawned xs @ spawned ys"
  by (simp add: spawned_def map_filter_def)

lemma spawned_concat [simp]: "spawned (concat xss) = concat (map spawned xss)"
  by (induction xss) auto

lemma spawned_prefix: "prefix xs ys \<Longrightarrow> prefix (spawned xs) (spawned ys)"
  by (auto simp: prefix_def)

definition planned_tasks :: "config \<Rightarrow> task list" where
  "planned_tasks cfg =
     [ClockTask, GcTask] @
     concat (map (\<lambda>addr. replicate (max (unat (cf_udp_workers cfg)) 1) (UdpWorker addr)) (cf_udp_listen cfg)) @
     map HttpServer (cf_tcp_listen cfg) @
     (case cf_metrics_listen cfg of Some addr \<Rightarrow> [MetricsServer addr] | None \<Rightarrow> [])"

lemma concat_singletons: "concat (replicate n [x]) = replicate n x"
  by (induction n) simp_all

lemma unat_max_1: "unat (max w 1) = max (unat w) 1"
  by (simp add: max_def word_le_nat_alt)

lemma spawned_udp: "spawned (listen_udp cfg addr) = replicate (max (unat (cf_udp_workers cfg)) 1) (UdpWorker addr)"
  by (cases "cf_udp_rcvbuf cfg")
    (simp_all add: listen_udp_def bind_reuseport_udp_def concat_singletons unat_max_1 Let_def)

lemma spawned_run: "spawned (run_calls cfg) = planned_tasks cfg"
  by (cases "cf_metrics_listen cfg")
    (simp_all add: run_calls_def planned_tasks_def spawned_udp comp_def)

text \<open>The calls that open the socket a task serves, in order: its own socket for every UDP worker,
  which shares its address with the other workers of that address.\<close>

fun socket_setup :: "config \<Rightarrow> task \<Rightarrow> sys_call list" where
  "socket_setup cfg (UdpWorker a) =
     [SockNew (\<exists>ip port. a = SockV4 ip port), SetReuseAddress, SetReusePort] @
     map SetRecvBuffer (case cf_udp_rcvbuf cfg of Some sz \<Rightarrow> [sz] | None \<Rightarrow> []) @
     [SetNonblocking, SockBind a, FromStd]"
| "socket_setup cfg (HttpServer a) = [TcpBind a]"
| "socket_setup cfg (MetricsServer a) = [TcpBind a]"
| "socket_setup cfg t = []"

lemma socket_setup_fallible: "c \<in> set (socket_setup cfg t) \<Longrightarrow> fallible c"
  by (cases t) (auto split: option.splits)

lemma listen_udp_blocks:
  "listen_udp cfg addr = concat (map (\<lambda>t. socket_setup cfg t @ [Spawn t])
     (replicate (max (unat (cf_udp_workers cfg)) 1) (UdpWorker addr)))"
proof -
  have "bind_reuseport_udp addr (cf_udp_rcvbuf cfg) = socket_setup cfg (UdpWorker addr)"
    by (simp add: bind_reuseport_udp_def split: option.split socket_addr.split)
  then show ?thesis by (simp add: listen_udp_def Let_def unat_max_1)
qed

lemma run_calls_blocks: "run_calls cfg = concat (map (\<lambda>t. socket_setup cfg t @ [Spawn t]) (planned_tasks cfg))"
proof -
  have "concat (map (listen_udp cfg) as) = concat (map (\<lambda>t. socket_setup cfg t @ [Spawn t])
      (concat (map (\<lambda>addr. replicate (max (unat (cf_udp_workers cfg)) 1) (UdpWorker addr)) as)))" for as
    by (induction as) (simp_all add: listen_udp_blocks)
  then show ?thesis by (simp add: run_calls_def planned_tasks_def comp_def split: option.split)
qed

lemma blocks_setup:
  assumes "\<And>t c. t \<in> set ts \<Longrightarrow> c \<in> set (f t) \<Longrightarrow> fallible c"
    and "i < length (concat (map (\<lambda>t. f t @ [Spawn t]) ts))"
    and "concat (map (\<lambda>t. f t @ [Spawn t]) ts) ! i = Spawn u"
  shows "suffix (f u) (take i (concat (map (\<lambda>t. f t @ [Spawn t]) ts)))"
  using assms
proof (induction ts arbitrary: i)
  case (Cons t ts)
  let ?rest = "concat (map (\<lambda>t. f t @ [Spawn t]) ts)"
  consider "i < length (f t)" | "i = length (f t)" | k where "i = length (f t) + Suc k"
    by (metis less_imp_Suc_add linorder_neqE_nat add_Suc_right)
  then show ?case
  proof cases
    case 1
    then have "f t ! i \<in> set (f t)" by simp
    then have "fallible (f t ! i)" using Cons.prems(1) [of t] by simp
    with 1 Cons.prems(3) show ?thesis by (simp add: nth_append)
  next
    case 3
    with Cons.prems have "k < length ?rest" "?rest ! k = Spawn u" by (simp_all add: nth_append)
    from Cons.IH [OF _ this] Cons.prems(1) have "suffix (f u) (take k ?rest)" by auto
    then have "suffix (f u) ((f t @ [Spawn t]) @ take k ?rest)" by (rule suffix_appendI)
    with 3 show ?thesis by simp
  qed (use Cons.prems(3) in simp)
qed simp

section \<open>Properties\<close>

lemma run_daemon_spec:
  assumes "run_daemon os cfg key now = (sh, tr, ok)"
  shows "sh = build_shared cfg key now \<and> (ok \<longrightarrow> spawned tr = planned_tasks cfg) \<and>
    (\<not> ok \<longrightarrow> prefix (spawned tr) (planned_tasks cfg) \<and> tr \<noteq> [] \<and> fallible (last tr)) \<and>
    (\<forall>j < length tr. fallible (tr ! j) \<longrightarrow> (os (take (Suc j) tr) \<longleftrightarrow> ok \<or> Suc j < length tr)) \<and>
    (\<forall>i t. i < length tr \<longrightarrow> tr ! i = Spawn t \<longrightarrow> suffix (socket_setup cfg t) (take i tr))"
proof -
  have e: "exec os [] (run_calls cfg) = (tr, ok)" and sh: "sh = build_shared cfg key now"
    using assms by (simp_all add: run_daemon_def)
  from exec_spec [OF e] obtain made where "prefix made (run_calls cfg)" "tr = [] @ made"
    "ok \<Longrightarrow> made = run_calls cfg" "\<not> ok \<Longrightarrow> made \<noteq> [] \<and> fallible (last made) \<and> \<not> os tr"
    "\<forall>j < length made. fallible (made ! j) \<and> (ok \<or> Suc j < length made) \<longrightarrow> os ([] @ take (Suc j) made)"
    by blast
  then have d: "prefix tr (run_calls cfg)" "ok \<Longrightarrow> tr = run_calls cfg"
    "\<not> ok \<Longrightarrow> tr \<noteq> [] \<and> fallible (last tr) \<and> \<not> os tr"
    "\<forall>j < length tr. fallible (tr ! j) \<and> (ok \<or> Suc j < length tr) \<longrightarrow> os (take (Suc j) tr)"
    by simp_all
  have "os (take (Suc j) tr) \<longleftrightarrow> ok \<or> Suc j < length tr" if j: "j < length tr" "fallible (tr ! j)" for j
  proof (cases "ok \<or> Suc j < length tr")
    case False
    then have "take (Suc j) tr = tr" using j(1) by simp
    with False d(3) show ?thesis by simp
  qed (use d(4) j in simp)
  moreover have "suffix (socket_setup cfg t) (take i tr)" if i: "i < length tr" "tr ! i = Spawn t" for i t
  proof -
    obtain zs where zs: "run_calls cfg = tr @ zs" using d(1) by (auto simp: prefix_def)
    then have "i < length (run_calls cfg)" "run_calls cfg ! i = Spawn t" using i by (simp_all add: nth_append)
    then have "suffix (socket_setup cfg t) (take i (run_calls cfg))"
      unfolding run_calls_blocks by (intro blocks_setup socket_setup_fallible)
    with zs i(1) show ?thesis by simp
  qed
  ultimately show ?thesis using sh d by (auto simp flip: spawned_run intro: spawned_prefix)
qed

text \<open>C37. Started on a file that parses as a configuration, the daemon has the state of that
  configuration, warns of its unknown directives and starts exactly its tasks: the clock, the
  sweep, at least one worker per UDP address even when the configured number is zero, one server
  per HTTP address, and the metrics server if there is one. It stops at the first call the system
  refuses, whichever it is: every call but the last was granted, the last one is the refused one if the start
  failed, and then only a prefix of the tasks was started. Every server is started right after
  the calls that open a socket of its own, each UDP worker's with the address shared.\<close>

theorem startup_serves_config:
  assumes "read_file path = Some txt" "config_parse txt = Inr c"
    and "path \<noteq> lit ''--version''" "path \<noteq> lit ''-V''"
  shows "\<exists>tr ok. start_main os read_file (Some path) key now =
      Ran (cf_unknown c) (build_shared c key now) tr ok \<and>
    (ok \<longrightarrow> spawned tr = planned_tasks c) \<and>
    (\<not> ok \<longrightarrow> prefix (spawned tr) (planned_tasks c) \<and> tr \<noteq> [] \<and> (\<forall>t. last tr \<noteq> Spawn t)) \<and>
    (\<forall>j < length tr. (\<forall>t. tr ! j \<noteq> Spawn t) \<longrightarrow> (os (take (Suc j) tr) \<longleftrightarrow> ok \<or> Suc j < length tr)) \<and>
    (\<forall>i t. i < length tr \<longrightarrow> tr ! i = Spawn t \<longrightarrow> suffix (socket_setup c t) (take i tr))"
proof -
  obtain sh tr ok where r: "run_daemon os c key now = (sh, tr, ok)" by (cases "run_daemon os c key now")
  have "start_main os read_file (Some path) key now = Ran (cf_unknown c) sh tr ok"
    using assms r by (simp add: start_main_def)
  with run_daemon_spec [OF r] show ?thesis unfolding fallible_iff by auto
qed

theorem startup_serves_config_witness:
  "\<exists>tr ok. start_main (\<lambda>h. True) (\<lambda>p. Some (render (config_items config_default))) (Some [47]) [1] 90 =
      Ran [] (build_shared config_default [1] 90) tr ok \<and>
    (ok \<longrightarrow> spawned tr = [ClockTask, GcTask])"
proof -
  have "[47] \<noteq> lit ''--version''" "[47] \<noteq> lit ''-V''" by (simp_all add: lit_def)
  from startup_serves_config [OF refl parse_expressible [OF expressible_default] this, of "\<lambda>h. True" "[1]" 90]
  show ?thesis by (auto simp: planned_tasks_def config_default_def)
qed

text \<open>C38. The daemon does not start on a configuration that begins like the shipped sample,
  whatever follows: it is rejected at its eighth line, whose comment is taken for part of the
  number, and no call is made to the system.\<close>

theorem sample_config_rejected:
  assumes "read_file path = Some (concat (map (\<lambda>l. l @ [10]) sample_head) @ rest)"
    and "path \<noteq> lit ''--version''" "path \<noteq> lit ''-V''"
  shows "start_main os read_file (Some path) key now = ConfigInvalid path
    \<lparr>ce_line = 8, ce_message = InvalidValue (lit ''16          # SO_REUSEPORT sockets/tasks (default: 1)'')\<rparr>"
  using assms by (simp add: start_main_def sample_rejected)

theorem sample_config_rejected_witness:
  "start_main (\<lambda>h. True) (\<lambda>p. Some (concat (map (\<lambda>l. l @ [10]) sample_head) @ [])) (Some [47]) [1] 90 =
    ConfigInvalid [47] \<lparr>ce_line = 8, ce_message =
      InvalidValue (lit ''16          # SO_REUSEPORT sockets/tasks (default: 1)'')\<rparr>"
proof -
  have "[47] \<noteq> lit ''--version''" "[47] \<noteq> lit ''-V''" by (simp_all add: lit_def)
  then show ?thesis
    by (intro sample_config_rejected [where read_file = "\<lambda>p. Some (concat (map (\<lambda>l. l @ [10]) sample_head) @ [])"]) simp_all
qed

end
