(* ===== verification/Checked.thy ===== *)
theory Checked
  imports Core
begin

text \<open>
  Plain integer arithmetic as a debug build compiles it: an addition or subtraction that leaves
  the range of its type is a panic.
\<close>

definition checked_add :: "'a::len word \<Rightarrow> 'a word \<Rightarrow> 'a word option" where
  "checked_add a b = (if unat a + unat b < 2 ^ LENGTH('a) then Some (a + b) else None)"

definition checked_sub :: "'a::len word \<Rightarrow> 'a word \<Rightarrow> 'a word option" where
  "checked_sub a b = (if b \<le> a then Some (a - b) else None)"

lemma unat_plus_le: "unat (a + b :: 'a::len word) \<le> unat a + unat b"
  by (simp add: unat_word_ariths)

lemma checked_add_Some:
  "unat a + unat b < 2 ^ LENGTH('a) \<Longrightarrow> checked_add a b = Some (a + b :: 'a::len word)"
  by (simp add: checked_add_def)

text \<open>A conditional addition within a budget: it succeeds, and what follows it may use the
  budget that is spent.\<close>

lemma if_add_le:
  "unat a \<le> k \<Longrightarrow> unat (if p then a + w else a) \<le> k + unat (w :: 'a::len word)"
  using unat_plus_le [of a w] by simp

lemma checked_if:
  "unat a \<le> k \<Longrightarrow> k + unat w < 2 ^ LENGTH('a) \<Longrightarrow>
   (if p then checked_add a w else Some (a :: 'a::len word)) = Some (if p then a + w else a)"
  by (simp add: checked_add_Some)

lemma checked_bind:
  assumes "unat a \<le> k" "k + unat w < 2 ^ LENGTH('a)"
    and "unat (if p then a + w else a) \<le> k + unat w \<Longrightarrow> K (if p then a + w else a) = r"
  shows "Option.bind (if p then checked_add a w else Some (a :: 'a::len word)) K = r"
  using assms if_add_le [OF assms(1), of p w] by (simp add: checked_add_Some split: if_splits)

end
