(* ===== verification/Store_Checked.thy ===== *)
theory Store_Checked
  imports Store_Claims Checked
begin

text \<open>
  crates/bf-core/src/store.rs as a debug build runs it, where an addition or subtraction that
  leaves the range of its type panics instead of wrapping. The operations are written again over
  checked arithmetic and compared with those of the release build: after fewer than \<open>2 ^ 62\<close>
  operations nothing can overflow, so both builds do the same.
\<close>

section \<open>The operations over checked arithmetic\<close>

definition leechers_chk :: "peer_list \<Rightarrow> u64 option" where
  "leechers_chk pl = checked_sub (word_of_nat (length (peers pl))) (seeders pl)"

definition pl_announce_chk :: "peer_list \<Rightarrow> bytes \<Rightarrow> u8 \<Rightarrow> u32 \<Rightarrow> peer_list option" where
  "pl_announce_chk pl key f0 now =
     (let f = sanitize f0; is_seed = (f AND SEEDING \<noteq> 0)
      in case map_of (peers pl) key of
           Some old \<Rightarrow>
             do {
               let was_seed = (flags old AND SEEDING \<noteq> 0);
               dl \<leftarrow> (if f AND COMPLETED \<noteq> 0 \<and> flags old AND COMPLETED = 0
                     then checked_add (downloaded pl) 1 else Some (downloaded pl));
               sd \<leftarrow> (if is_seed \<and> \<not> was_seed then checked_add (seeders pl) 1
                     else if \<not> is_seed \<and> was_seed then checked_sub (seeders pl) 1
                     else Some (seeders pl));
               Some (pl\<lparr>downloaded := dl, seeders := sd,
                 peers := AList.update key
                   \<lparr>flags = f OR (flags old AND COMPLETED), seen = now\<rparr> (peers pl)\<rparr>)
             }
         | None \<Rightarrow>
             do {
               dl \<leftarrow> (if f AND COMPLETED \<noteq> 0 then checked_add (downloaded pl) 1 else Some (downloaded pl));
               sd \<leftarrow> (if is_seed then checked_add (seeders pl) 1 else Some (seeders pl));
               Some (pl\<lparr>downloaded := dl, seeders := sd,
                 peers := AList.update key \<lparr>flags = f, seen = now\<rparr> (peers pl)\<rparr>)
             })"

definition pl_remove_chk :: "peer_list \<Rightarrow> bytes \<Rightarrow> peer_list option" where
  "pl_remove_chk pl key =
     (case map_of (peers pl) key of
        None \<Rightarrow> Some pl
      | Some old \<Rightarrow>
          do {
            sd \<leftarrow> (if flags old AND SEEDING \<noteq> 0 then checked_sub (seeders pl) 1 else Some (seeders pl));
            Some (pl\<lparr>peers := AList.delete key (peers pl), seeders := sd\<rparr>)
          })"

definition torrent_counts_chk :: "torrent \<Rightarrow> counts option" where
  "torrent_counts_chk t =
     do {
       sd \<leftarrow> checked_add (seeders (v4 t)) (seeders (v6 t));
       l4 \<leftarrow> leechers_chk (v4 t);
       l6 \<leftarrow> leechers_chk (v6 t);
       le \<leftarrow> checked_add l4 l6;
       dl \<leftarrow> checked_add (downloaded (v4 t)) (downloaded (v6 t));
       Some \<lparr>complete = ucast sd, incomplete = ucast le, c_downloaded = ucast dl\<rparr>
     }"

definition announce_v4_chk ::
  "peer_order \<Rightarrow> store \<Rightarrow> info_hash \<Rightarrow> bytes \<Rightarrow> u8 \<Rightarrow> nat \<Rightarrow> u32 \<Rightarrow> bytes \<Rightarrow> (store \<times> counts \<times> bytes) option" where
  "announce_v4_chk ord s hash key f numwant now peers_out =
     do {
       sh \<leftarrow> shard_at s (shard_index hash);
       let t = (case map_of sh hash of Some t \<Rightarrow> t | None \<Rightarrow> torrent_new);
       let t = t\<lparr>base := now\<rparr>;
       pl \<leftarrow> pl_announce_chk (v4 t) key f now;
       let t = t\<lparr>v4 := pl\<rparr>;
       let peers_out = write_compact ord (v4 t) numwant peers_out;
       c \<leftarrow> torrent_counts_chk t;
       Some (set_shard s (shard_index hash) (AList.update hash t sh), c, peers_out)
     }"

definition announce_v6_chk ::
  "peer_order \<Rightarrow> store \<Rightarrow> info_hash \<Rightarrow> bytes \<Rightarrow> u8 \<Rightarrow> nat \<Rightarrow> u32 \<Rightarrow> bytes \<Rightarrow> (store \<times> counts \<times> bytes) option" where
  "announce_v6_chk ord s hash key f numwant now peers_out =
     do {
       sh \<leftarrow> shard_at s (shard_index hash);
       let t = (case map_of sh hash of Some t \<Rightarrow> t | None \<Rightarrow> torrent_new);
       let t = t\<lparr>base := now\<rparr>;
       pl \<leftarrow> pl_announce_chk (v6 t) key f now;
       let t = t\<lparr>v6 := pl\<rparr>;
       let peers_out = write_compact ord (v6 t) numwant peers_out;
       c \<leftarrow> torrent_counts_chk t;
       Some (set_shard s (shard_index hash) (AList.update hash t sh), c, peers_out)
     }"

definition remove_v4_chk :: "store \<Rightarrow> info_hash \<Rightarrow> bytes \<Rightarrow> u32 \<Rightarrow> (store \<times> counts) option" where
  "remove_v4_chk s hash key now =
     do {
       sh \<leftarrow> shard_at s (shard_index hash);
       case map_of sh hash of
         Some t \<Rightarrow>
           do {
             pl \<leftarrow> pl_remove_chk (v4 t) key;
             let t = t\<lparr>base := now, v4 := pl\<rparr>;
             c \<leftarrow> torrent_counts_chk t;
             Some (set_shard s (shard_index hash) (AList.update hash t sh), c)
           }
       | None \<Rightarrow> Some (s, counts_default)
     }"

definition remove_v6_chk :: "store \<Rightarrow> info_hash \<Rightarrow> bytes \<Rightarrow> u32 \<Rightarrow> (store \<times> counts) option" where
  "remove_v6_chk s hash key now =
     do {
       sh \<leftarrow> shard_at s (shard_index hash);
       case map_of sh hash of
         Some t \<Rightarrow>
           do {
             pl \<leftarrow> pl_remove_chk (v6 t) key;
             let t = t\<lparr>base := now, v6 := pl\<rparr>;
             c \<leftarrow> torrent_counts_chk t;
             Some (set_shard s (shard_index hash) (AList.update hash t sh), c)
           }
       | None \<Rightarrow> Some (s, counts_default)
     }"

definition scrape_chk :: "store \<Rightarrow> info_hash \<Rightarrow> counts option" where
  "scrape_chk s hash =
     do {
       sh \<leftarrow> shard_at s (shard_index hash);
       case map_of sh hash of None \<Rightarrow> Some counts_default | Some t \<Rightarrow> torrent_counts_chk t
     }"

section \<open>One list\<close>

lemma seeders_nat:
  assumes "pl_ok n pl" "length (peers pl) < 2 ^ 64"
  shows "unat (seeders pl) = tally is_seed (peers pl)" "seeders pl \<le> word_of_nat (length (peers pl))"
    "unat (leechers pl) = length (peers pl) - tally is_seed (peers pl)"
proof -
  have le: "tally is_seed (peers pl) \<le> length (peers pl)" by (rule tally_le)
  show s: "unat (seeders pl) = tally is_seed (peers pl)"
    using pl_okD(3) [OF assms(1)] le assms(2) by (simp add: unat_of_nat)
  show lw: "seeders pl \<le> word_of_nat (length (peers pl))"
    unfolding word_le_nat_alt s using le assms(2) by (simp add: unat_of_nat)
  show "unat (leechers pl) = length (peers pl) - tally is_seed (peers pl)"
    unfolding leechers_def unat_sub [OF lw] s using assms(2) by (simp add: unat_of_nat)
qed

lemma seeder_counted:
  assumes "pl_ok n pl" "length (peers pl) < 2 ^ 64" "map_of (peers pl) key = Some old" "is_seed old"
  shows "1 \<le> seeders pl"
proof -
  have "(key, old) \<in> set (filter (\<lambda>e. is_seed (snd e)) (peers pl))"
    using assms(3,4) by (auto dest: map_of_SomeD)
  then have "0 < tally is_seed (peers pl)" unfolding tally_def by (rule length_pos_if_in_set)
  with seeders_nat(1) [OF assms(1,2)] show ?thesis by (simp add: word_le_nat_alt)
qed

definition small :: "nat \<Rightarrow> peer_list \<Rightarrow> bool" where
  "small n pl \<longleftrightarrow> length (peers pl) \<le> n \<and> unat (downloaded pl) \<le> n"

lemma pl_announce_chk_eq:
  assumes "pl_ok n pl" "small k pl" "k < 2 ^ 63"
  shows "pl_announce_chk pl key f now = Some (pl_announce pl key f now)"
proof -
  have l: "length (peers pl) < 2 ^ 63" "unat (downloaded pl) < 2 ^ 63"
    using assms(2,3) by (auto simp: small_def)
  have "unat (seeders pl) \<le> length (peers pl)"
    using seeders_nat(1) [OF assms(1)] l(1) tally_le [of is_seed "peers pl"] by simp
  with l have "checked_add (downloaded pl) 1 = Some (downloaded pl + 1)"
    "checked_add (seeders pl) 1 = Some (seeders pl + 1)"
    by (simp_all add: checked_add_def)
  moreover have "checked_sub (seeders pl) 1 = Some (seeders pl - 1)"
    if "map_of (peers pl) key = Some old" "flags old AND SEEDING \<noteq> 0" for old
    using seeder_counted [OF assms(1) _ that(1)] that(2) l(1) by (simp add: checked_sub_def seeding_def)
  ultimately show ?thesis
    unfolding pl_announce_chk_def pl_announce_def Let_def
    by (cases "map_of (peers pl) key") auto
qed

lemma pl_remove_chk_eq:
  assumes "pl_ok n pl" "small k pl" "k < 2 ^ 63"
  shows "pl_remove_chk pl key = Some (pl_remove pl key)"
proof -
  have l: "length (peers pl) < 2 ^ 64" using assms(2,3) by (simp add: small_def)
  have "checked_sub (seeders pl) 1 = Some (seeders pl - 1)"
    if "map_of (peers pl) key = Some old" "flags old AND SEEDING \<noteq> 0" for old
    using seeder_counted [OF assms(1) l that(1)] that(2) by (simp add: checked_sub_def seeding_def)
  then show ?thesis
    unfolding pl_remove_chk_def pl_remove_def by (cases "map_of (peers pl) key") auto
qed

lemma torrent_counts_chk_eq:
  assumes "torrent_ok t" "small k (v4 t)" "small k (v6 t)" "k < 2 ^ 63"
  shows "torrent_counts_chk t = Some (torrent_counts t)"
proof -
  have pl: "pl_ok 6 (v4 t)" "pl_ok 18 (v6 t)" using assms(1) by (simp_all add: torrent_ok_def)
  have l: "length (peers (v4 t)) < 2 ^ 63" "length (peers (v6 t)) < 2 ^ 63"
    "unat (downloaded (v4 t)) < 2 ^ 63" "unat (downloaded (v6 t)) < 2 ^ 63"
    using assms(2-4) by (simp_all add: small_def)
  then have l64: "length (peers (v4 t)) < 2 ^ 64" "length (peers (v6 t)) < 2 ^ 64" by simp_all
  note sn4 = seeders_nat [OF pl(1) l64(1)] and sn6 = seeders_nat [OF pl(2) l64(2)]
  have "leechers_chk (v4 t) = Some (leechers (v4 t))" "leechers_chk (v6 t) = Some (leechers (v6 t))"
    using sn4(2) sn6(2) by (simp_all add: leechers_chk_def checked_sub_def leechers_def)
  then show ?thesis
    using l sn4(1,3) sn6(1,3) tally_le [of is_seed "peers (v4 t)"] tally_le [of is_seed "peers (v6 t)"]
    by (simp add: torrent_counts_chk_def checked_add_def torrent_counts_def)
qed

section \<open>The store after a run\<close>

definition torrent_small :: "nat \<Rightarrow> torrent \<Rightarrow> bool" where
  "torrent_small n t \<longleftrightarrow> small n (v4 t) \<and> small n (v6 t)"

lemma torrent_small_mono: "torrent_small m t \<Longrightarrow> m \<le> n \<Longrightarrow> torrent_small n t"
  by (simp add: torrent_small_def small_def)

lemma torrent_small_new [simp]: "torrent_small n torrent_new"
  by (simp add: torrent_small_def small_def torrent_new_def peer_list_new_def)

lemma small_announce: "small n pl \<Longrightarrow> small (Suc n) (pl_announce pl key f now)"
  using unat_plus_le [of "downloaded pl" 1]
  by (auto simp: small_def pl_announce_def Let_def length_update split: option.split)

lemma small_remove: "pl_ok m pl \<Longrightarrow> small n pl \<Longrightarrow> small n (pl_remove pl key)"
  by (auto simp: small_def pl_remove_def length_delete pl_okD(1) split: option.split)

lemma small_expire: "small n pl \<Longrightarrow> small n (pl_expire pl now timeout)"
  by (auto simp: small_def pl_expire_def Let_def intro: le_trans [OF length_filter_le])

lemma small_mono: "small m pl \<Longrightarrow> m \<le> n \<Longrightarrow> small n pl"
  by (simp add: small_def)

lemma effect_small:
  assumes "effect e h t = Some t'" "\<forall>u. t = Some u \<longrightarrow> torrent_small n u \<and> torrent_ok u"
  shows "torrent_small (Suc n) t'"
proof -
  let ?u = "case t of None \<Rightarrow> torrent_new | Some u \<Rightarrow> u"
  have u: "small n (v4 ?u)" "small n (v6 ?u)"
    using assms(2) torrent_small_new [of n] by (auto simp: torrent_small_def split: option.split)
  then have "small (Suc n) (v4 ?u)" "small (Suc n) (v6 ?u)" by (auto intro: small_mono)
  with u assms show ?thesis
    by (cases e) (auto simp: Let_def torrent_small_def torrent_ok_def swept_def torrent_expire_def panic_iff
        intro: small_announce small_remove small_expire split: if_splits option.splits)
qed

lemma run_small:
  "store_run s es s' \<Longrightarrow> store_ok s \<Longrightarrow> \<forall>h t. torrent_at s h = Some t \<longrightarrow> torrent_small n t \<Longrightarrow>
   torrent_at s' h = Some t \<Longrightarrow> torrent_small (n + length es) t"
proof (induction arbitrary: n rule: run.induct)
  case (run_cons s e s1 es s')
  have "torrent_small (Suc n) t" if "torrent_at s1 h = Some t" for h t
  proof (rule effect_small)
    show "effect e h (torrent_at s h) = Some t"
      using step_refines [OF run_cons(1,4)] that by simp
    show "\<forall>u. torrent_at s h = Some u \<longrightarrow> torrent_small n u \<and> torrent_ok u"
      using run_cons.prems(2) torrent_at_ok [OF run_cons.prems(1)] by blast
  qed
  with run_cons.IH [of "Suc n"] step_refines [OF run_cons(1,4)] run_cons(6) show ?case by simp
qed simp

lemma run_small_new:
  "store_run store_new es s \<Longrightarrow> torrent_at s h = Some t \<Longrightarrow> torrent_small (length es) t"
  using run_small [OF _ store_ok_new, of es s 0 h t] by simp

lemma run_torrent_or_new:
  assumes "store_run store_new es s"
  shows "torrent_small (length es) (torrent_or_new s h)" "torrent_ok (torrent_or_new s h)"
    "shard_at s (shard_index h) = Some (shards s ! shard_index h)"
  using run_small_new [OF assms] torrent_or_new_ok shard_at_ok run_ok [OF assms store_ok_new]
  by (auto simp: torrent_or_new_def split: option.split)

text \<open>The torrent an operation on \<open>h\<close> leaves behind: its counts cannot overflow either.\<close>

lemma counts_announce4:
  assumes "store_run store_new es s" "length es < 2 ^ 62" "length key = 6"
    and t: "t = (torrent_or_new s h)\<lparr>base := now, v4 := pl_announce (v4 (torrent_or_new s h)) key f now\<rparr>"
  shows "torrent_counts_chk t = Some (torrent_counts t)"
  using run_torrent_or_new [OF assms(1), of h] assms(2,3)
  by (intro torrent_counts_chk_eq [of _ "Suc (length es)"])
    (auto simp: t torrent_small_def torrent_ok_def pl_ok_announce small_announce intro: small_mono)

lemma counts_announce6:
  assumes "store_run store_new es s" "length es < 2 ^ 62" "length key = 18"
    and t: "t = (torrent_or_new s h)\<lparr>base := now, v6 := pl_announce (v6 (torrent_or_new s h)) key f now\<rparr>"
  shows "torrent_counts_chk t = Some (torrent_counts t)"
  using run_torrent_or_new [OF assms(1), of h] assms(2,3)
  by (intro torrent_counts_chk_eq [of _ "Suc (length es)"])
    (auto simp: t torrent_small_def torrent_ok_def pl_ok_announce small_announce intro: small_mono)

lemma counts_remove:
  assumes "store_run store_new es s" "length es < 2 ^ 62" "torrent_at s h = Some t"
  shows "torrent_counts_chk t = Some (torrent_counts t)"
    "torrent_counts_chk (t\<lparr>base := now, v4 := pl_remove (v4 t) key\<rparr>) =
      Some (torrent_counts (t\<lparr>base := now, v4 := pl_remove (v4 t) key\<rparr>))"
    "torrent_counts_chk (t\<lparr>base := now, v6 := pl_remove (v6 t) key\<rparr>) =
      Some (torrent_counts (t\<lparr>base := now, v6 := pl_remove (v6 t) key\<rparr>))"
  using run_torrent_or_new [OF assms(1), of h] assms(2,3)
  by (auto simp: torrent_or_new_def torrent_small_def torrent_ok_def pl_ok_remove
      intro!: torrent_counts_chk_eq [of _ "length es"] small_remove)

lemma pl_chk_run:
  assumes "store_run store_new es s" "length es < 2 ^ 62"
  shows "pl_announce_chk (v4 (torrent_or_new s h)) key f now = Some (pl_announce (v4 (torrent_or_new s h)) key f now)"
    "pl_announce_chk (v6 (torrent_or_new s h)) key f now = Some (pl_announce (v6 (torrent_or_new s h)) key f now)"
    "pl_remove_chk (v4 (torrent_or_new s h)) key = Some (pl_remove (v4 (torrent_or_new s h)) key)"
    "pl_remove_chk (v6 (torrent_or_new s h)) key = Some (pl_remove (v6 (torrent_or_new s h)) key)"
  using run_torrent_or_new [OF assms(1), of h] assms(2)
  by (auto simp: torrent_small_def torrent_ok_def
      intro: pl_announce_chk_eq [where k = "length es"] pl_remove_chk_eq [where k = "length es"])

text \<open>C19. After fewer than \<open>2 ^ 62\<close> operations no addition and no subtraction of an announce, a
  removal or a scrape leaves its range: a debug build, which panics on overflow, does exactly what
  the release build does.\<close>

theorem no_overflow_panic:
  assumes "store_run store_new es s" "length es < 2 ^ 62" "length key4 = 6" "length key6 = 18"
  shows "announce_v4_chk ord s h key4 f want now out = announce_v4 ord s h key4 f want now out \<and>
    announce_v6_chk ord s h key6 f want now out = announce_v6 ord s h key6 f want now out \<and>
    remove_v4_chk s h key4 now = remove_v4 s h key4 now \<and>
    remove_v6_chk s h key6 now = remove_v6 s h key6 now \<and> scrape_chk s h = scrape s h"
proof (intro conjI)
  let ?t = "torrent_or_new s h"
  have ok: "store_ok s" by (rule run_ok [OF assms(1) store_ok_new])
  have t: "(case map_of (shards s ! shard_index h) h of Some t \<Rightarrow> t | None \<Rightarrow> torrent_new) = ?t"
    by (simp add: torrent_or_new_def torrent_at_shard [OF ok])
  note chk = pl_chk_run [OF assms(1,2), of h] and sh = shard_at_ok [OF ok]
  show "announce_v4_chk ord s h key4 f want now out = announce_v4 ord s h key4 f want now out"
    using counts_announce4 [OF assms(1-3) refl, where h = h and now = now and f = f]
    by (simp add: announce_v4_chk_def announce_v4_def sh t chk Let_def)
  show "announce_v6_chk ord s h key6 f want now out = announce_v6 ord s h key6 f want now out"
    using counts_announce6 [OF assms(1,2,4) refl, where h = h and now = now and f = f]
    by (simp add: announce_v6_chk_def announce_v6_def sh t chk Let_def)
  note c = counts_remove [OF assms(1,2), of h]
  show "remove_v4_chk s h key4 now = remove_v4 s h key4 now"
    using chk(3) c by (cases "torrent_at s h") (auto simp: remove_v4_chk_def remove_v4_def sh torrent_at_shard [OF ok]
        torrent_or_new_def Let_def)
  show "remove_v6_chk s h key6 now = remove_v6 s h key6 now"
    using chk(4) c by (cases "torrent_at s h") (auto simp: remove_v6_chk_def remove_v6_def sh torrent_at_shard [OF ok]
        torrent_or_new_def Let_def)
  show "scrape_chk s h = scrape s h"
    using c by (cases "torrent_at s h") (auto simp: scrape_chk_def scrape_def sh torrent_at_shard [OF ok])
qed

theorem no_overflow_panic_witness:
  "\<exists>s. store_run store_new [Announce4 (replicate 20 1) (replicate 6 2) SEEDING 7] s \<and>
     remove_v4_chk s (replicate 20 1) (replicate 6 2) 8 = remove_v4 s (replicate 20 1) (replicate 6 2) 8"
proof -
  let ?es = "[Announce4 (replicate 20 1) (replicate 6 2) SEEDING 7]"
  have "\<forall>e \<in> set ?es. event_ok e" by simp
  from run_exists [OF store_ok_new this] obtain s where r: "store_run store_new ?es s" ..
  from no_overflow_panic [OF r, where ?key4.0 = "replicate 6 2" and ?key6.0 = "replicate 18 2"
      and now = 8 and h = "replicate 20 1"] r
  show ?thesis by auto
qed

end
