(* ===== verification/L7_Checked.thy ===== *)
theory L7_Checked
  imports Config Checked
begin

text \<open>
  The score of crates/bf-l7/src/lib.rs as a debug build computes it, where every plain \<open>+=\<close> is
  checked. With the weights a daemon can run with, which no directive of the configuration
  changes, no announce can overflow its score.
\<close>

section \<open>The score over checked arithmetic\<close>

definition stateless_score_chk :: "l7_config \<Rightarrow> announce_info \<Rightarrow> bool \<Rightarrow> u32 option" where
  "stateless_score_chk c a fast =
     do {
       let sc = 0;
       sc \<leftarrow> (if ai_key a = 0 \<or> ai_key a = - 1 then checked_add sc (weight_bad_key c) else Some sc);
       sc \<leftarrow> (if ai_declared_ip a \<noteq> 0 \<and> ai_source_is_public a
             then checked_add sc (weight_declared_ip c) else Some sc);
       sc \<leftarrow> (if fast \<and> ai_port a < 1024 then checked_add sc (weight_bad_port c) else Some sc);
       sc \<leftarrow> (if fast \<and> ai_left a = 0 \<and> ai_downloaded a = 0 \<and> ai_uploaded a = 0
             then checked_add sc (weight_fake_seeder c) else Some sc);
       sc \<leftarrow> (if fast \<and> numwant_abuse c <s ai_num_want a
             then checked_add sc (weight_numwant c) else Some sc);
       Some sc
     }"

definition score_announce_chk :: "l7_config \<Rightarrow> announce_info \<Rightarrow> u32 \<Rightarrow> client \<Rightarrow> client option" where
  "score_announce_chk cfg a now c =
     do {
       let peer = peer_fingerprint (ai_peer_id a);
       let c = c\<lparr>connects := 0\<rparr>;
       (c, interval, key_churn, peer_churn) \<leftarrow> observe c a now (reannounce_min_interval cfg) peer;
       let fast = last_gap c < fast_announce_gap cfg;
       add \<leftarrow> stateless_score_chk cfg a fast;
       add \<leftarrow> (if interval then checked_add add (weight_interval cfg) else Some add);
       add \<leftarrow> (if key_churn then checked_add add (weight_key_churn cfg) else Some add);
       add \<leftarrow> (if peer_churn then checked_add add (weight_peerid_churn cfg) else Some add);
       add \<leftarrow> (if \<not> is_known_client (ai_peer_id a) then checked_add add (weight_peerid cfg) else Some add);
       (c, add) \<leftarrow>
         (if fast \<and> ai_swarm_peers a \<le> 1
          then (let c = c\<lparr>empty_swarms := sat_add (empty_swarms c) 1\<rparr>
                in if empty_swarms c > empty_swarm_threshold cfg
                   then do { add \<leftarrow> checked_add add (weight_empty_swarm cfg); Some (c, add) }
                   else Some (c, add))
          else Some (c\<lparr>empty_swarms := 0\<rparr>, add));
       (c, add) \<leftarrow>
         (if fast
          then (case widen c (ai_info_hash a) of (c, n) \<Rightarrow>
                  if n \<ge> breadth_threshold cfg
                  then do { add \<leftarrow> checked_add add (weight_breadth cfg); Some (c, add) }
                  else Some (c, add))
          else Some (c, add));
       Some (c\<lparr>score := sat_add (score c) add\<rparr>)
     }"

section \<open>The weights\<close>

text \<open>The most one announce can add: all eleven weights together.\<close>

definition weight_total :: "l7_config \<Rightarrow> nat" where
  "weight_total c = unat (weight_bad_key c) + unat (weight_declared_ip c) + unat (weight_bad_port c) +
     unat (weight_fake_seeder c) + unat (weight_numwant c) + unat (weight_interval c) +
     unat (weight_key_churn c) + unat (weight_peerid_churn c) + unat (weight_peerid c) +
     unat (weight_empty_swarm c) + unat (weight_breadth c)"

lemma weight_total_default: "weight_total l7_config_default = 385"
  by (simp add: weight_total_def l7_config_default_def)

lemma weight_total_directive:
  "l7_directive c key val line = Some (Inr c') \<Longrightarrow> weight_total c' = weight_total c"
  unfolding l7_directive_def
  by (cases "field_u32 val line"; cases "field_usize val line")
    (auto simp: weight_total_def split: if_splits)

lemma weight_total_line:
  assumes "directive c key val line = Inr c'"
  shows "weight_total (cf_l7 c') = weight_total (cf_l7 c)"
proof (cases "l7_directive (cf_l7 c) key val line")
  case None
  with assms show ?thesis
    unfolding directive_def andthen_def by (auto split: if_splits sum.splits)
next
  case (Some r)
  then show ?thesis
  proof (cases r)
    case (Inr l)
    with weight_total_directive [of "cf_l7 c" key val line l] Some assms show ?thesis
      unfolding directive_def andthen_def by (auto split: if_splits sum.splits)
  next
    case (Inl e)
    with Some assms show ?thesis
      unfolding directive_def andthen_def by (auto split: if_splits sum.splits)
  qed
qed

lemma weight_total_lines:
  "config_lines c idx ls = Inr c' \<Longrightarrow> weight_total (cf_l7 c') = weight_total (cf_l7 c)"
proof (induction ls arbitrary: c idx)
  case (Cons l ls)
  then obtain c1 where c1: "config_line c (idx + 1) l = Inr c1" "config_lines c1 (idx + 1) ls = Inr c'"
    by (auto split: sum.splits)
  have "weight_total (cf_l7 c1) = weight_total (cf_l7 c)"
    using c1(1) unfolding config_line_def
    by (auto simp: Let_def weight_total_line split: if_splits prod.splits option.splits)
  with Cons.IH [OF c1(2)] show ?case by simp
qed simp

lemma weight_total_parsed: "config_parse t = Inr c \<Longrightarrow> weight_total (cf_l7 c) = 385"
  using weight_total_lines weight_total_default by (fastforce simp: config_parse_def config_default_def)

section \<open>No announce overflows\<close>

lemma stateless_le:
  "unat (stateless_score c a fast) \<le>
     0 + unat (weight_bad_key c) + unat (weight_declared_ip c) + unat (weight_bad_port c) +
     unat (weight_fake_seeder c) + unat (weight_numwant c)"
  unfolding stateless_score_def Let_def by (intro if_add_le) simp

lemma stateless_score_chk_eq:
  assumes "weight_total c < 2 ^ 32"
  shows "stateless_score_chk c a fast = Some (stateless_score c a fast)"
  unfolding stateless_score_chk_def stateless_score_def Let_def
  using assms
  by (intro checked_bind [where k = 0] checked_bind) (assumption | simp add: weight_total_def)+

text \<open>The last two additions depend on the client as well as on the announce.\<close>

lemma tail_chk:
  assumes "unat add \<le> k" "k + unat (weight_empty_swarm cfg) + unat (weight_breadth cfg) < 2 ^ 32"
  shows "checked_add add (weight_empty_swarm cfg) = Some (add + weight_empty_swarm cfg)"
    "checked_add add (weight_breadth cfg) = Some (add + weight_breadth cfg)"
    "checked_add (add + weight_empty_swarm cfg) (weight_breadth cfg) =
      Some (add + weight_empty_swarm cfg + weight_breadth cfg)"
  using assms unat_plus_le [of add "weight_empty_swarm cfg"] by (auto intro!: checked_add_Some)

lemma score_announce_chk_eq:
  assumes "weight_total cfg < 2 ^ 32"
  shows "score_announce_chk cfg a now c = score_announce cfg a now c"
proof (cases "observe (c\<lparr>connects := 0\<rparr>) a now (reannounce_min_interval cfg) (peer_fingerprint (ai_peer_id a))")
  case None
  then show ?thesis by (simp add: score_announce_chk_def score_announce_def)
next
  case (Some r)
  obtain c1 i kc pc where r: "r = (c1, i, kc, pc)" by (cases r)
  define A0 where "A0 = stateless_score cfg a (last_gap c1 < fast_announce_gap cfg)"
  define A1 where "A1 = (if i then A0 + weight_interval cfg else A0)"
  define A2 where "A2 = (if kc then A1 + weight_key_churn cfg else A1)"
  define A3 where "A3 = (if pc then A2 + weight_peerid_churn cfg else A2)"
  define A4 where "A4 = (if \<not> is_known_client (ai_peer_id a) then A3 + weight_peerid cfg else A3)"
  note b0 = stateless_le [of cfg a "last_gap c1 < fast_announce_gap cfg", folded A0_def]
  note b1 = if_add_le [OF b0, of i "weight_interval cfg", folded A1_def]
  note b2 = if_add_le [OF b1, of kc "weight_key_churn cfg", folded A2_def]
  note b3 = if_add_le [OF b2, of pc "weight_peerid_churn cfg", folded A3_def]
  note b4 = if_add_le [OF b3, of "\<not> is_known_client (ai_peer_id a)" "weight_peerid cfg", folded A4_def]
  have t: "checked_add A4 (weight_empty_swarm cfg) = Some (A4 + weight_empty_swarm cfg)"
    "checked_add A4 (weight_breadth cfg) = Some (A4 + weight_breadth cfg)"
    "checked_add (A4 + weight_empty_swarm cfg) (weight_breadth cfg) =
      Some (A4 + weight_empty_swarm cfg + weight_breadth cfg)"
    by (rule tail_chk [OF b4]; use assms in \<open>simp add: weight_total_def\<close>)+
  have e: "(if i then checked_add A0 (weight_interval cfg) else Some A0) = Some A1"
    "(if kc then checked_add A1 (weight_key_churn cfg) else Some A1) = Some A2"
    "(if pc then checked_add A2 (weight_peerid_churn cfg) else Some A2) = Some A3"
    "(if \<not> is_known_client (ai_peer_id a) then checked_add A3 (weight_peerid cfg) else Some A3) = Some A4"
    unfolding A1_def A2_def A3_def A4_def
    by (rule checked_if [OF b0] checked_if [OF b1 [unfolded A1_def]] checked_if [OF b2 [unfolded A1_def A2_def]]
        checked_if [OF b3 [unfolded A1_def A2_def A3_def]]; use assms in \<open>simp add: weight_total_def\<close>)+
  show ?thesis
    unfolding score_announce_chk_def score_announce_def Let_def Some r Option.bind.simps prod.case
      stateless_score_chk_eq [OF assms] A0_def [symmetric] e A1_def [symmetric] A2_def [symmetric]
      A3_def [symmetric] A4_def [symmetric]
    by (simp add: t split: prod.split)
qed

text \<open>A daemon that runs with any configuration it can read never overflows a suspicion
  score: a debug build, which panics on overflow, scores every announce as the release build does.\<close>

lemma no_score_overflow:
  assumes "config_parse t = Inr cfg"
  shows "score_announce_chk (cf_l7 cfg) a now c = score_announce (cf_l7 cfg) a now c"
  by (rule score_announce_chk_eq) (simp add: weight_total_parsed [OF assms])

end
