(* ===== verification/Http_Loop.thy ===== *)
theory Http_Loop
  imports Http_Query "HOL-Library.While_Combinator"
begin

text \<open>
  crates/bf-http/src/lib.rs: the loop of \<open>percent_decode\<close> as it is written, over a position in the
  input. It may in principle not end, so it is a \<open>while_option\<close>; it always ends, with the value of
  the recursive definition that the handler's model uses.
\<close>

text \<open>The loop's variables: the position, the output vector, and whether \<open>return false\<close> was not
  taken.\<close>

type_synonym decode_state = "nat \<times> bytes \<times> bool"

definition decode_body :: "bytes \<Rightarrow> decode_state \<Rightarrow> decode_state" where
  "decode_body input st =
     (case st of (i, out, _) \<Rightarrow>
        let c = input ! i; get = (\<lambda>j. if j < length input then Some (input ! j) else None) in
        if c = of_char CHR ''%'' then
          (case (get (i + 1), get (i + 2)) of
             (Some h, Some l) \<Rightarrow>
               (case (hex_val h, hex_val l) of
                  (Some h, Some l) \<Rightarrow> (i + 3, out @ [push_bit 4 h OR l], True)
                | _ \<Rightarrow> (i, out, False))
           | _ \<Rightarrow> (i, out, False))
        else if c = of_char CHR ''+'' then (i + 1, out @ [of_char CHR '' ''], True)
        else (i + 1, out @ [c], True))"

definition decode_loop :: "bytes \<Rightarrow> bytes \<Rightarrow> (bool \<times> bytes) option" where
  "decode_loop input out =
     map_option (\<lambda>(i, out, ok). (ok, out))
       (while_option (\<lambda>(i, out, ok). ok \<and> i < length input) (decode_body input) (0, out, True))"

text \<open>What is left to do at a position.\<close>

definition rest_value :: "bytes \<Rightarrow> decode_state \<Rightarrow> bool \<times> bytes" where
  "rest_value input st = (case st of (i, out, ok) \<Rightarrow>
     if ok then percent_decode (drop i input) out else (False, out))"

lemma drop_nth: "i < length xs \<Longrightarrow> drop i xs = xs ! i # drop (Suc i) xs"
  by (rule Cons_nth_drop_Suc [symmetric])

lemma get_drop:
  "drop i xs = (if i < length xs then xs ! i # drop (Suc i) xs else [])"
  by (simp add: drop_nth)

lemma decode_body_value:
  assumes "i < length input"
  shows "rest_value input (decode_body input (i, out, True)) = rest_value input (i, out, True)"
proof -
  have d: "drop i input = input ! i # drop (Suc i) input" using assms by (rule drop_nth)
  show ?thesis
    using get_drop [of "Suc i" input] get_drop [of "Suc (Suc i)" input]
    by (auto simp: rest_value_def decode_body_def d Let_def numeral_3_eq_3 split: option.split)
qed

text \<open>The bytes that the loop has not passed, and one more while it may still return.\<close>

definition decode_measure :: "bytes \<Rightarrow> decode_state \<Rightarrow> nat" where
  "decode_measure input st = (case st of (i, out, ok) \<Rightarrow> if ok then Suc (length input - i) else 0)"

lemma decode_body_measure:
  "i < length input \<Longrightarrow> decode_measure input (decode_body input (i, out, True)) < decode_measure input (i, out, True)"
  by (auto simp: decode_measure_def decode_body_def Let_def split: option.split)

lemma percent_decode_length: "length (snd (percent_decode input out)) \<le> length out + length input"
  by (induction input out rule: percent_decode.induct)
    (fastforce intro: le_SucI split: list.split option.split)+

text \<open>C35. The decoding loop ends on every input, malformed escapes included, with the result of
  the recursive decoder; its output grows by at most one byte per byte of input.\<close>

theorem decode_loop_terminates:
  "\<exists>ok out'. decode_loop input out = Some (ok, out') \<and> percent_decode input out = (ok, out') \<and>
     length out' \<le> length out + length input"
proof -
  let ?b = "\<lambda>(i, out, ok). ok \<and> i < length input" and ?s = "(0, out, True)"
  let ?P = "\<lambda>st. rest_value input st = percent_decode input out"
  have step: "?P (decode_body input st) \<and> decode_measure input (decode_body input st) < decode_measure input st"
    if "?P st" "?b st" for st
  proof -
    from that(2) obtain i out' where st: "st = (i, out', True)" "i < length input" by (cases st) auto
    show ?thesis
      using that(1) decode_body_value [OF st(2)] decode_body_measure [OF st(2)] unfolding st(1) by simp
  qed
  have start: "?P ?s" by (simp add: rest_value_def)
  obtain t where w: "while_option ?b (decode_body input) ?s = Some t"
    using measure_while_option_Some [of ?P ?b "decode_body input" "decode_measure input" ?s, OF step start]
    by blast
  have t: "?P t" by (rule while_option_rule [where P = ?P, OF _ w start]) (use step in blast)
  from while_option_stop [OF w] t have "(\<lambda>(i, out, ok). (ok, out)) t = percent_decode input out"
    by (cases t) (auto simp: rest_value_def split: if_splits)
  with w percent_decode_length [of input out] show ?thesis
    by (cases "percent_decode input out") (simp add: decode_loop_def)
qed

end
