(* ===== verification/L7_Halves.thy ===== *)
theory L7_Halves
  imports L7_Safety
begin

text \<open>
  A handler of crates/bf-l7/src/lib.rs takes two locks, one after the other: that of the source's client
  shard, to score the event and test the threshold, and that of the offender registry, to count the
  offence and pick the tier. \<open>l7_on\<close> is their composition; here are the two halves.
\<close>

section \<open>The two halves of a detector handler\<close>

text \<open>The half under the client shard's lock: the detector after it, and whether a ban is due.\<close>

definition l7_client ::
  "client_order \<Rightarrow> detector \<Rightarrow> ip16 \<Rightarrow> u32 \<Rightarrow> l7_event \<Rightarrow> (detector \<times> bool) option" where
  "l7_client oc d ip now ev =
     do {
       shard \<leftarrow> client_shard_at d ip;
       let (shard, c) = touch oc d shard ip now;
       c \<leftarrow> l7_adjust (config d) now ev c;
       let (c, b) = crosses (config d) c now;
       Some (put_client d shard ip c, b)
     }"

lemma l7_on_split:
  "l7_on oc oo d ip now ev =
     do {
       (d, b) \<leftarrow> l7_client oc d ip now ev;
       Some (decide oo d ip b now)
     }"
  by (cases ev) (auto simp: l7_client_def on_announce_def on_connid_mismatch_def on_scrape_def
      on_connect_def Let_def case_prod_beta split: Option.bind_splits)

section \<open>What each half keeps\<close>

lemma decide_frame:
  assumes "decide oo d ip b now = (d', v)"
  shows "clients d' = clients d" "config d' = config d" "per_shard_cap d' = per_shard_cap d"
    "v \<noteq> Allow \<longleftrightarrow> b" "\<not> b \<Longrightarrow> d' = d"
  using assms by (auto simp: decide_def record_offence_def Let_def split: if_splits)

lemma decide_ok:
  assumes "decide oo d ip b now = (d', v)" "detector_ok d" "iteration_order oo"
  shows "detector_ok d'"
  using assms(1) record_offence_spec [OF assms(2,3), of ip now] assms(2)
  by (auto simp: decide_def split: if_splits)

lemma detector_ok_clients:
  "detector_ok d \<Longrightarrow> detector_ok d2 \<Longrightarrow> clients d' = clients d2 \<Longrightarrow> config d' = config d \<Longrightarrow>
   config d2 = config d \<Longrightarrow> offenders d' = offenders d \<Longrightarrow> per_shard_cap d' = per_shard_cap d \<Longrightarrow>
   detector_ok d'"
  by (auto simp: detector_ok_def)

lemma l7_client_frame:
  assumes "l7_client oc d ip now ev = Some (d', b)"
  shows "config d' = config d \<and> per_shard_cap d' = per_shard_cap d \<and> offenders d' = offenders d"
  using assms by (auto simp: l7_client_def put_client_def case_prod_beta panic_iff)

lemma l7_client_total:
  assumes "detector_ok d" "iteration_order oc"
  obtains d' b where "l7_client oc d ip now ev = Some (d', b)" "detector_ok d'"
    "config d' = config d" "offenders d' = offenders d"
proof (rule l7_on_spec [OF assms iteration_order_id, of now ev ip])
  fix c d2 v
  assume on: "l7_on oc (\<lambda>m. m) d ip now ev = Some (d2, v)" and o: "outcome d ip now c d2 v"
  then obtain d' b where c: "l7_client oc d ip now ev = Some (d', b)" "decide (\<lambda>m. m) d' ip b now = (d2, v)"
    unfolding l7_on_split by (cases "l7_client oc d ip now ev") auto
  note f = l7_client_frame [OF c(1)] and g = decide_frame [OF c(2)]
  have d2: "detector_ok d2" "config d2 = config d" using o by (simp_all add: outcome_def)
  have "detector_ok d'"
    by (rule detector_ok_clients [OF assms(1) d2(1)]) (use f g(1) d2(2) in simp_all)
  from c(1) this show thesis by (rule that) (use f in simp_all)
qed

text \<open>The half depends on the tracked clients only: a detector with the same clients takes a whole
  step to the same clients.\<close>

lemma l7_client_shadow:
  assumes "l7_client oc d ip now ev = Some (d', b)" "iteration_order oc"
    and "detector_ok d" "detector_ok d0" "config d0 = config d" "clients d0 = clients d"
  obtains d0' v where "l7_step d0 ip now ev d0' v" "clients d0' = clients d'" "v \<noteq> Allow \<longleftrightarrow> b"
proof -
  have cap: "per_shard_cap d0 = per_shard_cap d" using assms(3-5) by (simp add: detector_ok_def)
  have "\<exists>d1. l7_client oc d0 ip now ev = Some (d1, b) \<and> clients d1 = clients d'"
    using assms(1) unfolding l7_client_def
    by (auto simp: client_shard_at_def touch_def put_client_def assms(5,6) cap case_prod_beta Let_def
        panic_iff split: if_splits)
  then obtain d1 where d1: "l7_client oc d0 ip now ev = Some (d1, b)" "clients d1 = clients d'" by blast
  obtain d0' v where v: "decide (\<lambda>m. m) d1 ip b now = (d0', v)" by force
  have "l7_on oc (\<lambda>m. m) d0 ip now ev = Some (d0', v)" using d1 v by (simp add: l7_on_split)
  then have "l7_step d0 ip now ev d0' v" by (rule handled [OF assms(2) iteration_order_id])
  with decide_frame [OF v] d1(2) that show thesis by metis
qed

text \<open>The second half adds no key to the registry but the source's own.\<close>

lemma decide_keys:
  assumes "decide oo d ip b now = (d', v)"
  shows "fst ` set (offenders d') \<subseteq> insert ip (fst ` set (offenders d))"
  using assms set_evict_subset [of oo of_last "max_offenders (config d)" ip "offenders d"]
  by (auto simp: decide_def record_offence_def Let_def dest!: set_update_subset split: if_splits prod.splits)

end
