(* ===== verification/L7_Persistent.thy ===== *)
theory L7_Persistent
  imports L7_Safety
begin

text \<open>
  The other half of the cooldown: a source that does not stop is banned again. Re-arming is driven by
  time, so a score that stays above the threshold leads to the next ban, and through the registry to
  the next tier, as soon as the cooldown is over.
\<close>

section \<open>Abuse that outweighs decay\<close>

text \<open>Events that are abuse whatever else is known of the source, with the weight they carry.\<close>

fun abuse_weight :: "l7_config \<Rightarrow> l7_event \<Rightarrow> u32 option" where
  "abuse_weight cfg MismatchEv = Some (weight_connid cfg)"
| "abuse_weight cfg (ScrapeEv n) =
     (if n \<ge> scrape_volume_threshold cfg then Some (weight_scrape_volume cfg) else None)"
| "abuse_weight cfg ev = None"

text \<open>The most that decay takes off over a gap of \<open>g\<close> seconds, the remainder of an interval that is
  pending from before included.\<close>

definition decay_over :: "l7_config \<Rightarrow> nat \<Rightarrow> nat" where
  "decay_over cfg g =
     (let i = unat (max (decay_interval cfg) 1) in (i - 1 + g) div i * unat (decay_amount cfg))"

text \<open>From time \<open>t\<close> on the source is seen at least every \<open>g\<close> seconds, each time with an abuse that
  weighs more than the decay of such a gap.\<close>

fun abusing :: "l7_config \<Rightarrow> ip16 \<Rightarrow> nat \<Rightarrow> u32 \<Rightarrow> trace_entry list \<Rightarrow> bool" where
  "abusing cfg ip g t [] \<longleftrightarrow> True"
| "abusing cfg ip g t ((j, now, ev, v, d) # tr) \<longleftrightarrow>
     (if j = ip
      then (\<exists>w. abuse_weight cfg ev = Some w \<and> decay_over cfg g \<le> unat w) \<and> t \<le> now \<and>
        unat now \<le> unat t + g \<and> abusing cfg ip g now tr
      else abusing cfg ip g t tr)"

section \<open>A source above the threshold stays there\<close>

text \<open>After an event at \<open>t\<close>: tracked, above the threshold, less than an interval of decay pending, and
  banned until \<open>u\<close>.\<close>

definition hot :: "l7_config \<Rightarrow> client \<Rightarrow> u32 \<Rightarrow> bool" where
  "hot cfg c t \<longleftrightarrow> score_ban_threshold cfg \<le> score c \<and>
     unat t - unat (decay_at c) < unat (max (decay_interval cfg) 1)"

lemma decay_pending:
  "unat now - unat (decay_at (decay c now a i)) < unat (max i 1)"
proof (cases "unat (decay_at c) \<le> unat now")
  case True
  let ?i = "unat (max i 1)" and ?x = "unat now - unat (decay_at c)"
  have "unat now - unat (decay_at (decay c now a i)) = ?x - ?x div ?i * ?i"
    by (simp add: decay_anchor)
  also have "\<dots> = ?x mod ?i" by (simp add: minus_div_mult_eq_mod)
  finally show ?thesis using max1_pos by simp
next
  case False
  then show ?thesis using max1_pos [of i] by (simp add: decay_anchor)
qed

lemma abuse_adjust:
  assumes "abuse_weight cfg ev = Some w" "l7_adjust cfg now ev c = Some c'"
  shows "unat (score c') = min (unat (score c) + unat w) (2 ^ 32 - 1)" "decay_at c' = decay_at c"
    "banned_until c' = banned_until c"
  using assms by (cases ev; auto simp: unat_sat_add Let_def split: if_splits)+

lemma hot_step:
  assumes "hot cfg c t" "t \<le> now" "unat now \<le> unat t + g"
    and "abuse_weight cfg ev = Some w" "decay_over cfg g \<le> unat w"
    and "l7_adjust cfg now ev (decay c now (decay_amount cfg) (decay_interval cfg)) = Some c'"
  shows "hot cfg c' now"
proof -
  let ?i = "unat (max (decay_interval cfg) 1)" and ?a = "unat (decay_amount cfg)"
  let ?d = "decay c now (decay_amount cfg) (decay_interval cfg)"
  have le: "unat t \<le> unat now" using assms(2) by (simp add: word_le_nat_alt)
  have "unat t - unat (decay_at c) < ?i" using assms(1) by (simp add: hot_def)
  then have "unat now - unat (decay_at c) \<le> ?i - 1 + g" using assms(3) le by arith
  then have "whole c now (decay_interval cfg) \<le> (?i - 1 + g) div ?i" by (rule div_le_mono)
  then have "whole c now (decay_interval cfg) * ?a \<le> decay_over cfg g"
    by (simp add: decay_over_def Let_def)
  with assms(5) have "unat (score c) \<le> unat (score ?d) + unat w" by (simp add: decay_score)
  moreover have "unat (score c) \<le> 2 ^ 32 - 1" by (rule unat_le_u32)
  ultimately have "unat (score c) \<le> unat (score c')"
    using abuse_adjust(1) [OF assms(4,6)] by simp
  with assms(1) have "score_ban_threshold cfg \<le> score c'" by (simp add: hot_def word_le_nat_alt)
  then show ?thesis
    using decay_pending abuse_adjust(2) [OF assms(4,6)] by (simp add: hot_def)
qed

section \<open>Banned again\<close>

lemma hot_until_banned:
  assumes "detector_ok d" "config d = cfg" "client_at d ip = Some c" "hot cfg c t" "banned_until c = u"
    and "t < u" "l7_trace d tr" "\<forall>e \<in> set tr. client_at (snd (snd (snd (snd e)))) ip \<noteq> None"
    and "abusing cfg ip g t tr" "(ip, now0, ev0, v0, d0) \<in> set tr" "u \<le> now0"
  shows "\<exists>now ev v d'. (ip, now, ev, v, d') \<in> set tr \<and> v \<noteq> Allow \<and> u \<le> now \<and> unat now < unat u + g"
  using assms
proof (induction tr arbitrary: d c t)
  case (Cons e tr)
  obtain j now ev v d1 where e: "e = (j, now, ev, v, d1)" by (cases e)
  with Cons.prems have s: "l7_step d j now ev d1 v" "l7_trace d1 tr" "client_at d1 ip \<noteq> None" by auto
  have ok: "detector_ok d1" "config d1 = cfg" using step_ok [OF s(1) Cons.prems(1)] Cons.prems(2) by auto
  show ?case
  proof (cases "j = ip")
    case False
    obtain c0 where o: "outcome d j now c0 d1 v" using s(1) Cons.prems(1) by (rule step_outcome)
    with False s(3) Cons.prems(3) have at: "client_at d1 ip = Some c" by (auto simp: outcome_def)
    have "\<exists>now ev v d'. (ip, now, ev, v, d') \<in> set tr \<and> v \<noteq> Allow \<and> u \<le> now \<and> unat now < unat u + g"
      by (rule Cons.IH [OF ok at Cons.prems(4,5,6) s(2)]) (use Cons.prems e False in auto)
    then show ?thesis by auto
  next
    case True
    with Cons.prems(9) e obtain w where ev: "abuse_weight cfg ev = Some w" "decay_over cfg g \<le> unat w"
      "t \<le> now" "unat now \<le> unat t + g" "abusing cfg ip g now tr" by auto
    have touched: "touched d ip now = decay c now (decay_amount cfg) (decay_interval cfg)"
      using Cons.prems(2,3) by (simp add: touched_def)
    obtain c' where "l7_adjust (config d) now ev (touched d j now) = Some c'"
      "v \<noteq> Allow \<longleftrightarrow> score_ban_threshold (config d) \<le> score c' \<and> banned_until (touched d j now) \<le> now"
      "client_at d1 j = Some (if v = Allow then c' else c'\<lparr>banned_until := sat_add now (reban_cooldown (config d))\<rparr>)"
      using ban_rule_lemma [OF Cons.prems(1) s(1)] by blast
    then have c': "l7_adjust cfg now ev (decay c now (decay_amount cfg) (decay_interval cfg)) = Some c'"
        "v \<noteq> Allow \<longleftrightarrow> score_ban_threshold cfg \<le> score c' \<and> u \<le> now" "v = Allow \<longrightarrow> client_at d1 ip = Some c'"
      unfolding True touched Cons.prems(2) by (simp_all add: Cons.prems(5))
    have hot: "hot cfg c' now" by (rule hot_step [OF Cons.prems(4) ev(3,4,1,2) c'(1)])
    show ?thesis
    proof (cases "u \<le> now")
      case True
      with c'(2) hot have "v \<noteq> Allow" by (simp add: hot_def)
      moreover have "unat now < unat u + g"
        using ev(4) Cons.prems(6) by (simp add: word_less_nat_alt)
      ultimately show ?thesis using e \<open>j = ip\<close> True by auto
    next
      case False
      then have at: "client_at d1 ip = Some c'" and lt: "now < u" using c'(2,3) by auto
      have bu: "banned_until c' = u"
        using abuse_adjust(3) [OF ev(1) c'(1)] Cons.prems(5) by simp
      have "\<exists>now ev v d'. (ip, now, ev, v, d') \<in> set tr \<and> v \<noteq> Allow \<and> u \<le> now \<and> unat now < unat u + g"
        by (rule Cons.IH [OF ok at hot bu lt s(2) _ ev(5)]) (use Cons.prems e False in auto)
      then show ?thesis by auto
    qed
  qed
qed simp

lemma observe_decay_at: "observe c a now floor peer = Some (c', fl) \<Longrightarrow> decay_at c' = decay_at c"
  by (auto simp: observe_def Let_def split: if_splits)

lemma adjust_decay_at: "l7_adjust cfg now ev c = Some c' \<Longrightarrow> decay_at c' = decay_at c"
proof (cases ev)
  case (AnnounceEv a)
  assume adj: "l7_adjust cfg now ev c = Some c'"
  then obtain r where r: "observe (c\<lparr>connects := 0\<rparr>) a now (reannounce_min_interval cfg)
      (peer_fingerprint (ai_peer_id a)) = Some r"
    by (cases "observe (c\<lparr>connects := 0\<rparr>) a now (reannounce_min_interval cfg) (peer_fingerprint (ai_peer_id a))")
      (simp_all add: AnnounceEv score_announce_def)
  obtain c1 fl where c1: "r = (c1, fl)" by (cases r)
  then have "decay_at c1 = decay_at c" using observe_decay_at r by fastforce
  moreover have "map_option decay_at (score_announce cfg a now c) = Some (decay_at c1)"
    by (simp add: score_announce_def Let_def widen_def r c1 case_prod_beta)
  ultimately show "decay_at c' = decay_at c" using adj by (simp add: AnnounceEv)
qed (auto simp: Let_def split: if_splits)

lemma touched_pending:
  "unat now - unat (decay_at (touched d ip now)) < unat (max (decay_interval (config d)) 1)"
  using decay_pending by (simp add: touched_def split: option.split)

text \<open>C13. A source that does not stop is banned again: after a ban at \<open>t0\<close>, if it keeps being seen at
  least every \<open>g\<close> seconds, each time with an abuse that weighs more than the decay of such a gap, and
  stays tracked, then it is banned again less than \<open>g\<close> seconds after its cooldown ends, whatever the
  other sources do.\<close>

theorem persistent_abuser_rebanned:
  assumes "detector_ok d0" "l7_step d0 ip t0 ev0 d (Ban dur tier)"
    and "t0 < sat_add t0 (reban_cooldown (config d0))" "l7_trace d tr"
    and "\<forall>e \<in> set tr. client_at (snd (snd (snd (snd e)))) ip \<noteq> None"
    and "abusing (config d0) ip g t0 tr"
    and "(ip, now, ev, v, d1) \<in> set tr" "sat_add t0 (reban_cooldown (config d0)) \<le> now"
  shows "\<exists>t ev' dur' tier' d'. (ip, t, ev', Ban dur' tier', d') \<in> set tr \<and>
    sat_add t0 (reban_cooldown (config d0)) \<le> t \<and>
    unat t < unat (sat_add t0 (reban_cooldown (config d0))) + g"
proof -
  let ?u = "sat_add t0 (reban_cooldown (config d0))"
  obtain c where c: "l7_adjust (config d0) t0 ev0 (touched d0 ip t0) = Some c"
    "score_ban_threshold (config d0) \<le> score c" "client_at d ip = Some (c\<lparr>banned_until := ?u\<rparr>)"
    using ban_rule_lemma [OF assms(1,2)] by auto
  have ok: "detector_ok d" "config d = config d0" using step_ok [OF assms(2,1)] by auto
  have "unat t0 - unat (decay_at c) < unat (max (decay_interval (config d0)) 1)"
    using touched_pending [of t0 d0 ip] adjust_decay_at [OF c(1)] by simp
  with c(2) have hot: "hot (config d0) (c\<lparr>banned_until := ?u\<rparr>) t0" by (simp add: hot_def)
  have "banned_until (c\<lparr>banned_until := ?u\<rparr>) = ?u" by simp
  from hot_until_banned [OF ok c(3) hot this assms(3-8)] obtain t ev' v' d' where
    b: "(ip, t, ev', v', d') \<in> set tr" "v' \<noteq> Allow" "?u \<le> t" "unat t < unat ?u + g" by blast
  then obtain dur' tier' where "v' = Ban dur' tier'" by (cases v') auto
  with b show ?thesis by blast
qed

theorem persistent_abuser_rebanned_witness:
  "\<exists>d0 d d' dur tier dur' tier'. l7_step d0 (replicate 16 1) 1000 ConnectEv d (Ban dur tier) \<and>
     l7_step d (replicate 16 1) 1005 MismatchEv d' (Ban dur' tier')"
proof -
  let ?cfg = "l7_config_default\<lparr>score_ban_threshold := 0, reban_cooldown := 5\<rparr>" and ?ip = "replicate 16 (1 :: u8)"
  let ?d = "detector_new ?cfg"
  have c: "config ?d = ?cfg" "score_ban_threshold ?cfg = 0" "reban_cooldown ?cfg = 5" "decay_interval ?cfg = 60"
    "decay_amount ?cfg = 1" "weight_connid ?cfg = 15"
    by (simp_all add: detector_new_def l7_config_default_def)
  obtain d v0 where s0: "l7_step ?d ?ip 1000 ConnectEv d v0" by (rule step_exists [OF detector_ok_new])
  have "banned_until (touched ?d ?ip 1000) = 0" by (simp add: touched_def client_new_def)
  with ban_rule_lemma [OF detector_ok_new s0] c have "v0 \<noteq> Allow" by auto
  then obtain dur tier where v0: "v0 = Ban dur tier" by (cases v0) auto
  have ok: "detector_ok d" using step_ok [OF s0 detector_ok_new] by simp
  obtain d' v where s1: "l7_step d ?ip 1005 MismatchEv d' v" by (rule step_exists [OF ok])
  obtain c1 where "outcome d ?ip 1005 c1 d' v" by (rule step_outcome [OF s1 ok])
  then have tr: "client_at d' ?ip \<noteq> None" by (simp add: outcome_def)
  have u: "sat_add 1000 (reban_cooldown (config ?d)) = 1005" by (simp add: c sat_add_def)
  have "abusing (config ?d) ?ip 5 1000 [(?ip, 1005, MismatchEv, v, d')]"
    by (simp add: c decay_over_def Let_def max_def)
  from persistent_abuser_rebanned [OF detector_ok_new s0 [unfolded v0] _ _ _ this, of 1005 MismatchEv v d']
  have "\<exists>t ev' dur' tier' d''. (?ip, t, ev', Ban dur' tier', d'') \<in> set [(?ip, 1005, MismatchEv, v, d')]"
    using s1 tr u by auto
  then obtain dur' tier' where "v = Ban dur' tier'" by auto
  with s0 s1 v0 show ?thesis by blast
qed

end
