(* ===== verification/Daemon_Types.thy ===== *)
theory Daemon_Types
  imports Daemon L7_Halves
begin

text \<open>
  The types that the Rust compiler enforces and the lists of the model do not show: 20-byte hashes,
  6-byte and 18-byte peer keys, 16-byte source addresses, and addresses of four or sixteen bytes in
  the queue of ban jobs. They hold in every reachable state of the daemon.
\<close>

section \<open>The store's keys\<close>

lemma length_ip_to_16: "ip_ok ip \<Longrightarrow> length (ip_to_16 ip) = 16"
  by simp

fun event_hash :: "store_event \<Rightarrow> info_hash option" where
  "event_hash (Announce4 h key f now) = Some h"
| "event_hash (Announce6 h key f now) = Some h"
| "event_hash _ = None"

definition hashes_typed :: "tracker \<Rightarrow> bool" where
  "hashes_typed tr \<longleftrightarrow> (\<forall>h w. tr h = Some w \<longrightarrow> length h = 20)"

lemma spec_step_typed:
  assumes "hashes_typed tr" "\<forall>h. event_hash e = Some h \<longrightarrow> length h = 20"
  shows "hashes_typed (spec_step e tr)"
  using assms by (cases e) (auto simp: hashes_typed_def Let_def panic_iff split: option.splits if_splits)

lemma udp_typed:
  assumes "store_ok s" "length ip = 16" "iteration_order ord"
    and "udp_handle mac ci ord s buf ip is_v4 now interval out = Some (s', out', act)"
    and "hashes_typed (view s)"
  shows "hashes_typed (view s')"
proof -
  have "hashes_typed (view s')" if "parse buf = Some (Inr (Announce a))"
      "view s' = spec_step (udp_event a ip is_v4 now) (view s)" for a
    using announce_hash_length [OF that(1)] assms(5) unfolding that(2)
    by (intro spec_step_typed) (auto simp: udp_event_def Let_def split: if_splits)
  with handle_cases [OF assms(1-4)] assms(5) show ?thesis by blast
qed

lemma http_typed:
  assumes "store_ok s" "length ip = 16" "iteration_order ord"
    and "http_handle itoa ord s target ip is_v4 now interval = Some (s', r)" "hashes_typed (view s)"
  shows "hashes_typed (view s')"
proof -
  obtain query where q: "http_handle itoa ord s target ip is_v4 now interval =
    (if http_path target = str ''/'' then Some (s, Redirect)
     else if http_path target = str ''/announce'' then http_announce itoa ord s query ip is_v4 now interval
     else if http_path target = str ''/scrape'' then map_option (\<lambda>r. (s, r)) (http_scrape itoa s query)
     else Some (s, NotFound))"
    using http_handle_eq by metis
  show ?thesis
  proof (cases "http_path target = str ''/announce''")
    case False
    with q assms(4,5) show ?thesis by (auto split: if_splits simp: eq_commute [of "Some (s', r)"])
  next
    case True
    then have a: "http_announce itoa ord s query ip is_v4 now interval = Some (s', r)"
      using q assms(4) by (simp add: str_def)
    show ?thesis
    proof (rule http_announce_cases [OF assms(1-3), of itoa query is_v4 now interval])
      fix s1 p hash port peers4 peers6
      assume p: "announce_params params_init (query_pairs query) = Some (Inr p)" "hp_info_hash p = Some hash"
        "http_announce itoa ord s query ip is_v4 now interval =
          Some (s1, Body (announce_response itoa [] (spec_counts (view s1) hash) interval peers4 peers6))"
        "http_apply ord s hash port p ip is_v4 now = Some (s1, spec_counts (view s1) hash, peers4, peers6)"
      have ok: "params_ok p"
        by (rule announce_params_total [OF params_ok_init, of "query_pairs query"]) (use p(1) in auto)
      from http_apply_refines [OF assms(1-3) ok, of hash port is_v4 now] p(4)
      have "view s1 = spec_step (http_event hash port p ip is_v4 now) (view s)"
        by (metis option.inject prod.inject)
      moreover have "\<forall>h. event_hash (http_event hash port p ip is_v4 now) = Some h \<longrightarrow> length h = 20"
        using ok p(2) by (simp add: params_ok_def http_event_def Let_def)
      ultimately have "hashes_typed (view s1)"
        using spec_step_typed [OF assms(5)] by simp
      with a p(3) show ?thesis by simp
    qed (use a assms(5) in auto)
  qed
qed

section \<open>The detector's keys\<close>

definition sources_typed :: "detector \<Rightarrow> bool" where
  "sources_typed d \<longleftrightarrow> (\<forall>ip c. client_at d ip = Some c \<longrightarrow> length ip = 16) \<and>
     (\<forall>ip \<in> fst ` set (offenders d). length ip = 16)"

lemma l7_step_typed:
  assumes "l7_step d ip now ev d' v" "detector_ok d" "sources_typed d" "length ip = 16"
  shows "sources_typed d'"
proof -
  from assms(1) obtain oc oo where o: "iteration_order oc" "l7_on oc oo d ip now ev = Some (d', v)"
    by (rule l7_stepE)
  then obtain d1 b where c: "l7_client oc d ip now ev = Some (d1, b)" "decide oo d1 ip b now = (d', v)"
    unfolding l7_on_split by (cases "l7_client oc d ip now ev") auto
  have "offenders d1 = offenders d" using l7_client_frame [OF c(1)] by simp
  with decide_keys [OF c(2)] have "fst ` set (offenders d') \<subseteq> insert ip (fst ` set (offenders d))" by simp
  with assms(3,4) have "\<forall>i \<in> fst ` set (offenders d'). length i = 16"
    unfolding sources_typed_def by blast
  moreover have "length i = 16" if "client_at d' i = Some c" for i c
  proof (rule step_outcome [OF assms(1,2)])
    fix c0
    assume "outcome d ip now c0 d' v"
    with that assms(3,4) show ?thesis
      unfolding outcome_def sources_typed_def by (cases "i = ip") (force, metis option.distinct(1))
  qed
  ultimately show ?thesis by (simp add: sources_typed_def)
qed

section \<open>The daemon\<close>

definition shared_typed :: "shared \<Rightarrow> bool" where
  "shared_typed sh \<longleftrightarrow> hashes_typed (view (sh_store sh)) \<and> sources_typed (sh_detector sh) \<and>
     (\<forall>j \<in> set (sh_jobs sh). ip_ok (job_ip j))"

lemma shared_typed_new: "shared_typed (build_shared cfg key now)"
  by (simp add: shared_typed_def hashes_typed_def view_new sources_typed_def) (simp add: detector_new_def)

lemma sweep_typed: "hashes_typed (view s) \<Longrightarrow> store_ok s \<Longrightarrow> i < SHARD_COUNT \<Longrightarrow> hashes_typed (view (gc_at now i s))"
  using step_view [OF step_sweep [of i s now]] spec_step_typed [of "view s" "Sweep now i"] by simp

lemma udp_worker_typed:
  assumes "udp_worker mac op oc oo sh out dg peer rnd = Some (sh', out', sent)"
    and "store_ok (sh_store sh)" "detector_ok (sh_detector sh)" "ip_ok peer"
    and "iteration_order op" "iteration_order oc" "iteration_order oo" "shared_typed sh"
  shows "shared_typed sh'"
proof (rule udp_worker_spec [OF assms(2-7), of dg mac rnd out])
  fix parsed s1 out1 act d' v
  assume u: "udp_handle mac (sh_connid sh) op (sh_store sh) (take UDP_BUF dg) (ip_to_16 peer)
      (is_ipv4 (canonical_ip peer)) (sh_clock sh) (1620 + rnd) out = Some (s1, out1, act)"
    and f: "fed (cf_l7_enable (sh_config sh)) (sh_detector sh) (ip_to_16 peer) (to_u32_sat (sh_clock sh))
      (feed_event parsed (canonical_ip peer) act out1) d' v"
    and w: "udp_worker mac op oc oo sh out dg peer rnd =
      Some (apply_verdict (sh\<lparr>sh_store := s1, sh_metrics := record_udp_metric (sh_metrics sh) parsed act,
        sh_detector := d'\<rparr>) (canonical_ip peer) v, out1, sent_bytes act out1)"
  have len: "length (ip_to_16 peer) = 16" using assms(4) by simp
  have t: "hashes_typed (view (sh_store sh))" "sources_typed (sh_detector sh)"
    using assms(8) by (simp_all add: shared_typed_def)
  have "sources_typed d'"
    using f l7_step_typed [OF _ assms(3) t(2) len] t(2)
    by (auto simp: fed_def split: option.splits if_splits)
  with udp_typed [OF assms(2) len assms(5) u t(1)] assms(1,4,8) w show ?thesis
    by (auto simp: shared_typed_def apply_verdict_jobs canonical_ok split: if_splits)
qed

lemma daemon_step_typed:
  assumes "daemon_step mac netlink sh ev sh'" "daemon_ok cfg key sh" "shared_typed sh"
  shows "shared_typed sh'"
proof -
  have ok: "store_ok (sh_store sh)" "detector_ok (sh_detector sh)" using assms(2) by (simp_all add: daemon_ok_def)
  from assms(1) show ?thesis
  proof cases
    case (step_udp op oc oo peer out dg rnd out' sent)
    from udp_worker_typed [OF step_udp(6) ok step_udp(5,2-4) assms(3)] show ?thesis .
  next
    case (step_http op peer itoa header_ok target rnd r)
    have ip: "ip_ok (canonical_ip peer)" using step_http(3) by (rule canonical_ok)
    then have len: "length (ip_to_16 (canonical_ip peer)) = 16" by (rule length_ip_to_16)
    let ?h = "http_handle itoa op (sh_store sh) target (ip_to_16 (canonical_ip peer)) (is_ipv4 (canonical_ip peer))
        (to_u32_sat (sh_clock sh div 60)) (1620 + rnd)"
    obtain r1 where h: "?h = Some (sh_store sh', r1)"
    proof (cases ?h)
      case None
      with step_http(4) show thesis by (simp add: serve_http_def handle_http_def)
    next
      case (Some p)
      obtain s1 r1 where p: "p = (s1, r1)" by (cases p)
      have "sh_store sh' = s1"
        using step_http(4) Some
        by (cases r1) (auto simp: serve_http_def handle_http_def Let_def p split: if_splits)
      with that Some p show thesis by simp
    qed
    from http_typed [OF ok(1) len step_http(2) h] assms(3) have "hashes_typed (view (sh_store sh'))"
      by (simp add: shared_typed_def)
    moreover have "sh_detector sh' = sh_detector sh" "sh_jobs sh' = sh_jobs sh"
      using handle_http_spec [OF ok(1) ip step_http(2), of itoa header_ok target rnd] step_http(4)
      by (auto simp: serve_http_def)
    ultimately show ?thesis using assms(3) by (simp add: shared_typed_def)
  qed (use assms(3) ok in \<open>auto simp: shared_typed_def clock_tick_def gc_tick_def sweep_typed\<close>)
qed

interpretation typed: machine "\<lambda>sh. \<exists>now. sh = build_shared cfg key now" "daemon_step mac netlink"
  "\<lambda>sh. daemon_ok cfg key sh \<and> shared_typed sh" for mac netlink cfg key
proof unfold_locales
  fix sh sh' ev
  show "\<exists>now. sh = build_shared cfg key now \<Longrightarrow> daemon_ok cfg key sh \<and> shared_typed sh"
    using daemon.inv_init [of sh cfg key] shared_typed_new by auto
  show "daemon_step mac netlink sh ev sh' \<Longrightarrow> daemon_ok cfg key sh \<and> shared_typed sh \<Longrightarrow>
      daemon_ok cfg key sh' \<and> shared_typed sh'"
    using daemon_step_typed [of mac netlink sh ev sh' cfg key] daemon.inv_step [of mac netlink sh ev sh' cfg key] by simp
qed

text \<open>Every list of the state has the length of the array it models in every reachable state of
  the daemon: info-hashes have 20 bytes, the peers of the two families keys of 6 and 18 bytes, the
  tracked sources and the offenders 16 bytes, and a ban job names an address of 4 or 16 bytes.\<close>

lemma state_well_typed:
  assumes "daemon_reach mac netlink cfg key sh"
  shows "(\<forall>h t. torrent_at (sh_store sh) h = Some t \<longrightarrow> length h = 20 \<and>
      (\<forall>k \<in> fst ` set (peers (v4 t)). length k = 6) \<and> (\<forall>k \<in> fst ` set (peers (v6 t)). length k = 18)) \<and>
    (\<forall>ip c. client_at (sh_detector sh) ip = Some c \<longrightarrow> length ip = 16) \<and>
    (\<forall>ip \<in> fst ` set (offenders (sh_detector sh)). length ip = 16) \<and>
    (\<forall>j \<in> set (sh_jobs sh). ip_ok (job_ip j))"
proof -
  have inv: "daemon_ok cfg key sh" "shared_typed sh" using typed.reach_inv [OF assms] by auto
  have "torrent_ok t" if "torrent_at (sh_store sh) h = Some t" for h t
    using inv(1) that by (auto simp: daemon_ok_def dest: torrent_at_ok)
  with inv(2) show ?thesis
    by (auto simp: shared_typed_def sources_typed_def hashes_typed_def view_def torrent_ok_def pl_ok_def)
qed

end
