(* ===== verification/Requests.thy ===== *)
theory Requests
  imports Daemon
begin

text \<open>
  The HTTP requests of crates/bluefrog/src/main.rs and crates/bf-http/src/lib.rs at the grain of the
  shared accesses. A request reads the clock once, holds the lock of a store shard for an announce
  or for one hash of a scrape, and bumps one counter. Between any two of these accesses everything
  else may run. \<open>Daemon\<close> takes a request in one step; here it is a process.
\<close>

section \<open>The state of a request\<close>

text \<open>What \<open>handle_http\<close> fixed at once: the canonical source, the target, the minutes of the clock
  and the advertised interval.\<close>

record asked =
  aq_ip :: ip_addr
  aq_target :: bytes
  aq_now :: u32
  aq_interval :: u32

definition ask :: "shared \<Rightarrow> ip_addr \<Rightarrow> bytes \<Rightarrow> u32 \<Rightarrow> asked" where
  "ask sh peer target rnd =
     \<lparr>aq_ip = canonical_ip peer, aq_target = target, aq_now = to_u32_sat (sh_clock sh div 60),
      aq_interval = 1620 + rnd\<rparr>"

text \<open>The query of a scrape.\<close>

definition scrape_query :: "bytes \<Rightarrow> bytes option" where
  "scrape_query target =
     (case (case split_once (of_char CHR ''?'') target of Some pq \<Rightarrow> pq | None \<Rightarrow> (target, [])) of
        (path, query) \<Rightarrow> if path = str ''/scrape'' then Some query else None)"

text \<open>One round of the loop of \<open>scrape\<close>: the response when the loop is left, otherwise the entries
  and the pairs that remain.\<close>

type_synonym entries = "(info_hash \<times> counts) list"
type_synonym pairs = "(bytes \<times> bytes) list"

fun scrape_round :: "itoa \<Rightarrow> store \<Rightarrow> entries \<Rightarrow> pairs \<Rightarrow> (http_response + entries \<times> pairs) option" where
  "scrape_round itoa s files [] = Some (Inl (Body (scrape_response itoa [] files)))"
| "scrape_round itoa s files ((key, raw) # kvs) =
     (if key = str ''info_hash'' then
        (if length files \<ge> HTTP_MAX_SCRAPE_HASHES
         then Some (Inl (Body (scrape_response itoa [] files)))
         else (case percent_decode raw [] of (ok, buf) \<Rightarrow>
           if \<not> ok \<or> length buf \<noteq> HASH_LEN then Some (Inl BadRequest)
           else do {
             hash \<leftarrow> to_hash buf;
             c \<leftarrow> scrape s hash;
             Some (Inr (files @ [(hash, c)], kvs))
           }))
      else Some (Inr (files, kvs)))"

text \<open>What \<open>handle_http\<close> makes of the handler's response: the counter it bumps and the reply.\<close>

definition http_counter :: "bytes \<Rightarrow> http_response \<Rightarrow> counter option" where
  "http_counter target r =
     (case r of
        Body b \<Rightarrow>
          if starts_with target (str ''/announce'') then Some HttpAnnounce
          else if starts_with target (str ''/scrape'') then Some HttpScrape
          else None
      | BadRequest \<Rightarrow> Some Error
      | _ \<Rightarrow> None)"

definition reply_of :: "(codes \<Rightarrow> bool) \<Rightarrow> config \<Rightarrow> http_response \<Rightarrow> http_reply" where
  "reply_of header_ok cfg r =
     (case r of
        Body b \<Rightarrow> plain_reply 200 b
      | Redirect \<Rightarrow>
          (let url = (case cf_redirect_url cfg of Some u \<Rightarrow> u | None \<Rightarrow> [])
           in if header_ok url then \<lparr>hr_status = 302, hr_location = Some url, hr_body = []\<rparr>
              else plain_reply 200 [])
      | BadRequest \<Rightarrow> plain_reply 400 (str ''400'')
      | NotFound \<Rightarrow> plain_reply 404 (str ''404''))"

definition bump :: "counter option \<Rightarrow> shared \<Rightarrow> shared" where
  "bump c sh = (case c of Some k \<Rightarrow> sh\<lparr>sh_metrics := inc k (sh_metrics sh)\<rparr> | None \<Rightarrow> sh)"

datatype request_phase =
    Asked ip_addr bytes
  | Serving asked
  | Reading asked entries pairs
  | Responded asked http_response
  | Answering http_reply
  | Closed

datatype request_event = Quiet | Answer http_reply

section \<open>Steps of a request\<close>

inductive serve :: "itoa \<Rightarrow> (codes \<Rightarrow> bool) \<Rightarrow>
    shared \<times> request_phase \<Rightarrow> request_event \<Rightarrow> shared \<times> request_phase \<Rightarrow> bool" for itoa header_ok where
  s_ask: "serve itoa header_ok (sh, Asked peer target) Quiet (sh, Serving (ask sh peer target rnd))"
| s_handle: "scrape_query (aq_target a) = None \<Longrightarrow> iteration_order op \<Longrightarrow>
    http_handle itoa op (sh_store sh) (aq_target a) (ip_to_16 (aq_ip a)) (is_ipv4 (aq_ip a)) (aq_now a)
      (aq_interval a) = Some (s, r) \<Longrightarrow>
    serve itoa header_ok (sh, Serving a) Quiet (sh\<lparr>sh_store := s\<rparr>, Responded a r)"
| s_scrape: "scrape_query (aq_target a) = Some query \<Longrightarrow>
    serve itoa header_ok (sh, Serving a) Quiet (sh, Reading a [] (query_pairs query))"
| s_round: "scrape_round itoa (sh_store sh) files kvs = Some (Inr (files', kvs')) \<Longrightarrow>
    serve itoa header_ok (sh, Reading a files kvs) Quiet (sh, Reading a files' kvs')"
| s_read: "scrape_round itoa (sh_store sh) files kvs = Some (Inl r) \<Longrightarrow>
    serve itoa header_ok (sh, Reading a files kvs) Quiet (sh, Responded a r)"
| s_count: "serve itoa header_ok (sh, Responded a r) Quiet
    (bump (http_counter (aq_target a) r) sh, Answering (reply_of header_ok (sh_config sh) r))"
| s_answer: "serve itoa header_ok (sh, Answering rp) (Answer rp) (sh, Closed)"

inductive_cases serveE: "serve itoa header_ok st ev st'"

section \<open>A request left alone\<close>

lemma bump_frame [simp]:
  "sh_store (bump c sh) = sh_store sh" "sh_detector (bump c sh) = sh_detector sh"
  "sh_config (bump c sh) = sh_config sh" "sh_connid (bump c sh) = sh_connid sh"
  "sh_sink (bump c sh) = sh_sink sh" "sh_clock (bump c sh) = sh_clock sh" "sh_jobs (bump c sh) = sh_jobs sh"
  by (simp_all add: bump_def split: option.split)

lemma handle_http_split:
  "handle_http itoa header_ok op sh target ip rnd =
     do {
       (s, r) \<leftarrow> http_handle itoa op (sh_store sh) target (ip_to_16 ip) (is_ipv4 ip)
         (to_u32_sat (sh_clock sh div 60)) (1620 + rnd);
       Some (bump (http_counter target r) (sh\<lparr>sh_store := s\<rparr>), reply_of header_ok (sh_config sh) r)
     }"
  unfolding handle_http_def Let_def
  by (intro arg_cong2 [where f = Option.bind] refl ext)
    (auto simp: http_counter_def reply_of_def bump_def Let_def split: http_response.split)

lemma http_handle_scrape:
  "scrape_query target = Some query \<Longrightarrow>
   http_handle itoa op s target ip is_v4 now interval = map_option (\<lambda>r. (s, r)) (http_scrape itoa s query)"
  by (auto simp: http_handle_def scrape_query_def str_def split: option.splits prod.splits if_splits)

lemma scrape_files_rounds:
  "map_option (\<lambda>r. case r of Inl resp \<Rightarrow> resp | Inr fs \<Rightarrow> Body (scrape_response itoa [] fs)) (scrape_files s files kvs) =
     do {
       r \<leftarrow> scrape_round itoa s files kvs;
       case r of
         Inl resp \<Rightarrow> Some resp
       | Inr (files', kvs') \<Rightarrow> map_option (\<lambda>r. case r of Inl resp \<Rightarrow> resp | Inr fs \<Rightarrow> Body (scrape_response itoa [] fs))
           (scrape_files s files' kvs')
     }"
  by (cases "(itoa, s, files, kvs)" rule: scrape_round.cases)
    (auto split: prod.split bind_split simp: to_hash_def)


section \<open>The invariant\<close>

fun request_ok :: "request_phase \<Rightarrow> bool" where
  "request_ok (Asked peer target) \<longleftrightarrow> ip_ok peer"
| "request_ok (Serving a) \<longleftrightarrow> ip_ok (aq_ip a)"
| "request_ok _ \<longleftrightarrow> True"

lemma http_moved:
  assumes "store_ok s" "length ip = 16" "iteration_order ord"
    and "http_handle itoa ord s target ip is_v4 now interval = Some (s', r)"
  shows "store_moved s s'"
  using http_handle_spec [OF assms(1-3), of itoa target is_v4 now interval] assms(4)
  by (auto simp: store_moved_def)

lemma serve_moved:
  assumes "serve itoa header_ok (sh, w) ev (sh', w')" "store_ok (sh_store sh)" "request_ok w"
  shows "store_moved (sh_store sh) (sh_store sh') \<and> sh_detector sh' = sh_detector sh \<and>
    sh_jobs sh' = sh_jobs sh \<and> kept sh sh' \<and> request_ok w'"
  using assms(1)
proof cases
  case (s_handle a op s r)
  with assms(3) have "length (ip_to_16 (aq_ip a)) = 16" by simp
  from http_moved [OF assms(2) this s_handle(6,7)] s_handle show ?thesis by (simp add: kept_def)
qed (use assms(2,3) in \<open>auto simp: kept_def store_moved_refl ask_def canonical_ok\<close>)

lemma scrape_round_total:
  assumes "store_ok s"
  shows "\<exists>r. scrape_round itoa s files kvs = Some r"
  by (cases "(itoa, s, files, kvs)" rule: scrape_round.cases)
    (auto simp: to_hash_def scrape_refines [OF assms] split: prod.split)

text \<open>Whatever a request is at, it can take its next step.\<close>

lemma serve_progress:
  assumes "store_ok (sh_store sh)" "request_ok w" "w \<noteq> Closed"
  shows "\<exists>ev sh' w'. serve itoa header_ok (sh, w) ev (sh', w')"
proof (cases w)
  case (Serving a)
  show ?thesis
  proof (cases "scrape_query (aq_target a)")
    case None
    have "length (ip_to_16 (aq_ip a)) = 16" using assms(2) Serving by simp
    from http_handle_spec [OF assms(1) this iteration_order_id, of itoa "aq_target a" "is_ipv4 (aq_ip a)"
        "aq_now a" "aq_interval a"] s_handle [OF None iteration_order_id] Serving
    show ?thesis by blast
  qed (use Serving in \<open>blast intro: s_scrape\<close>)
next
  case (Reading a files kvs)
  obtain r where r: "scrape_round itoa (sh_store sh) files kvs = Some r"
    using scrape_round_total [OF assms(1)] by blast
  show ?thesis
  proof (cases r)
    case (Inl resp)
    with r Reading show ?thesis by (blast intro: s_read)
  next
    case (Inr fk)
    with r Reading show ?thesis by (cases fk) (blast intro: s_round)
  qed
qed (use assms(3) in \<open>blast intro: serve.intros\<close>)+

section \<open>The steps a request takes\<close>

text \<open>A scrape takes at most one step per pair of the query, and one to leave the loop.\<close>

fun request_steps :: "request_phase \<Rightarrow> nat" where
  "request_steps (Asked peer target) = 5 + (case scrape_query target of
     Some query \<Rightarrow> length (query_pairs query) | None \<Rightarrow> 0)"
| "request_steps (Serving a) = 4 + (case scrape_query (aq_target a) of
     Some query \<Rightarrow> length (query_pairs query) | None \<Rightarrow> 0)"
| "request_steps (Reading a files kvs) = 3 + length kvs"
| "request_steps (Responded a r) = 2"
| "request_steps (Answering rp) = 1"
| "request_steps Closed = 0"

lemma scrape_round_shorter: "scrape_round itoa s files kvs = Some (Inr (files', kvs')) \<Longrightarrow> length kvs' < length kvs"
  by (cases "(itoa, s, files, kvs)" rule: scrape_round.cases)
    (auto split: prod.splits bind_splits if_splits)

lemma serve_fewer:
  "serve itoa header_ok (sh, w) ev (sh', w') \<Longrightarrow> request_steps w' < request_steps w"
  by (erule serveE) (auto simp: ask_def dest: scrape_round_shorter)

lemma request_steps_0: "request_steps w = 0 \<longleftrightarrow> w = Closed"
  by (cases w) (simp_all split: option.split)


section \<open>What a reply tells\<close>

text \<open>The hashes that a scrape looks up, unless one of them is malformed.\<close>

fun wanted :: "nat \<Rightarrow> pairs \<Rightarrow> info_hash list option" where
  "wanted n [] = Some []"
| "wanted n ((key, raw) # kvs) =
     (if key = str ''info_hash'' then
        (if n \<ge> HTTP_MAX_SCRAPE_HASHES then Some []
         else (case percent_decode raw [] of (ok, buf) \<Rightarrow>
           if \<not> ok \<or> length buf \<noteq> HASH_LEN then None else map_option ((#) buf) (wanted (Suc n) kvs)))
      else wanted n kvs)"

text \<open>A handler's response in terms of the moments \<open>D\<close> of a run: a scrape found each hash's counts at
  one of them; any other response is the handler's own at one of them, where the store made the
  handler's change.\<close>

definition response_told ::
  "((shared \<Rightarrow> shared \<Rightarrow> bool) \<Rightarrow> bool) \<Rightarrow> itoa \<Rightarrow> asked \<Rightarrow> http_response \<Rightarrow> bool" where
  "response_told D itoa a r \<longleftrightarrow>
     (case scrape_query (aq_target a) of
        None \<Rightarrow> D (\<lambda>sh sh'. \<exists>op. iteration_order op \<and>
          http_handle itoa op (sh_store sh) (aq_target a) (ip_to_16 (aq_ip a)) (is_ipv4 (aq_ip a)) (aq_now a)
            (aq_interval a) = Some (sh_store sh', r))
      | Some query \<Rightarrow> (case wanted 0 (query_pairs query) of
            None \<Rightarrow> r = BadRequest
          | Some hs \<Rightarrow> \<exists>files. r = Body (scrape_response itoa [] files) \<and> map fst files = hs \<and>
              (\<forall>(h, c) \<in> set files. D (\<lambda>sh sh'. scrape (sh_store sh) h = Some c \<and> sh' = sh))))"

definition asked_told :: "((shared \<Rightarrow> shared \<Rightarrow> bool) \<Rightarrow> bool) \<Rightarrow> ip_addr \<Rightarrow> bytes \<Rightarrow> asked \<Rightarrow> bool" where
  "asked_told D peer target a \<longleftrightarrow> aq_target a = target \<and> D (\<lambda>sh sh'. (\<exists>rnd. a = ask sh peer target rnd) \<and> sh' = sh)"

definition reply_told ::
  "((shared \<Rightarrow> shared \<Rightarrow> bool) \<Rightarrow> bool) \<Rightarrow> itoa \<Rightarrow> (codes \<Rightarrow> bool) \<Rightarrow> config \<Rightarrow> ip_addr \<Rightarrow> bytes \<Rightarrow> http_reply \<Rightarrow> bool" where
  "reply_told D itoa header_ok cfg peer target rp \<longleftrightarrow>
     (\<exists>a r. asked_told D peer target a \<and> response_told D itoa a r \<and> rp = reply_of header_ok cfg r)"

fun request_told ::
  "((shared \<Rightarrow> shared \<Rightarrow> bool) \<Rightarrow> bool) \<Rightarrow> itoa \<Rightarrow> (codes \<Rightarrow> bool) \<Rightarrow> config \<Rightarrow> ip_addr \<Rightarrow> bytes \<Rightarrow> request_phase \<Rightarrow> bool" where
  "request_told D itoa header_ok cfg peer target (Asked p t) \<longleftrightarrow> p = peer \<and> t = target"
| "request_told D itoa header_ok cfg peer target (Serving a) \<longleftrightarrow> asked_told D peer target a"
| "request_told D itoa header_ok cfg peer target (Reading a files kvs) \<longleftrightarrow> asked_told D peer target a \<and>
     (\<exists>query. scrape_query (aq_target a) = Some query \<and>
       wanted 0 (query_pairs query) = map_option ((@) (map fst files)) (wanted (length files) kvs)) \<and>
     (\<forall>(h, c) \<in> set files. D (\<lambda>sh sh'. scrape (sh_store sh) h = Some c \<and> sh' = sh))"
| "request_told D itoa header_ok cfg peer target (Responded a r) \<longleftrightarrow>
     asked_told D peer target a \<and> response_told D itoa a r"
| "request_told D itoa header_ok cfg peer target (Answering rp) \<longleftrightarrow> reply_told D itoa header_ok cfg peer target rp"
| "request_told D itoa header_ok cfg peer target Closed \<longleftrightarrow> True"

lemma asked_told_mono: "asked_told D peer target a \<Longrightarrow> (\<And>P. D P \<Longrightarrow> D' P) \<Longrightarrow> asked_told D' peer target a"
  by (auto simp: asked_told_def)

lemma response_told_mono: "response_told D itoa a r \<Longrightarrow> (\<And>P. D P \<Longrightarrow> D' P) \<Longrightarrow> response_told D' itoa a r"
  unfolding response_told_def by (fastforce split: option.splits)

lemma request_told_mono:
  assumes "request_told D itoa header_ok cfg peer target w" "\<And>P. D P \<Longrightarrow> D' P"
  shows "request_told D' itoa header_ok cfg peer target w"
proof (cases w)
  case (Answering rp)
  with assms(1) show ?thesis
    using asked_told_mono [of D peer target _ D', OF _ assms(2)] response_told_mono [of D itoa _ _ D', OF _ assms(2)]
    by (simp add: reply_told_def) blast
qed (use assms asked_told_mono [OF _ assms(2)] response_told_mono [OF _ assms(2)] in auto)

lemma scrape_roundE:
  assumes "scrape_round itoa s files kvs = Some (Inr (files', kvs'))"
  obtains key raw where "kvs = (key, raw) # kvs'" "key \<noteq> str ''info_hash''" "files' = files"
  | raw h c where "kvs = (str ''info_hash'', raw) # kvs'" "length files < HTTP_MAX_SCRAPE_HASHES"
    "percent_decode raw [] = (True, h)" "length h = HASH_LEN" "scrape s h = Some c" "files' = files @ [(h, c)]"
  using assms
  by (cases "(itoa, s, files, kvs)" rule: scrape_round.cases)
    (auto simp: to_hash_def split: prod.splits bind_splits if_splits)

lemma round_wanted_next:
  assumes "scrape_round itoa s files kvs = Some (Inr (files', kvs'))"
  shows "map_option ((@) (map fst files)) (wanted (length files) kvs) =
      map_option ((@) (map fst files')) (wanted (length files') kvs')"
    and "set files' \<subseteq> set files \<union> {(h, c). scrape s h = Some c}"
proof -
  from assms have "map_option ((@) (map fst files)) (wanted (length files) kvs) =
      map_option ((@) (map fst files')) (wanted (length files') kvs') \<and>
    set files' \<subseteq> set files \<union> {(h, c). scrape s h = Some c}"
  proof (cases rule: scrape_roundE)
    case (2 raw h c)
    have "map_option ((@) (map fst files)) (map_option ((#) h) w) = map_option ((@) (map fst files @ [h])) w" for w
      by (cases w) simp_all
    with 2 show ?thesis by auto
  qed auto
  then show "map_option ((@) (map fst files)) (wanted (length files) kvs) =
      map_option ((@) (map fst files')) (wanted (length files') kvs')"
    and "set files' \<subseteq> set files \<union> {(h, c). scrape s h = Some c}" by simp_all
qed

lemma round_wanted_last:
  assumes "scrape_round itoa s files kvs = Some (Inl r)"
  shows "r = BadRequest \<and> wanted (length files) kvs = None \<or>
    r = Body (scrape_response itoa [] files) \<and> wanted (length files) kvs = Some []"
proof (cases kvs)
  case (Cons kv kvs')
  obtain key raw where kv: "kv = (key, raw)" by (cases kv)
  obtain ok buf where "percent_decode raw [] = (ok, buf)" by (cases "percent_decode raw []")
  with assms show ?thesis by (auto simp: Cons kv to_hash_def bind_eq_Some_conv split: if_splits)
qed (use assms in simp)

text \<open>The request's own step.\<close>

lemma told_serve:
  assumes "serve itoa header_ok (sh, w) ev (sh', w')"
    and "request_told D itoa header_ok (sh_config sh) peer target w" "\<And>P. D P \<Longrightarrow> D' P"
    and now: "\<And>P. ev = Quiet \<Longrightarrow> P sh sh' \<Longrightarrow> D' P"
  shows "request_told D' itoa header_ok (sh_config sh) peer target w'"
proof -
  have t: "request_told D' itoa header_ok (sh_config sh) peer target w"
    by (rule request_told_mono [OF assms(2,3)])
  from assms(1) show ?thesis
  proof cases
    case (s_ask p tg rnd)
    have "D' (\<lambda>sh1 sh2. (\<exists>rnd'. ask sh peer target rnd = ask sh1 peer target rnd') \<and> sh2 = sh1)"
      by (rule now) (use s_ask in auto)
    with t s_ask show ?thesis by (simp add: asked_told_def) (simp add: ask_def)
  next
    case (s_handle a op s r)
    with t show ?thesis by (auto simp: response_told_def intro!: now exI [of _ op])
  next
    case (s_scrape a query)
    with t show ?thesis by simp (cases "wanted 0 (query_pairs query)"; simp)
  next
    case (s_round files kvs files' kvs' a)
    have "D' (\<lambda>sh1 sh2. scrape (sh_store sh1) h = Some c \<and> sh2 = sh1)" if "scrape (sh_store sh) h = Some c" for h c
      by (rule now) (use s_round that in auto)
    with t s_round round_wanted_next [OF s_round(5)] show ?thesis by fastforce
  next
    case (s_read files kvs r a)
    with t round_wanted_last [OF s_read(5)] show ?thesis by (auto simp: response_told_def)
  qed (use t in \<open>auto simp: reply_told_def\<close>)
qed


section \<open>The one-step model of a request\<close>

definition scrape_result :: "itoa \<Rightarrow> store \<Rightarrow> entries \<Rightarrow> pairs \<Rightarrow> http_response option" where
  "scrape_result itoa s files kvs =
     map_option (\<lambda>r. case r of Inl resp \<Rightarrow> resp | Inr fs \<Rightarrow> Body (scrape_response itoa [] fs)) (scrape_files s files kvs)"

lemma silent_rounds:
  assumes "scrape_result itoa (sh_store sh) files kvs = Some r"
  shows "silent (serve itoa header_ok) Quiet (sh, Reading a files kvs) (sh, Responded a r)"
  using assms
proof (induction kvs arbitrary: files rule: measure_induct_rule [where f = length])
  case (less kvs)
  then obtain rd where rd: "scrape_round itoa (sh_store sh) files kvs = Some rd"
    and r: "(case rd of Inl resp \<Rightarrow> Some resp | Inr (files', kvs') \<Rightarrow> scrape_result itoa (sh_store sh) files' kvs') = Some r"
    unfolding scrape_result_def scrape_files_rounds [of itoa "sh_store sh" files kvs] by (auto simp: panic_iff)
  show ?case
  proof (cases rd)
    case (Inl resp)
    with rd r show ?thesis by (auto intro: silent_step s_read silent_refl)
  next
    case (Inr fk)
    obtain files' kvs' where "fk = (files', kvs')" by (cases fk)
    with Inr rd r have n: "scrape_round itoa (sh_store sh) files kvs = Some (Inr (files', kvs'))"
      "scrape_result itoa (sh_store sh) files' kvs' = Some r" by simp_all
    from less.IH [OF scrape_round_shorter [OF n(1)] n(2)] show ?thesis
      by - (rule silent_step, rule s_round [OF n(1)])
  qed
qed

text \<open>A request that nobody interrupts does what \<open>serve_http\<close> says.\<close>

lemma request_alone:
  assumes "serve_http itoa header_ok op sh target peer rnd = Some (sh', rp)" "iteration_order op"
  shows "\<exists>n. run (serve itoa header_ok) (sh, Asked peer target) (replicate n Quiet @ [Answer rp]) (sh', Closed)"
proof -
  let ?step = "serve itoa header_ok"
  define a where "a = ask sh peer target rnd"
  have a: "aq_ip a = canonical_ip peer" "aq_target a = target" "aq_now a = to_u32_sat (sh_clock sh div 60)"
    "aq_interval a = 1620 + rnd"
    by (simp_all add: a_def ask_def)
  from assms(1) obtain s r where h: "http_handle itoa op (sh_store sh) (aq_target a) (ip_to_16 (aq_ip a))
      (is_ipv4 (aq_ip a)) (aq_now a) (aq_interval a) = Some (s, r)"
    and e: "sh' = bump (http_counter (aq_target a) r) (sh\<lparr>sh_store := s\<rparr>)"
      "rp = reply_of header_ok (sh_config (sh\<lparr>sh_store := s\<rparr>)) r"
    by (auto simp: serve_http_def handle_http_split panic_iff a)
  have "silent ?step Quiet (sh, Serving a) (sh\<lparr>sh_store := s\<rparr>, Responded a r)"
  proof (cases "scrape_query (aq_target a)")
    case None
    from s_handle [OF this assms(2) h] show ?thesis by (rule silent_step) (rule silent_refl)
  next
    case (Some query)
    from h have q: "scrape_result itoa (sh_store sh) [] (query_pairs query) = Some r" "s = sh_store sh"
      by (auto simp: http_handle_scrape [OF Some] http_scrape_def scrape_result_def)
    have "silent ?step Quiet (sh, Serving a) (sh, Responded a r)"
      by (rule silent_step, rule s_scrape [OF Some], rule silent_rounds [OF q(1)])
    with q(2) show ?thesis by simp
  qed
  then have "silent ?step Quiet (sh, Asked peer target) (sh\<lparr>sh_store := s\<rparr>, Responded a r)"
    unfolding a_def by - (rule silent_step, rule s_ask)
  then have "silent ?step Quiet (sh, Asked peer target) (sh', Answering rp)"
    unfolding e by (rule silent_trans) (rule silent_step, rule s_count, rule silent_refl)
  then obtain n where "run ?step (sh, Asked peer target) (replicate n Quiet) (sh', Answering rp)"
    unfolding silent_def by blast
  from run_trans [OF this, of "[Answer rp]"] run_one [where step = ?step, OF s_answer] show ?thesis by blast
qed

end
