(* ===== verification/Workers.thy ===== *)
theory Workers
  imports Requests L7_Halves
begin

text \<open>
  The UDP workers of crates/bluefrog/src/main.rs at the grain of the shared accesses. A worker holds
  the lock of a store shard for one announce or for one hash of a scrape, that of a client shard
  for the first half of a detector handler and that of the offender registry for the second half;
  each counter is one atomic. Between any two of these accesses every other worker, every request,
  the clock, the sweep and the ban jobs may run. \<open>Daemon\<close> takes a datagram in one step; here it is
  a process.
\<close>

section \<open>The state of a worker\<close>

text \<open>What \<open>recv_from\<close> delivered and what the worker fixed at once: the canonical source, the bytes
  read, the clock and the advertised interval.\<close>

record received =
  rq_peer :: ip_addr
  rq_ip :: ip_addr
  rq_buf :: bytes
  rq_now :: u64
  rq_interval :: u32

definition receive :: "shared \<Rightarrow> ip_addr \<Rightarrow> bytes \<Rightarrow> u32 \<Rightarrow> received" where
  "receive sh peer datagram rnd =
     \<lparr>rq_peer = peer, rq_ip = canonical_ip peer, rq_buf = take UDP_BUF datagram,
      rq_now = sh_clock sh, rq_interval = 1620 + rnd\<rparr>"

text \<open>What is left to do about a verdict.\<close>

datatype reaction = Count counter | Spawn ban_job

definition verdict_effects :: "config \<Rightarrow> ip_addr \<Rightarrow> verdict \<Rightarrow> reaction list" where
  "verdict_effects cfg ip v =
     (case v of
        Allow \<Rightarrow> []
      | Ban duration tier \<Rightarrow>
          [Count L7Ban] @ (if tier > 0 then [Count L7BanEscalated] else []) @
          (if cf_nft_enable cfg
           then [Spawn \<lparr>job_ip = ip, job_tier = unat tier, job_duration = duration\<rparr>] else []))"

fun perform :: "reaction \<Rightarrow> shared \<Rightarrow> shared" where
  "perform (Count c) sh = sh\<lparr>sh_metrics := inc c (sh_metrics sh)\<rparr>"
| "perform (Spawn j) sh = sh\<lparr>sh_jobs := sh_jobs sh @ [j]\<rparr>"

text \<open>Where a worker is in its loop; \<open>bytes\<close> is its output vector.\<close>

datatype phase =
    Idle bytes
  | Received received bytes
  | Scraping received scrape_req "(u32 \<times> u32 \<times> u32) list" "info_hash list" bytes
  | Handled received bytes action
  | Counted received bytes action
  | Judged received bytes action bool
  | Enforcing received bytes action "reaction list"

datatype worker_event = Recv ip_addr bytes | Tau | Send ip_addr bytes

section \<open>Steps of a worker\<close>

text \<open>The scrape that a datagram is, when its connection id is valid.\<close>

definition valid_scrape :: "mac \<Rightarrow> connid \<Rightarrow> received \<Rightarrow> scrape_req option" where
  "valid_scrape mac ci rq =
     (case parse (rq_buf rq) of
        Some (Inr (Scrape q)) \<Rightarrow>
          if validate mac ci (sc_connection_id q) (ip_to_16 (rq_ip rq)) (rq_now rq) then Some q else None
      | _ \<Rightarrow> None)"

inductive micro :: "mac \<Rightarrow> shared \<times> phase \<Rightarrow> worker_event \<Rightarrow> shared \<times> phase \<Rightarrow> bool" for mac where
  m_recv: "ip_ok peer \<Longrightarrow>
    micro mac (sh, Idle out) (Recv peer dg) (sh, Received (receive sh peer dg rnd) out)"
| m_handle: "valid_scrape mac (sh_connid sh) rq = None \<Longrightarrow> iteration_order op \<Longrightarrow>
    udp_handle mac (sh_connid sh) op (sh_store sh) (rq_buf rq) (ip_to_16 (rq_ip rq)) (is_ipv4 (rq_ip rq))
      (rq_now rq) (rq_interval rq) out = Some (s, out', act) \<Longrightarrow>
    micro mac (sh, Received rq out) Tau (sh\<lparr>sh_store := s\<rparr>, Handled rq out' act)"
| m_scrape: "valid_scrape mac (sh_connid sh) rq = Some q \<Longrightarrow> iter_hashes q = Some hs \<Longrightarrow>
    micro mac (sh, Received rq out) Tau (sh, Scraping rq q [] hs out)"
| m_entry: "scrape_entry (sh_store sh) h = Some e \<Longrightarrow>
    micro mac (sh, Scraping rq q es (h # hs) out) Tau (sh, Scraping rq q (es @ [e]) hs out)"
| m_written: "write_scrape (replicate (8 + length es * 12) 0) (sc_transaction_id q) es = Some (out', n) \<Longrightarrow>
    micro mac (sh, Scraping rq q es [] out) Tau (sh, Handled rq out' (Reply n))"
| m_count: "parse (rq_buf rq) = Some parsed \<Longrightarrow>
    micro mac (sh, Handled rq out act) Tau
      (sh\<lparr>sh_metrics := record_udp_metric (sh_metrics sh) parsed act\<rparr>, Counted rq out act)"
| m_quiet: "parse (rq_buf rq) = Some parsed \<Longrightarrow>
    \<not> cf_l7_enable (sh_config sh) \<or> feed_event parsed (rq_ip rq) act out = None \<Longrightarrow>
    micro mac (sh, Counted rq out act) Tau (sh, Enforcing rq out act [])"
| m_client: "parse (rq_buf rq) = Some parsed \<Longrightarrow> cf_l7_enable (sh_config sh) \<Longrightarrow>
    feed_event parsed (rq_ip rq) act out = Some ev \<Longrightarrow> iteration_order oc \<Longrightarrow>
    l7_client oc (sh_detector sh) (ip_to_16 (rq_ip rq)) (to_u32_sat (rq_now rq)) ev = Some (d, b) \<Longrightarrow>
    micro mac (sh, Counted rq out act) Tau (sh\<lparr>sh_detector := d\<rparr>, Judged rq out act b)"
| m_decide: "iteration_order oo \<Longrightarrow>
    decide oo (sh_detector sh) (ip_to_16 (rq_ip rq)) b (to_u32_sat (rq_now rq)) = (d, v) \<Longrightarrow>
    micro mac (sh, Judged rq out act b) Tau
      (sh\<lparr>sh_detector := d\<rparr>, Enforcing rq out act (verdict_effects (sh_config sh) (rq_ip rq) v))"
| m_effect: "micro mac (sh, Enforcing rq out act (e # es)) Tau (perform e sh, Enforcing rq out act es)"
| m_send: "slice out 0 n = Some b \<Longrightarrow>
    micro mac (sh, Enforcing rq out (Reply n) []) (Send (rq_peer rq) b) (sh, Idle out)"
| m_silent: "\<forall>n. act \<noteq> Reply n \<Longrightarrow> micro mac (sh, Enforcing rq out act []) Tau (sh, Idle out)"

inductive_cases microE: "micro mac st ev st'"

section \<open>The system\<close>

record system =
  sys_shared :: shared
  sys_workers :: "phase list"
  sys_requests :: "request_phase list"

datatype system_event =
    Work nat worker_event
  | Arrive ip_addr bytes
  | Ask nat request_event
  | Other daemon_event

inductive system_step ::
  "mac \<Rightarrow> (nft_element \<Rightarrow> bool) \<Rightarrow> itoa \<Rightarrow> (codes \<Rightarrow> bool) \<Rightarrow> system \<Rightarrow> system_event \<Rightarrow> system \<Rightarrow> bool"
  for mac netlink itoa header_ok where
  sys_work: "i < length (sys_workers st) \<Longrightarrow>
    micro mac (sys_shared st, sys_workers st ! i) ev (sh', w') \<Longrightarrow>
    system_step mac netlink itoa header_ok st (Work i ev)
      (st\<lparr>sys_shared := sh', sys_workers := (sys_workers st)[i := w']\<rparr>)"
| sys_arrive: "ip_ok peer \<Longrightarrow>
    system_step mac netlink itoa header_ok st (Arrive peer target)
      (st\<lparr>sys_requests := sys_requests st @ [Asked peer target]\<rparr>)"
| sys_ask: "j < length (sys_requests st) \<Longrightarrow>
    serve itoa header_ok (sys_shared st, sys_requests st ! j) ev (sh', q') \<Longrightarrow>
    system_step mac netlink itoa header_ok st (Ask j ev)
      (st\<lparr>sys_shared := sh', sys_requests := (sys_requests st)[j := q']\<rparr>)"
| sys_other: "daemon_step mac netlink (sys_shared st) ev sh' \<Longrightarrow>
    \<forall>peer dg. ev \<noteq> UdpIn peer dg \<and> ev \<noteq> HttpIn peer dg \<Longrightarrow>
    system_step mac netlink itoa header_ok st (Other ev) (st\<lparr>sys_shared := sh'\<rparr>)"

inductive_cases system_stepE: "system_step mac netlink itoa header_ok st ev st'"

definition system_init :: "config \<Rightarrow> bytes \<Rightarrow> system \<Rightarrow> bool" where
  "system_init cfg key st \<longleftrightarrow>
     (\<exists>now n. st = \<lparr>sys_shared = build_shared cfg key now, sys_workers = replicate n (Idle []), sys_requests = []\<rparr>)"

abbreviation system_reach :: "mac \<Rightarrow> (nft_element \<Rightarrow> bool) \<Rightarrow> itoa \<Rightarrow> (codes \<Rightarrow> bool) \<Rightarrow> config \<Rightarrow> bytes \<Rightarrow> system \<Rightarrow> bool" where
  "system_reach mac netlink itoa header_ok cfg key \<equiv>
     reach (system_init cfg key) (system_step mac netlink itoa header_ok)"

end
