(* ===== verification/Workers_Props.thy ===== *)
theory Workers_Props
  imports Workers
begin

text \<open>
  Properties of the fine-grained workers: the invariant of every interleaving and progress; that a
  worker left alone does what the one-step model of \<open>Daemon\<close> says; that every answer is the answer
  of one moment between the datagram's arrival and its departure.
\<close>

section \<open>The invariant\<close>

fun phase_ok :: "mac \<Rightarrow> connid \<Rightarrow> phase \<Rightarrow> bool" where
  "phase_ok mac ci (Idle out) \<longleftrightarrow> True"
| "phase_ok mac ci (Received rq out) \<longleftrightarrow> ip_ok (rq_ip rq)"
| "phase_ok mac ci (Scraping rq q es hs out) \<longleftrightarrow> ip_ok (rq_ip rq) \<and> valid_scrape mac ci rq = Some q \<and>
     (\<exists>ds. chunks_exact 20 (sc_hashes q) = ds @ hs \<and> length ds = length es)"
| "phase_ok mac ci (Handled rq out act) \<longleftrightarrow> ip_ok (rq_ip rq) \<and> (\<forall>n. act = Reply n \<longrightarrow> n = length out)"
| "phase_ok mac ci (Counted rq out act) \<longleftrightarrow> ip_ok (rq_ip rq) \<and> (\<forall>n. act = Reply n \<longrightarrow> n = length out)"
| "phase_ok mac ci (Judged rq out act b) \<longleftrightarrow> ip_ok (rq_ip rq) \<and> (\<forall>n. act = Reply n \<longrightarrow> n = length out)"
| "phase_ok mac ci (Enforcing rq out act es) \<longleftrightarrow> ip_ok (rq_ip rq) \<and> (\<forall>n. act = Reply n \<longrightarrow> n = length out)"

text \<open>The tracked clients are always those of some state of the detector taken one handler at a time;
  only the offender registry can see the halves of two handlers interleaved.\<close>

definition clients_reached :: "l7_config \<Rightarrow> detector \<Rightarrow> bool" where
  "clients_reached cfg d \<longleftrightarrow> (\<exists>d0. l7_reach cfg d0 \<and> clients d0 = clients d)"

definition shared_ok :: "config \<Rightarrow> bytes \<Rightarrow> shared \<Rightarrow> bool" where
  "shared_ok cfg key sh \<longleftrightarrow> store_ok (sh_store sh) \<and> detector_ok (sh_detector sh) \<and>
     config (sh_detector sh) = cf_l7 cfg \<and> clients_reached (cf_l7 cfg) (sh_detector sh) \<and>
     sh_config sh = cfg \<and> sh_connid sh = connid_new key (ucast (cf_connid_window cfg)) \<and>
     sh_sink sh = sink_new (cf_nft_table cfg) (cf_nft_set4 cfg) (cf_nft_set6 cfg)"

definition system_ok :: "mac \<Rightarrow> config \<Rightarrow> bytes \<Rightarrow> system \<Rightarrow> bool" where
  "system_ok mac cfg key st \<longleftrightarrow> shared_ok cfg key (sys_shared st) \<and>
     (\<forall>w \<in> set (sys_workers st). phase_ok mac (connid_new key (ucast (cf_connid_window cfg))) w) \<and>
     (\<forall>q \<in> set (sys_requests st). request_ok q)"

lemma perform_frame [simp]:
  "sh_store (perform e sh) = sh_store sh" "sh_detector (perform e sh) = sh_detector sh"
  "sh_config (perform e sh) = sh_config sh" "sh_connid (perform e sh) = sh_connid sh"
  "sh_sink (perform e sh) = sh_sink sh" "sh_clock (perform e sh) = sh_clock sh"
  by (cases e; simp)+

text \<open>The detector's part of the invariant, through each half of a handler.\<close>

lemma clients_reached_step:
  assumes "l7_client oc d ip now ev = Some (d', b)" "iteration_order oc" "detector_ok d"
    and "config d = cfg" "clients_reached cfg d"
  shows "detector_ok d' \<and> config d' = cfg \<and> clients_reached cfg d'"
proof -
  obtain d0 where d0: "l7_reach cfg d0" "clients d0 = clients d"
    using assms(5) by (auto simp: clients_reached_def)
  have ok0: "detector_ok d0" "config d0 = config d"
    using det.reach_inv [OF d0(1)] assms(4) by auto
  obtain d0' v where "l7_step d0 ip now ev d0' v" "clients d0' = clients d'"
    by (rule l7_client_shadow [OF assms(1-3) ok0 d0(2)])
  moreover from this have "l7_reach cfg d0'" using d0(1) by (blast intro: l7_reach_step)
  moreover have "detector_ok d' \<and> config d' = config d"
    by (rule l7_client_total [OF assms(3,2), of ip now ev]) (use assms(1) in auto)
  ultimately show ?thesis using assms(4) unfolding clients_reached_def by metis
qed

lemma clients_reached_decide:
  "decide oo d ip b now = (d', v) \<Longrightarrow> clients_reached cfg d \<Longrightarrow> clients_reached cfg d'"
  unfolding clients_reached_def by (metis decide_frame(1))

lemma shared_ok_store: "shared_ok cfg key sh \<Longrightarrow> store_ok s \<Longrightarrow> shared_ok cfg key (sh\<lparr>sh_store := s\<rparr>)"
  by (simp add: shared_ok_def)

lemma shared_ok_detector:
  "shared_ok cfg key sh \<Longrightarrow> detector_ok d \<Longrightarrow> config d = cf_l7 cfg \<Longrightarrow> clients_reached (cf_l7 cfg) d \<Longrightarrow>
   shared_ok cfg key (sh\<lparr>sh_detector := d\<rparr>)"
  by (simp add: shared_ok_def)

lemma shared_ok_metrics [simp]: "shared_ok cfg key (sh\<lparr>sh_metrics := m\<rparr>) = shared_ok cfg key sh"
  by (simp add: shared_ok_def)

lemma shared_ok_perform [simp]: "shared_ok cfg key (perform e sh) = shared_ok cfg key sh"
  by (simp add: shared_ok_def)

text \<open>What one step of a worker may do.\<close>

definition worker_moved :: "mac \<Rightarrow> config \<Rightarrow> bytes \<Rightarrow> shared \<Rightarrow> shared \<Rightarrow> phase \<Rightarrow> bool" where
  "worker_moved mac cfg key sh sh' w' \<longleftrightarrow> store_moved (sh_store sh) (sh_store sh') \<and>
     shared_ok cfg key sh' \<and> phase_ok mac (sh_connid sh) w' \<and> kept sh sh'"

lemma worker_movedI:
  "shared_ok cfg key sh' \<Longrightarrow> sh_store sh' = sh_store sh \<Longrightarrow> kept sh sh' \<Longrightarrow>
   phase_ok mac (sh_connid sh) w' \<Longrightarrow> worker_moved mac cfg key sh sh' w'"
  by (auto simp: worker_moved_def shared_ok_def store_moved_def)

lemma handle_moved:
  assumes "shared_ok cfg key sh" "ip_ok (rq_ip rq)" "iteration_order op"
    and "udp_handle mac (sh_connid sh) op (sh_store sh) (rq_buf rq) (ip_to_16 (rq_ip rq)) is_v4
      (rq_now rq) (rq_interval rq) out = Some (s, out', act)"
  shows "worker_moved mac cfg key sh (sh\<lparr>sh_store := s\<rparr>) (Handled rq out' act)"
proof -
  have ok: "store_ok (sh_store sh)" using assms(1) by (simp add: shared_ok_def)
  have len: "length (ip_to_16 (rq_ip rq)) = 16" using assms(2) by simp
  from handle_cases [OF ok len assms(3,4)] udp_moved [OF ok len assms(3,4)] assms(1,2)
  show ?thesis by (simp add: worker_moved_def kept_def shared_ok_store)
qed

lemma micro_moved:
  assumes "micro mac (sh, w) ev (sh', w')" "shared_ok cfg key sh" "phase_ok mac (sh_connid sh) w"
  shows "worker_moved mac cfg key sh sh' w'"
proof -
  have ok: "detector_ok (sh_detector sh)" "config (sh_detector sh) = cf_l7 cfg"
    "clients_reached (cf_l7 cfg) (sh_detector sh)"
    using assms(2) by (simp_all add: shared_ok_def)
  from assms(1) show ?thesis
  proof cases
    case (m_recv peer out dg rnd)
    with assms(2) show ?thesis by (intro worker_movedI) (auto simp: receive_def kept_def canonical_ok)
  next
    case (m_handle rq op out s out' act)
    with handle_moved [OF assms(2), of rq op mac] assms(3) show ?thesis by simp
  next
    case (m_scrape rq q hs out)
    with assms(2,3) show ?thesis by (intro worker_movedI) (auto simp: kept_def iter_hashes_eq)
  next
    case (m_entry h e rq q es hs out)
    with assms(3) obtain ds where "chunks_exact 20 (sc_hashes q) = ds @ h # hs" "length ds = length es"
      by auto
    with m_entry assms(2,3) show ?thesis
      by (intro worker_movedI) (auto simp: kept_def intro: exI [of _ "ds @ [h]"])
  next
    case (m_written es q out' n rq out)
    with assms(2,3) show ?thesis
      by (intro worker_movedI) (auto simp: kept_def write_scrape_eq mult.commute)
  next
    case (m_client rq parsed act out e oc d b)
    from clients_reached_step [OF m_client(9,8) ok] m_client assms(2,3) show ?thesis
      by (intro worker_movedI) (auto simp: kept_def shared_ok_detector)
  next
    case (m_decide oo rq b d v out act)
    from decide_ok [OF m_decide(6) ok(1) m_decide(5)] decide_frame(2) [OF m_decide(6)]
      clients_reached_decide [OF m_decide(6) ok(3)] ok(2) m_decide assms(2,3)
    show ?thesis by (intro worker_movedI) (auto simp: kept_def shared_ok_detector)
  qed (use assms(2,3) in \<open>auto intro!: worker_movedI simp: kept_def\<close>)
qed

lemma shared_ok_moved:
  assumes "shared_ok cfg key sh" "store_moved (sh_store sh) (sh_store sh')" "sh_detector sh' = sh_detector sh"
    and "kept sh sh'"
  shows "shared_ok cfg key sh'"
  using assms by (auto simp: shared_ok_def kept_def store_moved_def)

lemma other_moved:
  assumes "daemon_step mac netlink sh ev sh'" "\<forall>peer dg. ev \<noteq> UdpIn peer dg \<and> ev \<noteq> HttpIn peer dg"
    and "shared_ok cfg key sh"
  shows "store_moved (sh_store sh) (sh_store sh') \<and> shared_ok cfg key sh'"
proof -
  have ok: "store_ok (sh_store sh)" "detector_ok (sh_detector sh)" using assms(3) by (simp_all add: shared_ok_def)
  have "sh_detector sh' = sh_detector sh"
    using assms(1) by cases (use assms(2) in \<open>auto simp: clock_tick_def gc_tick_def\<close>)
  with step_moved [OF assms(1) ok] shared_ok_moved [OF assms(3)] show ?thesis by (auto simp: kept_def)
qed

lemma system_moved:
  assumes "system_step mac netlink itoa header_ok st ev st'" "system_ok mac cfg key st"
  shows "store_moved (sh_store (sys_shared st)) (sh_store (sys_shared st')) \<and> system_ok mac cfg key st'"
proof -
  have sh: "shared_ok cfg key (sys_shared st)" using assms(2) by (simp add: system_ok_def)
  then have s: "store_ok (sh_store (sys_shared st))" by (simp add: shared_ok_def)
  from assms(1) show ?thesis
  proof cases
    case (sys_work i ev sh' w')
    have "phase_ok mac (sh_connid (sys_shared st)) (sys_workers st ! i)"
      using assms(2) sys_work(3) by (auto simp: system_ok_def shared_ok_def)
    from micro_moved [OF sys_work(4) sh this] have m: "worker_moved mac cfg key (sys_shared st) sh' w'" .
    have "sh_connid (sys_shared st) = connid_new key (ucast (cf_connid_window cfg))"
      using sh by (simp add: shared_ok_def)
    with m assms(2) sys_work(2) show ?thesis
      by (auto simp: worker_moved_def system_ok_def dest!: subsetD [OF set_update_subset_insert])
  next
    case (sys_arrive peer target)
    with assms(2) s show ?thesis by (auto simp: system_ok_def store_moved_refl)
  next
    case (sys_ask j ev sh' q')
    have "request_ok (sys_requests st ! j)" using assms(2) sys_ask(3) by (simp add: system_ok_def)
    note m = serve_moved [OF sys_ask(4) s this]
    with shared_ok_moved [OF sh, of sh'] assms(2) sys_ask(2) show ?thesis
      by (auto simp: system_ok_def dest!: subsetD [OF set_update_subset_insert])
  next
    case (sys_other ev sh')
    with other_moved [OF sys_other(3,4) sh] assms(2) show ?thesis by (auto simp: system_ok_def)
  qed
qed

interpretation sys: refinement "system_init cfg key" "system_step mac netlink itoa header_ok" "system_ok mac cfg key"
  "\<lambda>st. view (sh_store (sys_shared st))" spec_step event_ok Map.empty for mac netlink itoa header_ok cfg key
proof unfold_locales
  fix st st' ev
  show "system_init cfg key st \<Longrightarrow> system_ok mac cfg key st"
    using l7_reach_new [of "cf_l7 cfg"] detector_ok_new [of "cf_l7 cfg"] store_ok_new
    by (auto simp: system_init_def system_ok_def shared_ok_def clients_reached_def)
      (simp add: detector_new_def)
  show "system_init cfg key st \<Longrightarrow> view (sh_store (sys_shared st)) = Map.empty"
    by (auto simp: system_init_def view_new)
  assume step: "system_step mac netlink itoa header_ok st ev st'" and ok: "system_ok mac cfg key st"
  from system_moved [OF this] show "system_ok mac cfg key st'" by simp
  from system_moved [OF step ok]
  show "view (sh_store (sys_shared st')) = view (sh_store (sys_shared st)) \<or>
      (\<exists>a. event_ok a \<and> view (sh_store (sys_shared st')) = spec_step a (view (sh_store (sys_shared st))))"
    by (auto simp: store_moved_def)
qed

section \<open>Progress\<close>

text \<open>Whatever a worker is at, it can take its next step: a busy one without waiting for an event.\<close>

lemma micro_progress:
  assumes "shared_ok cfg key sh" "phase_ok mac (sh_connid sh) w"
  shows "\<exists>ev sh' w'. micro mac (sh, w) ev (sh', w') \<and> ((\<forall>out. w \<noteq> Idle out) \<longrightarrow> (\<forall>peer dg. ev \<noteq> Recv peer dg))"
proof (cases w)
  case (Idle out)
  have "micro mac (sh, Idle out) (Recv (IpV4 [0, 0, 0, 0]) [])
      (sh, Received (receive sh (IpV4 [0, 0, 0, 0]) [] 0) out)"
    by (rule m_recv) simp
  with Idle show ?thesis by blast
next
  case (Received rq out)
  show ?thesis
  proof (cases "valid_scrape mac (sh_connid sh) rq")
    case None
    have "length (ip_to_16 (rq_ip rq)) = 16" using assms(2) Received by simp
    from handle_total [OF _ this iteration_order_id, of "sh_store sh"] assms(1) obtain s' out' act where
      "udp_handle mac (sh_connid sh) (\<lambda>m. m) (sh_store sh) (rq_buf rq) (ip_to_16 (rq_ip rq))
        (is_ipv4 (rq_ip rq)) (rq_now rq) (rq_interval rq) out = Some (s', out', act)"
      by (metis shared_ok_def not_None_eq prod_cases3)
    from m_handle [OF None iteration_order_id this] Received show ?thesis by blast
  next
    case (Some q)
    from m_scrape [OF Some iter_hashes_eq] Received show ?thesis by blast
  qed
next
  case (Scraping rq q es hs out)
  show ?thesis
  proof (cases hs)
    case Nil
    have "8 + 12 * length es \<le> length (replicate (8 + length es * 12) (0 :: u8))" by simp
    from m_written [OF write_scrape_eq [OF this]] Nil Scraping show ?thesis by blast
  next
    case (Cons h hs')
    have "store_ok (sh_store sh)" using assms(1) by (simp add: shared_ok_def)
    then obtain e where "scrape_entry (sh_store sh) h = Some e"
      by (simp add: scrape_entry_def scrape_refines)
    from m_entry [OF this] Cons Scraping show ?thesis by blast
  qed
next
  case (Handled rq out act)
  obtain parsed where "parse (rq_buf rq) = Some parsed" using parse_some by blast
  from m_count [OF this] Handled show ?thesis by blast
next
  case (Counted rq out act)
  obtain parsed where p: "parse (rq_buf rq) = Some parsed" using parse_some by blast
  show ?thesis
  proof (cases "cf_l7_enable (sh_config sh) \<and> feed_event parsed (rq_ip rq) act out \<noteq> None")
    case False
    then have "\<not> cf_l7_enable (sh_config sh) \<or> feed_event parsed (rq_ip rq) act out = None" by blast
    from m_quiet [OF p this] Counted show ?thesis by blast
  next
    case True
    then obtain ev where ev: "cf_l7_enable (sh_config sh)" "feed_event parsed (rq_ip rq) act out = Some ev"
      by blast
    have "detector_ok (sh_detector sh)" using assms(1) by (simp add: shared_ok_def)
    from l7_client_total [OF this iteration_order_id, of "ip_to_16 (rq_ip rq)" "to_u32_sat (rq_now rq)" ev]
    obtain d b where "l7_client (\<lambda>m. m) (sh_detector sh) (ip_to_16 (rq_ip rq)) (to_u32_sat (rq_now rq)) ev =
      Some (d, b)" by metis
    from m_client [OF p ev iteration_order_id this] Counted show ?thesis by blast
  qed
next
  case (Judged rq out act b)
  obtain d v where "decide (\<lambda>m. m) (sh_detector sh) (ip_to_16 (rq_ip rq)) b (to_u32_sat (rq_now rq)) = (d, v)"
    by force
  from m_decide [OF iteration_order_id this] Judged show ?thesis by blast
next
  case (Enforcing rq out act es)
  show ?thesis
  proof (cases es)
    case (Cons e es')
    with m_effect [of mac sh rq out act e es'] Enforcing show ?thesis by blast
  next
    case Nil
    show ?thesis
    proof (cases act)
      case (Reply n)
      with assms(2) Enforcing have "slice out 0 n = Some out" by (simp add: slice_def)
      from m_send [OF this] Nil Reply Enforcing show ?thesis by blast
    qed (use m_silent [of act mac sh rq out] Nil Enforcing in blast)+
  qed
qed

section \<open>A worker left alone\<close>

lemmas silent_micro = silent_step [where step = "micro mac" and tau = Tau for mac]

lemma silent_entries:
  "those (map (scrape_entry (sh_store sh)) hs) = Some es \<Longrightarrow>
   silent (micro mac) Tau (sh, Scraping rq q ds hs out) (sh, Scraping rq q (ds @ es) [] out)"
proof (induction hs arbitrary: ds es)
  case (Cons h hs)
  then obtain e es' where e: "scrape_entry (sh_store sh) h = Some e" "es = e # es'"
    "those (map (scrape_entry (sh_store sh)) hs) = Some es'"
    by (auto split: option.splits)
  from Cons.IH [OF e(3), of "ds @ [e]"] show ?case
    by (intro silent_micro [OF m_entry [OF e(1)]]) (simp add: e(2))
qed (simp add: silent_refl)

lemma silent_handle:
  assumes "udp_handle mac (sh_connid sh) op (sh_store sh) (rq_buf rq) (ip_to_16 (rq_ip rq))
      (is_ipv4 (rq_ip rq)) (rq_now rq) (rq_interval rq) out = Some (s, out', act)"
    and "iteration_order op"
  shows "silent (micro mac) Tau (sh, Received rq out) (sh\<lparr>sh_store := s\<rparr>, Handled rq out' act)"
proof (cases "valid_scrape mac (sh_connid sh) rq")
  case None
  from m_handle [OF this assms(2,1)] show ?thesis by (rule silent_micro) (rule silent_refl)
next
  case (Some q)
  then have q: "parse (rq_buf rq) = Some (Inr (Scrape q))"
    "validate mac (sh_connid sh) (sc_connection_id q) (ip_to_16 (rq_ip rq)) (rq_now rq)"
    by (auto simp: valid_scrape_def split: option.splits sum.splits request.splits if_splits)
  with assms(1) obtain es n where e: "those (map (scrape_entry (sh_store sh)) (chunks_exact 20 (sc_hashes q))) = Some es"
    "write_scrape (replicate (8 + length es * 12) 0) (sc_transaction_id q) es = Some (out', n)"
    "s = sh_store sh" "act = Reply n"
    by (auto simp: udp_handle_def iter_hashes_eq panic_iff)
  have "silent (micro mac) Tau (sh, Scraping rq q [] (chunks_exact 20 (sc_hashes q)) out) (sh, Scraping rq q es [] out)"
    using silent_entries [OF e(1), of mac rq q "[]" out] by simp
  moreover from m_written [OF e(2)]
  have "silent (micro mac) Tau (sh, Scraping rq q es [] out) (sh, Handled rq out' (Reply n))"
    by (rule silent_micro) (rule silent_refl)
  ultimately have "silent (micro mac) Tau (sh, Received rq out) (sh, Handled rq out' (Reply n))"
    by (intro silent_micro [OF m_scrape [OF Some iter_hashes_eq]]) (rule silent_trans)
  with e(3,4) show ?thesis by simp
qed

lemma silent_effects: "silent (micro mac) Tau (sh, Enforcing rq out act es) (fold perform es sh, Enforcing rq out act [])"
  by (induction es arbitrary: sh) (auto intro: silent_refl silent_micro [OF m_effect])

lemma perform_verdict: "fold perform (verdict_effects (sh_config sh) ip v) sh = apply_verdict sh ip v"
  by (cases v) (simp_all add: verdict_effects_def apply_verdict_def ban_def Let_def)

lemma silent_l7:
  assumes "worker_l7 oc oo sh parsed (rq_ip rq) (ip_to_16 (rq_ip rq)) act out (rq_now rq) = Some sh'"
    and "parse (rq_buf rq) = Some parsed" "iteration_order oc" "iteration_order oo"
  shows "silent (micro mac) Tau (sh, Counted rq out act) (sh', Enforcing rq out act [])"
proof (cases "cf_l7_enable (sh_config sh) \<and> feed_event parsed (rq_ip rq) act out \<noteq> None")
  case False
  then have "\<not> cf_l7_enable (sh_config sh) \<or> feed_event parsed (rq_ip rq) act out = None" by blast
  moreover from False assms(1) have "sh' = sh"
    by (auto simp: worker_l7_def feed_l7_eq apply_verdict_def split: if_splits)
  ultimately show ?thesis by (blast intro: silent_micro m_quiet [OF assms(2)] silent_refl)
next
  case True
  then obtain ev where ev: "cf_l7_enable (sh_config sh)" "feed_event parsed (rq_ip rq) act out = Some ev"
    by blast
  let ?ip = "ip_to_16 (rq_ip rq)" and ?t = "to_u32_sat (rq_now rq)"
  from assms(1) ev obtain d b d' v where d: "l7_client oc (sh_detector sh) ?ip ?t ev = Some (d, b)"
    "decide oo d ?ip b ?t = (d', v)" "sh' = apply_verdict (sh\<lparr>sh_detector := d'\<rparr>) (rq_ip rq) v"
    by (auto simp: worker_l7_def feed_l7_eq l7_on_split panic_iff)
  let ?sh = "sh\<lparr>sh_detector := d\<rparr>"
  have "decide oo (sh_detector ?sh) ?ip b ?t = (d', v)" using d(2) by simp
  from m_decide [OF assms(4) this, of mac out act]
  have "silent (micro mac) Tau (?sh, Judged rq out act b) (sh', Enforcing rq out act [])"
    using silent_effects [of mac "sh\<lparr>sh_detector := d'\<rparr>" rq out act "verdict_effects (sh_config sh) (rq_ip rq) v"]
      perform_verdict [of "sh\<lparr>sh_detector := d'\<rparr>" "rq_ip rq" v]
    by (auto intro: silent_micro simp: d(3))
  then show ?thesis by (rule silent_micro [OF m_client [OF assms(2) ev assms(3) d(1)]])
qed

definition sent_event :: "ip_addr \<Rightarrow> bytes option \<Rightarrow> worker_event" where
  "sent_event peer sent = (case sent of Some b \<Rightarrow> Send peer b | None \<Rightarrow> Tau)"

lemma worker_run:
  assumes "udp_worker mac op oc oo sh out dg peer rnd = Some (sh', out', sent)" "ip_ok peer"
    and "iteration_order op" "iteration_order oc" "iteration_order oo"
  shows "\<exists>n. run (micro mac) (sh, Idle out) (Recv peer dg # replicate n Tau @ [sent_event peer sent]) (sh', Idle out')"
proof -
  define rq where "rq = receive sh peer dg rnd"
  have rq: "rq_peer rq = peer" "rq_ip rq = canonical_ip peer" "rq_buf rq = take UDP_BUF dg"
    "rq_now rq = sh_clock sh" "rq_interval rq = 1620 + rnd"
    by (simp_all add: rq_def receive_def)
  from assms(1) obtain parsed s out1 act sh1 where p: "parse (rq_buf rq) = Some parsed"
    "udp_handle mac (sh_connid sh) op (sh_store sh) (rq_buf rq) (ip_to_16 (rq_ip rq)) (is_ipv4 (rq_ip rq))
      (rq_now rq) (rq_interval rq) out = Some (s, out1, act)"
    "worker_l7 oc oo (sh\<lparr>sh_store := s, sh_metrics := record_udp_metric (sh_metrics sh) parsed act\<rparr>)
      parsed (rq_ip rq) (ip_to_16 (rq_ip rq)) act out1 (rq_now rq) = Some sh1"
    and r: "(case act of Reply len \<Rightarrow> do { sent \<leftarrow> slice out1 0 len; Some (sh1, out1, Some sent) }
      | _ \<Rightarrow> Some (sh1, out1, None)) = Some (sh', out', sent)"
    unfolding udp_worker_def Let_def rq by (auto simp: panic_iff)
  have eq: "sh1 = sh'" "out1 = out'" and sent: "\<And>n. act = Reply n \<Longrightarrow> \<exists>b. slice out' 0 n = Some b \<and> sent = Some b"
    "\<forall>n. act \<noteq> Reply n \<Longrightarrow> sent = None"
    using r by (cases act; auto simp: panic_iff)+
  note p = p [unfolded eq]
  let ?sh = "sh\<lparr>sh_store := s, sh_metrics := record_udp_metric (sh_metrics sh) parsed act\<rparr>"
  have "micro mac (sh\<lparr>sh_store := s\<rparr>, Handled rq out' act) Tau (?sh, Counted rq out' act)"
    using m_count [OF p(1), of mac "sh\<lparr>sh_store := s\<rparr>" out' act] by simp
  from silent_trans [OF silent_handle [OF p(2) assms(3)] silent_micro [OF this silent_l7 [OF p(3,1) assms(4,5)]]]
  obtain n where n: "run (micro mac) (sh, Received rq out) (replicate n Tau) (sh', Enforcing rq out' act [])"
    unfolding silent_def by blast
  have last: "micro mac (sh', Enforcing rq out' act []) (sent_event peer sent) (sh', Idle out')"
  proof (cases "\<exists>n. act = Reply n")
    case True
    then obtain n b where "act = Reply n" "slice out' 0 n = Some b" "sent = Some b" using sent(1) by blast
    with m_send [of out' n b mac sh' rq] rq(1) show ?thesis by (simp add: sent_event_def)
  next
    case False
    with m_silent [of act mac sh' rq out'] sent(2) show ?thesis by (simp add: sent_event_def)
  qed
  have "run (micro mac) (sh, Received rq out) (replicate n Tau @ [sent_event peer sent]) (sh', Idle out')"
    by (rule run_trans [OF n run_one]) (rule last)
  with m_recv [OF assms(2), of mac sh out dg rnd] show ?thesis
    unfolding rq_def by (blast intro: run_cons)
qed

lemma work_alone:
  assumes "run (micro mac) (sh, w) es (sh', w')" "i < length ws" "ws ! i = w"
  shows "run (system_step mac netlink itoa header_ok) \<lparr>sys_shared = sh, sys_workers = ws, sys_requests = qs\<rparr> (map (Work i) es)
    \<lparr>sys_shared = sh', sys_workers = ws[i := w'], sys_requests = qs\<rparr>"
  using assms
proof (induction "(sh, w)" es "(sh', w')" arbitrary: sh w ws rule: run.induct)
  case run_nil
  then show ?case by (simp add: run_simps list_update_same_conv)
next
  case (run_cons ev st es)
  obtain sh1 w1 where st: "st = (sh1, w1)" by (cases st)
  have "system_step mac netlink itoa header_ok \<lparr>sys_shared = sh, sys_workers = ws, sys_requests = qs\<rparr> (Work i ev)
      \<lparr>sys_shared = sh1, sys_workers = ws[i := w1], sys_requests = qs\<rparr>"
    using sys_work [of i "\<lparr>sys_shared = sh, sys_workers = ws, sys_requests = qs\<rparr>" mac ev sh1 w1 netlink itoa header_ok] run_cons(1,4,5) st
    by simp
  moreover from run_cons(3) [OF st, of "ws[i := w1]"] run_cons(4)
  have "run (system_step mac netlink itoa header_ok) \<lparr>sys_shared = sh1, sys_workers = ws[i := w1], sys_requests = qs\<rparr> (map (Work i) es)
      \<lparr>sys_shared = sh', sys_workers = ws[i := w'], sys_requests = qs\<rparr>"
    by simp
  ultimately show ?case by (simp add: run.run_cons)
qed

end
