(* ===== verification/Workers_Claims.thy ===== *)
theory Workers_Claims
  imports Workers_Props
begin

text \<open>
  The claims about the workers under interleaving: safety and progress, agreement with the one-step
  model, linearizable answers, and the bound on the steps a datagram takes.
\<close>

section \<open>Safety and progress\<close>

text \<open>C4. However the workers' accesses, those of the HTTP requests, the clock, the sweep and the ban
  jobs interleave, the store is well-formed and shows what the specification shows after some
  sequence of its events, the tracked clients are those of a detector that takes one handler at a
  time, every worker can take its next step and so can every request that is not yet answered.\<close>

theorem interleaving_safe:
  assumes "system_reach mac netlink itoa header_ok cfg key st"
  shows "store_ok (sh_store (sys_shared st)) \<and> tracks_spec (sh_store (sys_shared st)) \<and>
    clients_reached (cf_l7 cfg) (sh_detector (sys_shared st)) \<and>
    (\<forall>i < length (sys_workers st). \<exists>ev st'. system_step mac netlink itoa header_ok st (Work i ev) st') \<and>
    (\<forall>j < length (sys_requests st). sys_requests st ! j \<noteq> Closed \<longrightarrow>
      (\<exists>ev st'. system_step mac netlink itoa header_ok st (Ask j ev) st'))"
proof -
  have ok: "system_ok mac cfg key st" by (rule sys.reach_inv [OF assms])
  have sh: "shared_ok cfg key (sys_shared st)" using ok by (simp add: system_ok_def)
  have "\<exists>ev st'. system_step mac netlink itoa header_ok st (Work i ev) st'" if i: "i < length (sys_workers st)" for i
  proof -
    have "phase_ok mac (sh_connid (sys_shared st)) (sys_workers st ! i)"
      using ok i by (simp add: system_ok_def shared_ok_def)
    from micro_progress [OF sh this] sys_work [OF i, of mac] show ?thesis by blast
  qed
  moreover have "\<exists>ev st'. system_step mac netlink itoa header_ok st (Ask j ev) st'"
    if j: "j < length (sys_requests st)" and busy: "sys_requests st ! j \<noteq> Closed" for j
  proof -
    have "request_ok (sys_requests st ! j)" "store_ok (sh_store (sys_shared st))"
      using ok j by (simp_all add: system_ok_def shared_ok_def)
    from serve_progress [OF this(2,1) busy] sys_ask [OF j, of itoa] show ?thesis by blast
  qed
  ultimately show ?thesis using sh sys.reach_explained [OF assms]
    by (auto simp: shared_ok_def tracks_spec_def)
qed

lemma system_start:
  "system_reach mac netlink itoa header_ok cfg key \<lparr>sys_shared = build_shared cfg key now, sys_workers = replicate n (Idle []), sys_requests = []\<rparr>"
  by (rule reach_init) (auto simp: system_init_def)

theorem interleaving_safe_witness:
  "\<exists>ev st'. system_step (\<lambda>k m. m) (\<lambda>e. True) (\<lambda>v. []) (\<lambda>u. True)
     \<lparr>sys_shared = build_shared config_default [1] 90, sys_workers = [Idle [], Idle []], sys_requests = []\<rparr> (Work 1 ev) st'"
  using interleaving_safe [OF system_start [where n = 2 and now = 90 and cfg = config_default and key = "[1]"]]
  by (simp add: numeral_2_eq_2)

section \<open>The one-step model\<close>

text \<open>The one-step model of a datagram is the worker that nobody interrupts: whatever
  \<open>udp_worker\<close> computes, a free worker reaches in some run of its own steps, with the same shared
  state, output vector and bytes sent.\<close>

lemma worker_alone:
  assumes "udp_worker mac op oc oo sh out dg peer rnd = Some (sh', out', sent)" "ip_ok peer"
    and "iteration_order op" "iteration_order oc" "iteration_order oo"
    and "i < length ws" "ws ! i = Idle out"
  shows "\<exists>n. run (system_step mac netlink itoa header_ok) \<lparr>sys_shared = sh, sys_workers = ws, sys_requests = qs\<rparr>
    (map (Work i) (Recv peer dg # replicate n Tau @ [sent_event peer sent]))
    \<lparr>sys_shared = sh', sys_workers = ws[i := Idle out'], sys_requests = qs\<rparr>"
  using worker_run [OF assms(1-5)] work_alone [OF _ assms(6,7)] by blast

section \<open>Answers\<close>

text \<open>Worker \<open>i\<close>'s own step at which the store goes from \<open>s\<close> to \<open>s'\<close> with \<open>P s s'\<close>.\<close>

definition at_step :: "nat \<Rightarrow> (store \<Rightarrow> store \<Rightarrow> bool) \<Rightarrow> system \<Rightarrow> system_event \<Rightarrow> system \<Rightarrow> bool" where
  "at_step i P st e st' \<longleftrightarrow> e = Work i Tau \<and> P (sh_store (sys_shared st)) (sh_store (sys_shared st'))"

text \<open>What the bytes \<open>out\<close> answer: for a valid scrape, one entry per hash that the store showed at one
  of the worker's steps; for any other datagram, the handler's own result at one step, where the
  store made the handler's change.\<close>

definition answered ::
  "((store \<Rightarrow> store \<Rightarrow> bool) \<Rightarrow> bool) \<Rightarrow> mac \<Rightarrow> connid \<Rightarrow> received \<Rightarrow> bytes \<Rightarrow> action \<Rightarrow> bool" where
  "answered D mac ci rq out act \<longleftrightarrow>
     (case valid_scrape mac ci rq of
        Some q \<Rightarrow> \<exists>es. act = Reply (length out) \<and>
          out = u32_be 2 @ u32_be (sc_transaction_id q) @ scrape_body es \<and>
          list_all2 (\<lambda>h e. D (\<lambda>s s'. scrape_entry s h = Some e \<and> s' = s)) (chunks_exact 20 (sc_hashes q)) es
      | None \<Rightarrow> D (\<lambda>s s'. \<exists>op out0. iteration_order op \<and>
          udp_handle mac ci op s (rq_buf rq) (ip_to_16 (rq_ip rq)) (is_ipv4 (rq_ip rq)) (rq_now rq)
            (rq_interval rq) out0 = Some (s', out, act)))"

fun told :: "((store \<Rightarrow> store \<Rightarrow> bool) \<Rightarrow> bool) \<Rightarrow> mac \<Rightarrow> connid \<Rightarrow> received \<Rightarrow> phase \<Rightarrow> bool" where
  "told D mac ci rq (Idle out) \<longleftrightarrow> True"
| "told D mac ci rq (Received rq' out) \<longleftrightarrow> rq' = rq"
| "told D mac ci rq (Scraping rq' q es hs out) \<longleftrightarrow> rq' = rq \<and> valid_scrape mac ci rq = Some q \<and>
     (\<exists>ds. chunks_exact 20 (sc_hashes q) = ds @ hs \<and>
       list_all2 (\<lambda>h e. D (\<lambda>s s'. scrape_entry s h = Some e \<and> s' = s)) ds es)"
| "told D mac ci rq (Handled rq' out act) \<longleftrightarrow> rq' = rq \<and> answered D mac ci rq out act"
| "told D mac ci rq (Counted rq' out act) \<longleftrightarrow> rq' = rq \<and> answered D mac ci rq out act"
| "told D mac ci rq (Judged rq' out act b) \<longleftrightarrow> rq' = rq \<and> answered D mac ci rq out act"
| "told D mac ci rq (Enforcing rq' out act es) \<longleftrightarrow> rq' = rq \<and> answered D mac ci rq out act"

lemma list_all2_weaken: "list_all2 P xs ys \<Longrightarrow> (\<And>x y. P x y \<Longrightarrow> Q x y) \<Longrightarrow> list_all2 Q xs ys"
  by (rule list_all2_mono)

lemma answered_mono:
  "answered D mac ci rq out act \<Longrightarrow> (\<And>P. D P \<Longrightarrow> D' P) \<Longrightarrow> answered D' mac ci rq out act"
  unfolding answered_def
  by (auto split: option.splits intro: list_all2_mono)

lemma told_mono:
  assumes "told D mac ci rq w" "\<And>P. D P \<Longrightarrow> D' P"
  shows "told D' mac ci rq w"
  using assms answered_mono [of D mac ci rq _ _ D']
  by (cases w) (auto intro: list_all2_mono)

text \<open>The worker's own step.\<close>

lemma told_micro:
  assumes "micro mac (sh, w) ev (sh', w')" "\<forall>peer dg. ev \<noteq> Recv peer dg"
    and "told D mac (sh_connid sh) rq w" "\<And>P. D P \<Longrightarrow> D' P"
    and now: "\<And>P. ev = Tau \<Longrightarrow> P (sh_store sh) (sh_store sh') \<Longrightarrow> D' P"
  shows "told D' mac (sh_connid sh) rq w'"
proof -
  have t: "told D' mac (sh_connid sh) rq w" by (rule told_mono [OF assms(3,4)])
  from assms(1) show ?thesis
  proof cases
    case (m_handle rq' op out s out' act)
    with t have "rq' = rq" by simp
    with m_handle show ?thesis
      by (auto simp: answered_def intro!: now exI [of _ op] exI [of _ out])
  next
    case (m_scrape rq' q hs out)
    with t show ?thesis by (auto simp: iter_hashes_eq)
  next
    case (m_entry h e rq' q es hs out)
    with t obtain ds where "chunks_exact 20 (sc_hashes q) = ds @ h # hs" "rq' = rq"
      "valid_scrape mac (sh_connid sh) rq = Some q"
      "list_all2 (\<lambda>h e. D' (\<lambda>s s'. scrape_entry s h = Some e \<and> s' = s)) ds es" by auto
    moreover have "D' (\<lambda>s s'. scrape_entry s h = Some e \<and> s' = s)"
      by (rule now) (use m_entry in simp_all)
    ultimately show ?thesis using m_entry
      by (auto intro!: exI [of _ "ds @ [h]"] simp: list_all2_appendI)
  next
    case (m_written es q out' n rq' out)
    with t show ?thesis by (auto simp: answered_def write_scrape_eq mult.commute length_scrape_body)
  qed (use t assms(2) in auto)
qed

lemma told_run:
  assumes "run (system_step mac netlink itoa header_ok) st0 es st" "system_ok mac cfg key st0"
    and "i < length (sys_workers st0)" "\<forall>peer dg. Work i (Recv peer dg) \<notin> set es"
    and "sys_workers st0 ! i = Received rq out0"
  shows "length (sys_workers st) = length (sys_workers st0) \<and>
    told (\<lambda>P. occurs (system_step mac netlink itoa header_ok) st0 es st (at_step i P)) mac (sh_connid (sys_shared st0)) rq
      (sys_workers st ! i)"
  using assms(1,4)
proof (induction es arbitrary: st rule: rev_induct)
  case Nil
  with assms(5) show ?case by (simp add: run_simps)
next
  case (snoc e es)
  let ?step = "system_step mac netlink itoa header_ok"
  obtain st1 where st1: "run ?step st0 es st1" "?step st1 e st" using snoc.prems(1) by (auto simp: run_snoc)
  let ?D = "\<lambda>P. occurs ?step st0 es st1 (at_step i P)"
  let ?D' = "\<lambda>P. occurs ?step st0 (es @ [e]) st (at_step i P)"
  have IH: "length (sys_workers st1) = length (sys_workers st0)"
    "told ?D mac (sh_connid (sys_shared st0)) rq (sys_workers st1 ! i)"
    using snoc.IH [OF st1(1)] snoc.prems(2) by auto
  have ok: "system_ok mac cfg key st1" by (rule sys.run_inv [OF st1(1) assms(2)])
  have ci: "sh_connid (sys_shared st1) = sh_connid (sys_shared st0)"
    using ok assms(2) by (simp add: system_ok_def shared_ok_def)
  have mono: "?D' P" if "?D P" for P using that st1(2) by (rule occurs_snoc)
  from st1(2) show ?case
  proof cases
    case (sys_work j ev sh' w')
    show ?thesis
    proof (cases "j = i")
      case True
      have now: "?D' P" if "ev = Tau" "P (sh_store (sys_shared st1)) (sh_store sh')" for P
        using that sys_work True by (intro occurs_last [OF st1]) (simp add: at_step_def)
      have nr: "\<forall>peer dg. ev \<noteq> Recv peer dg" using snoc.prems(2) sys_work(1) True by auto
      have "told ?D' mac (sh_connid (sys_shared st1)) rq w'"
        by (rule told_micro [OF sys_work(4) nr, where D = ?D]) (use IH(2) True ci mono now in simp_all)
      with IH True ci sys_work(2,3) show ?thesis by simp
    next
      case False
      with IH sys_work(2) told_mono [OF IH(2) mono] show ?thesis by simp
    qed
  qed (use IH told_mono [OF IH(2) mono] in simp_all)
qed

text \<open>C3. Every answer is linearizable: the bytes a worker sends for a datagram are, unless it is
  a valid scrape, the handler's result at one of the worker's own steps since the datagram arrived,
  at which the store made exactly the handler's change, whatever else ran before and after that
  step; and a scrape reports for each hash the counts the store held at one of the worker's steps.\<close>

theorem answers_linearizable:
  assumes "system_reach mac netlink itoa header_ok cfg key st0" "i < length (sys_workers st0)"
    and "sys_workers st0 ! i = Received rq out0"
    and "run (system_step mac netlink itoa header_ok) st0 es st" "\<forall>peer dg. Work i (Recv peer dg) \<notin> set es"
    and "system_step mac netlink itoa header_ok st (Work i (Send peer b)) st'"
  shows "peer = rq_peer rq \<and>
    answered (\<lambda>P. occurs (system_step mac netlink itoa header_ok) st0 es st (at_step i P)) mac
      (sh_connid (sys_shared st0)) rq b (Reply (length b))"
proof -
  have ok0: "system_ok mac cfg key st0" by (rule sys.reach_inv [OF assms(1)])
  have ok: "system_ok mac cfg key st" by (rule sys.run_inv [OF assms(4) ok0])
  from told_run [OF assms(4) ok0 assms(2,5,3)]
  have t: "told (\<lambda>P. occurs (system_step mac netlink itoa header_ok) st0 es st (at_step i P)) mac
      (sh_connid (sys_shared st0)) rq (sys_workers st ! i)" and n: "i < length (sys_workers st)"
    using assms(2) by simp_all
  from assms(6) show ?thesis
  proof cases
    case (sys_work sh' w')
    from sys_work(3) show ?thesis
    proof cases
      case (m_send out n rq')
      have "phase_ok mac (connid_new key (ucast (cf_connid_window cfg))) (sys_workers st ! i)"
        using ok n by (simp add: system_ok_def)
      then have "b = out" "n = length out" using m_send by (auto simp: slice_def)
      with t m_send show ?thesis by simp
    qed
  qed
qed

lemma connect_answered:
  assumes "store_ok (sh_store sh)" "detector_ok (sh_detector sh)" "ip_ok peer"
    and "parse (take UDP_BUF dg) = Some (Inr (Connect tx))"
  shows "\<exists>sh' out' b. udp_worker mac rev rev rev sh [] dg peer rnd = Some (sh', out', Some b)"
proof (rule udp_worker_spec [OF assms(1-3) iteration_order_rev iteration_order_rev iteration_order_rev,
      of dg mac rnd "[]"])
  fix parsed s' out' act d' v
  assume "udp_handle mac (sh_connid sh) rev (sh_store sh) (take UDP_BUF dg) (ip_to_16 peer)
      (is_ipv4 (canonical_ip peer)) (sh_clock sh) (1620 + rnd) [] = Some (s', out', act)"
    and w: "udp_worker mac rev rev rev sh [] dg peer rnd =
      Some (apply_verdict (sh\<lparr>sh_store := s', sh_metrics := record_udp_metric (sh_metrics sh) parsed act,
        sh_detector := d'\<rparr>) (canonical_ip peer) v, out', sent_bytes act out')"
  with handle_connect [OF assms(4)] have "act = Reply 16" by simp
  with w show ?thesis by (auto simp: sent_bytes_def)
qed

theorem answers_linearizable_witness:
  "\<exists>st0 es st b rq. system_reach (\<lambda>k m. m) (\<lambda>e. True) (\<lambda>v. []) (\<lambda>u. True) config_default [1] st0 \<and>
     sys_workers st0 ! 0 = Received rq [] \<and> run (system_step (\<lambda>k m. m) (\<lambda>e. True) (\<lambda>v. []) (\<lambda>u. True)) st0 es st \<and>
     answered (\<lambda>P. occurs (system_step (\<lambda>k m. m) (\<lambda>e. True) (\<lambda>v. []) (\<lambda>u. True)) st0 es st (at_step 0 P)) (\<lambda>k m. m)
       (sh_connid (sys_shared st0)) rq b (Reply (length b))"
proof -
  let ?sh = "build_shared config_default [1] 90" and ?ip = "IpV4 [10, 0, 0, 1]"
  let ?dg = "encode_request (Connect 7)" and ?step = "system_step (\<lambda>k m. m) (\<lambda>e. True) (\<lambda>v. []) (\<lambda>u. True)"
  have "parse ?dg = Some (Inr (Connect 7))" using encode_parse [of "Connect 7" "[]"] by simp
  moreover have "length ?dg \<le> UDP_BUF" by (simp add: UDP_BUF_def)
  ultimately have p: "parse (take UDP_BUF ?dg) = Some (Inr (Connect 7))" by simp
  have s: "store_ok (sh_store ?sh)" "detector_ok (sh_detector ?sh)" "ip_ok ?ip"
    by (simp_all add: store_ok_new detector_ok_new)
  obtain sh' out' b where w: "udp_worker (\<lambda>k m. m) rev rev rev ?sh [] ?dg ?ip 5 = Some (sh', out', Some b)"
    using connect_answered [OF s p] by blast
  obtain n where "run (micro (\<lambda>k m. m)) (?sh, Idle []) (Recv ?ip ?dg # replicate n Tau @ [Send ?ip b]) (sh', Idle out')"
    using worker_run [OF w s(3) iteration_order_rev iteration_order_rev iteration_order_rev]
    by (auto simp: sent_event_def)
  from work_alone [OF this, where i = 0 and ws = "[Idle []]" and qs = "[]" and netlink = "\<lambda>e. True"
      and itoa = "\<lambda>v. []" and header_ok = "\<lambda>u. True"]
  obtain st0 st st' where st: "?step \<lparr>sys_shared = ?sh, sys_workers = [Idle []], sys_requests = []\<rparr> (Work 0 (Recv ?ip ?dg)) st0"
    "run ?step st0 (replicate n (Work 0 Tau)) st" "?step st (Work 0 (Send ?ip b)) st'"
    by (auto simp: run_simps run_append)
  from st(1) obtain rq where rq: "sys_workers st0 ! 0 = Received rq []" "0 < length (sys_workers st0)"
    by (auto elim!: system_stepE microE)
  have r: "system_reach (\<lambda>k m. m) (\<lambda>e. True) (\<lambda>v. []) (\<lambda>u. True) config_default [1] st0"
    using reach_step [OF system_start [where n = 1 and now = 90 and cfg = config_default and key = "[1]"]] st(1)
    by simp
  have "\<forall>peer dg. Work 0 (Recv peer dg) \<notin> set (replicate n (Work 0 Tau))" by simp
  from answers_linearizable [OF r rq(2,1) st(2) this st(3)] r rq(1) st(2) show ?thesis by blast
qed

section \<open>A datagram is done in a bounded number of steps\<close>

text \<open>The steps a worker has left: a scrape has at most 75 hashes, a verdict at most three effects.\<close>

fun steps_left :: "phase \<Rightarrow> nat" where
  "steps_left (Idle out) = 0"
| "steps_left (Enforcing rq out act es) = 1 + length es"
| "steps_left (Judged rq out act b) = 5"
| "steps_left (Counted rq out act) = 6"
| "steps_left (Handled rq out act) = 7"
| "steps_left (Scraping rq q es hs out) = 8 + length hs"
| "steps_left (Received rq out) = 84"

lemma valid_scrape_hashes: "valid_scrape mac ci rq = Some q \<Longrightarrow> length (chunks_exact 20 (sc_hashes q)) \<le> 75"
  using scrape_hash_count [of "rq_buf rq"]
  by (auto simp: valid_scrape_def parse_Scrape_iff split: option.splits sum.splits request.splits if_splits)

lemma verdict_effects_few: "length (verdict_effects cfg ip v) \<le> 3"
  by (simp add: verdict_effects_def split: verdict.split)

lemma micro_steps_left:
  assumes "micro mac (sh, w) ev (sh', w')" "\<forall>peer dg. ev \<noteq> Recv peer dg"
  shows "steps_left w' < steps_left w"
  using assms(1)
proof cases
  case (m_decide oo rq b d v out act)
  with verdict_effects_few [of "sh_config sh" "rq_ip rq" v] show ?thesis by simp
next
  case (m_scrape rq q hs out)
  with valid_scrape_hashes [of mac "sh_connid sh" rq q] show ?thesis by (simp add: iter_hashes_eq)
qed (use assms(2) in simp_all)

definition own :: "nat \<Rightarrow> system_event list \<Rightarrow> nat" where
  "own i es = length (filter (\<lambda>e. \<exists>ev. e = Work i ev) es)"

lemma own_steps:
  assumes "run (system_step mac netlink itoa header_ok) st0 es st" "i < length (sys_workers st0)"
    and "\<forall>peer dg. Work i (Recv peer dg) \<notin> set es"
  shows "length (sys_workers st) = length (sys_workers st0) \<and>
    own i es + steps_left (sys_workers st ! i) \<le> steps_left (sys_workers st0 ! i)"
  using assms
proof (induction rule: run.induct)
  case (run_cons st0 e st1 es st)
  from run_cons.hyps(1) have "length (sys_workers st1) = length (sys_workers st0) \<and>
      own i [e] + steps_left (sys_workers st1 ! i) \<le> steps_left (sys_workers st0 ! i)"
  proof cases
    case (sys_work j ev sh' w')
    show ?thesis
    proof (cases "j = i")
      case True
      with run_cons.prems(2) sys_work(1) have "\<forall>peer dg. ev \<noteq> Recv peer dg" by auto
      from micro_steps_left [OF sys_work(4) this] sys_work True show ?thesis by (simp add: own_def)
    qed (use sys_work in \<open>simp add: own_def\<close>)
  qed (simp_all add: own_def)
  moreover have "own i (e # es) = own i [e] + own i es" by (simp add: own_def)
  ultimately show ?case using run_cons.IH run_cons.prems by simp
qed (simp add: own_def)

lemma steps_left_0: "steps_left w = 0 \<Longrightarrow> \<exists>out. w = Idle out"
  by (cases w) simp_all

text \<open>C7. A worker is done with a datagram after at most 84 of its own accesses to shared state,
  whatever the others do in between: when it has answered or dropped it, it has made at most 84 of
  them, and until then it has made fewer and has a next one, which is not the reception of another
  datagram. An access takes its lock, reads or writes and releases in one
  step: the time spent waiting for a lock or for the socket to take the reply is not modelled.\<close>

theorem worker_returns:
  assumes "system_reach mac netlink itoa header_ok cfg key st0" "i < length (sys_workers st0)"
    and "sys_workers st0 ! i = Received rq out0"
    and "run (system_step mac netlink itoa header_ok) st0 es st" "\<forall>peer dg. Work i (Recv peer dg) \<notin> set es"
  shows "(\<exists>out. sys_workers st ! i = Idle out) \<and> own i es \<le> 84 \<or>
    own i es < 84 \<and> (\<exists>ev st'. system_step mac netlink itoa header_ok st (Work i ev) st' \<and> (\<forall>peer dg. ev \<noteq> Recv peer dg))"
proof (cases "\<exists>out. sys_workers st ! i = Idle out")
  case True
  with own_steps [OF assms(4,2,5)] assms(3) show ?thesis by simp
next
  case False
  from own_steps [OF assms(4,2,5)] assms(2,3) have o: "i < length (sys_workers st)"
    "own i es + steps_left (sys_workers st ! i) \<le> 84" by simp_all
  have ok: "system_ok mac cfg key st" by (rule sys.run_inv [OF assms(4) sys.reach_inv [OF assms(1)]])
  then have "shared_ok cfg key (sys_shared st)"
    "phase_ok mac (sh_connid (sys_shared st)) (sys_workers st ! i)"
    using o(1) by (simp_all add: system_ok_def shared_ok_def)
  from micro_progress [OF this] False obtain ev sh' w' where
    "micro mac (sys_shared st, sys_workers st ! i) ev (sh', w')" "\<forall>peer dg. ev \<noteq> Recv peer dg" by metis
  with sys_work [OF o(1)] have
    "\<exists>ev st'. system_step mac netlink itoa header_ok st (Work i ev) st' \<and> (\<forall>peer dg. ev \<noteq> Recv peer dg)" by blast
  moreover have "0 < steps_left (sys_workers st ! i)" using steps_left_0 False by blast
  then have "own i es < 84" using o(2) by linarith
  ultimately show ?thesis by blast
qed

theorem worker_returns_witness:
  "\<exists>st0 rq ev st'. system_reach (\<lambda>k m. m) (\<lambda>e. True) (\<lambda>v. []) (\<lambda>u. True) config_default [1] st0 \<and>
     sys_workers st0 ! 0 = Received rq [] \<and> system_step (\<lambda>k m. m) (\<lambda>e. True) (\<lambda>v. []) (\<lambda>u. True) st0 (Work 0 ev) st'"
proof -
  let ?sh = "build_shared config_default [1] 90" and ?ip = "IpV4 [10, 0, 0, 1]"
  let ?s = "\<lparr>sys_shared = ?sh, sys_workers = [Idle []], sys_requests = []\<rparr>" and ?rq = "receive ?sh ?ip [] 5"
  let ?st0 = "\<lparr>sys_shared = ?sh, sys_workers = [Received ?rq []], sys_requests = []\<rparr>"
  have "system_step (\<lambda>k m. m) (\<lambda>e. True) (\<lambda>v. []) (\<lambda>u. True) ?s (Work 0 (Recv ?ip [])) ?st0"
    using sys_work [of 0 ?s "\<lambda>k m. m" "Recv ?ip []" ?sh "Received ?rq []" "\<lambda>e. True"]
      m_recv [of ?ip "\<lambda>k m. m" ?sh "[]" "[]" 5] by simp
  then have r: "system_reach (\<lambda>k m. m) (\<lambda>e. True) (\<lambda>v. []) (\<lambda>u. True) config_default [1] ?st0"
    using reach_step [OF system_start [where n = 1 and now = 90 and cfg = config_default and key = "[1]"]]
    by simp
  from worker_returns [OF r, of 0 ?rq "[]" "[]" ?st0] obtain ev st' where
    "system_step (\<lambda>k m. m) (\<lambda>e. True) (\<lambda>v. []) (\<lambda>u. True) ?st0 (Work 0 ev) st'"
    by (auto simp: run_simps own_def)
  with r show ?thesis by (intro exI [of _ ?st0] exI [of _ ?rq] exI [of _ ev] exI [of _ st']) simp
qed

end
