(* ===== verification/Requests_Claims.thy ===== *)
theory Requests_Claims
  imports Workers_Claims
begin

text \<open>
  The claims about HTTP requests in the whole system of workers, requests and background tasks:
  what a reply says of the store, how many steps a request takes, and that the one-step model of a
  request is the request nobody interrupts.
\<close>

section \<open>Replies\<close>

text \<open>Request \<open>j\<close>'s own step at which the shared state goes from \<open>sh\<close> to \<open>sh'\<close> with \<open>P sh sh'\<close>.\<close>

definition at_ask :: "nat \<Rightarrow> (shared \<Rightarrow> shared \<Rightarrow> bool) \<Rightarrow> system \<Rightarrow> system_event \<Rightarrow> system \<Rightarrow> bool" where
  "at_ask j P st e st' \<longleftrightarrow> e = Ask j Quiet \<and> P (sys_shared st) (sys_shared st')"

lemma request_told_run:
  assumes "run (system_step mac netlink itoa header_ok) st0 es st" "system_ok mac cfg key st0"
    and "j < length (sys_requests st0)" "sys_requests st0 ! j = Asked peer target"
  shows "j < length (sys_requests st) \<and>
    request_told (\<lambda>P. occurs (system_step mac netlink itoa header_ok) st0 es st (at_ask j P)) itoa header_ok cfg
      peer target (sys_requests st ! j)"
  using assms(1)
proof (induction es arbitrary: st rule: rev_induct)
  case Nil
  with assms(3,4) show ?case by (auto simp: run_simps)
next
  case (snoc e es)
  let ?step = "system_step mac netlink itoa header_ok"
  obtain st1 where st1: "run ?step st0 es st1" "?step st1 e st" using snoc.prems by (auto simp: run_snoc)
  let ?D = "\<lambda>P. occurs ?step st0 es st1 (at_ask j P)"
  let ?D' = "\<lambda>P. occurs ?step st0 (es @ [e]) st (at_ask j P)"
  have IH: "j < length (sys_requests st1)"
    "request_told ?D itoa header_ok cfg peer target (sys_requests st1 ! j)"
    using snoc.IH [OF st1(1)] by auto
  have "system_ok mac cfg key st1" by (rule sys.run_inv [OF st1(1) assms(2)])
  then have cfg: "sh_config (sys_shared st1) = cfg" by (simp add: system_ok_def shared_ok_def)
  have mono: "?D' P" if "?D P" for P using that st1(2) by (rule occurs_snoc)
  note kept = request_told_mono [OF IH(2) mono]
  from st1(2) show ?case
  proof cases
    case (sys_ask i ev sh' q')
    show ?thesis
    proof (cases "i = j")
      case True
      have now: "?D' P" if "ev = Quiet" "P (sys_shared st1) sh'" for P
        using that sys_ask True by (intro occurs_last [OF st1]) (simp add: at_ask_def)
      have "request_told ?D' itoa header_ok (sh_config (sys_shared st1)) peer target q'"
        by (rule told_serve [OF sys_ask(4), where D = ?D]) (use IH(2) True cfg mono now in simp_all)
      with IH(1) True cfg sys_ask(2) show ?thesis by simp
    qed (use IH(1) kept sys_ask(2) in simp)
  qed (use IH(1) kept in \<open>simp_all add: nth_append\<close>)
qed

text \<open>C5. Every HTTP reply is linearizable. The source, the target and the clock it is computed from
  are those of the request; unless the target is a scrape, the response is the handler's result at
  one of the request's own steps since it arrived, at which the store made exactly the handler's
  change, whatever else ran before and after; a scrape is refused when one of the hashes it names is
  malformed, and otherwise lists, in the order asked, each hash with the counts that the store held
  at one of the request's steps.\<close>

theorem http_replies_linearizable:
  assumes "system_reach mac netlink itoa header_ok cfg key st0" "j < length (sys_requests st0)"
    and "sys_requests st0 ! j = Asked peer target"
    and "run (system_step mac netlink itoa header_ok) st0 es st"
    and "system_step mac netlink itoa header_ok st (Ask j (Answer rp)) st'"
  shows "reply_told (\<lambda>P. occurs (system_step mac netlink itoa header_ok) st0 es st (at_ask j P)) itoa header_ok
    cfg peer target rp"
proof -
  have ok0: "system_ok mac cfg key st0" by (rule sys.reach_inv [OF assms(1)])
  from assms(5) have "sys_requests st ! j = Answering rp"
    by (auto elim!: system_stepE serveE)
  with request_told_run [OF assms(4) ok0 assms(2,3)] show ?thesis by simp
qed

section \<open>The steps of a request\<close>

definition asks :: "nat \<Rightarrow> system_event list \<Rightarrow> nat" where
  "asks j es = length (filter (\<lambda>e. \<exists>ev. e = Ask j ev) es)"

lemma asks_steps:
  assumes "run (system_step mac netlink itoa header_ok) st0 es st" "j < length (sys_requests st0)"
  shows "j < length (sys_requests st) \<and>
    asks j es + request_steps (sys_requests st ! j) \<le> request_steps (sys_requests st0 ! j)"
  using assms
proof (induction rule: run.induct)
  case (run_cons st0 e st1 es st)
  from run_cons.hyps(1) have "j < length (sys_requests st1) \<and>
      asks j [e] + request_steps (sys_requests st1 ! j) \<le> request_steps (sys_requests st0 ! j)"
  proof cases
    case (sys_ask i ev sh' q')
    show ?thesis
    proof (cases "i = j")
      case True
      with serve_fewer [OF sys_ask(4)] sys_ask(1,2) run_cons.prems show ?thesis by (simp add: asks_def)
    qed (use sys_ask run_cons.prems in \<open>simp add: asks_def\<close>)
  qed (use run_cons.prems in \<open>simp_all add: asks_def nth_append\<close>)
  moreover have "asks j (e # es) = asks j [e] + asks j es" by (simp add: asks_def)
  ultimately show ?case using run_cons.IH by simp
qed (simp add: asks_def)

text \<open>A request is answered after at most five of its own accesses to shared state and one per
  pair of a scrape's query, whatever the others do in between, and until then it has a next one;
  waiting for a lock is not modelled.\<close>

lemma request_returns:
  assumes "system_reach mac netlink itoa header_ok cfg key st0" "j < length (sys_requests st0)"
    and "sys_requests st0 ! j = Asked peer target"
    and "run (system_step mac netlink itoa header_ok) st0 es st"
  defines "bound \<equiv> 5 + (case scrape_query target of Some query \<Rightarrow> length (query_pairs query) | None \<Rightarrow> 0)"
  shows "sys_requests st ! j = Closed \<and> asks j es \<le> bound \<or>
    asks j es < bound \<and> (\<exists>ev st'. system_step mac netlink itoa header_ok st (Ask j ev) st')"
proof (cases "sys_requests st ! j = Closed")
  case True
  with asks_steps [OF assms(4,2)] assms(3) show ?thesis by (simp add: bound_def)
next
  case False
  from asks_steps [OF assms(4,2)] assms(3) have o: "j < length (sys_requests st)"
    "asks j es + request_steps (sys_requests st ! j) \<le> bound" by (simp_all add: bound_def)
  have "system_ok mac cfg key st" by (rule sys.run_inv [OF assms(4) sys.reach_inv [OF assms(1)]])
  then have "request_ok (sys_requests st ! j)" "store_ok (sh_store (sys_shared st))"
    using o(1) by (simp_all add: system_ok_def shared_ok_def)
  from serve_progress [OF this(2,1) False] sys_ask [OF o(1), of itoa header_ok] have
    "\<exists>ev st'. system_step mac netlink itoa header_ok st (Ask j ev) st'" by blast
  moreover have "0 < request_steps (sys_requests st ! j)" using request_steps_0 False by blast
  then have "asks j es < bound" using o(2) by linarith
  ultimately show ?thesis by blast
qed


section \<open>The one-step model\<close>

lemma ask_alone:
  assumes "run (serve itoa header_ok) (sh, w) es (sh', w')" "j < length qs" "qs ! j = w"
  shows "run (system_step mac netlink itoa header_ok) \<lparr>sys_shared = sh, sys_workers = ws, sys_requests = qs\<rparr>
    (map (Ask j) es) \<lparr>sys_shared = sh', sys_workers = ws, sys_requests = qs[j := w']\<rparr>"
  using assms
proof (induction "(sh, w)" es "(sh', w')" arbitrary: sh w qs rule: run.induct)
  case run_nil
  then show ?case by (simp add: run_simps list_update_same_conv)
next
  case (run_cons ev st es)
  obtain sh1 w1 where st: "st = (sh1, w1)" by (cases st)
  have "system_step mac netlink itoa header_ok \<lparr>sys_shared = sh, sys_workers = ws, sys_requests = qs\<rparr> (Ask j ev)
      \<lparr>sys_shared = sh1, sys_workers = ws, sys_requests = qs[j := w1]\<rparr>"
    using sys_ask [of j "\<lparr>sys_shared = sh, sys_workers = ws, sys_requests = qs\<rparr>" itoa header_ok ev sh1 w1 mac netlink]
      run_cons(1,4,5) st
    by simp
  moreover from run_cons(3) [OF st, of "qs[j := w1]"] run_cons(4)
  have "run (system_step mac netlink itoa header_ok) \<lparr>sys_shared = sh1, sys_workers = ws, sys_requests = qs[j := w1]\<rparr>
      (map (Ask j) es) \<lparr>sys_shared = sh', sys_workers = ws, sys_requests = qs[j := w']\<rparr>"
    by simp
  ultimately show ?case by (simp add: run.run_cons)
qed

text \<open>The one-step model of a request is the request that nobody interrupts.\<close>

lemma serve_alone:
  assumes "serve_http itoa header_ok op sh target peer rnd = Some (sh', rp)" "iteration_order op"
    and "j < length qs" "qs ! j = Asked peer target"
  shows "\<exists>n. run (system_step mac netlink itoa header_ok) \<lparr>sys_shared = sh, sys_workers = ws, sys_requests = qs\<rparr>
    (map (Ask j) (replicate n Quiet @ [Answer rp]))
    \<lparr>sys_shared = sh', sys_workers = ws, sys_requests = qs[j := Closed]\<rparr>"
  using request_alone [OF assms(1,2)] ask_alone [OF _ assms(3,4)] by blast

section \<open>Witnesses\<close>

theorem http_replies_linearizable_witness:
  "\<exists>st0 es st st' rp. system_reach (\<lambda>k m. m) (\<lambda>e. True) (\<lambda>v. []) (\<lambda>u. True) config_default [1] st0 \<and>
     sys_requests st0 ! 0 = Asked (IpV4 [10, 0, 0, 1]) (str ''/scrape'') \<and>
     run (system_step (\<lambda>k m. m) (\<lambda>e. True) (\<lambda>v. []) (\<lambda>u. True)) st0 es st \<and>
     system_step (\<lambda>k m. m) (\<lambda>e. True) (\<lambda>v. []) (\<lambda>u. True) st (Ask 0 (Answer rp)) st' \<and>
     reply_told (\<lambda>P. occurs (system_step (\<lambda>k m. m) (\<lambda>e. True) (\<lambda>v. []) (\<lambda>u. True)) st0 es st (at_ask 0 P))
       (\<lambda>v. []) (\<lambda>u. True) config_default (IpV4 [10, 0, 0, 1]) (str ''/scrape'') rp"
proof -
  let ?sh = "build_shared config_default [1] 90" and ?ip = "IpV4 [10, 0, 0, 1]" and ?t = "str ''/scrape''"
  let ?step = "system_step (\<lambda>k m. m) (\<lambda>e. True) (\<lambda>v. []) (\<lambda>u. True)"
  let ?empty = "\<lparr>sys_shared = ?sh, sys_workers = [], sys_requests = []\<rparr>"
  let ?start = "\<lparr>sys_shared = ?sh, sys_workers = [], sys_requests = [Asked ?ip ?t]\<rparr>"
  have s: "store_ok (sh_store ?sh)" "ip_ok ?ip" by (simp_all add: store_ok_new)
  have "?step ?empty (Arrive ?ip ?t) ?start"
    using sys_arrive [OF s(2), of "\<lambda>k m. m" "\<lambda>e. True" "\<lambda>v. []" "\<lambda>u. True" ?empty ?t] by simp
  then have r: "system_reach (\<lambda>k m. m) (\<lambda>e. True) (\<lambda>v. []) (\<lambda>u. True) config_default [1] ?start"
    using reach_step [OF system_start [where n = 0 and now = 90 and cfg = config_default and key = "[1]"]]
    by simp
  obtain sh' rp where "serve_http (\<lambda>v. []) (\<lambda>u. True) rev ?sh ?t ?ip 5 = Some (sh', rp)"
    using handle_http_spec [OF s(1) canonical_ok [OF s(2)] iteration_order_rev, of "\<lambda>v. []" "\<lambda>u. True" ?t 5]
    by (auto simp: serve_http_def)
  from serve_alone [OF this iteration_order_rev, where j = 0 and qs = "[Asked ?ip ?t]" and ws = "[]"
      and mac = "\<lambda>k m. m" and netlink = "\<lambda>e. True"]
  obtain es st st' where "run ?step ?start es st" "?step st (Ask 0 (Answer rp)) st'"
    by (auto simp: run_snoc)
  with http_replies_linearizable [OF r, of 0 ?ip ?t es st rp st'] r show ?thesis by fastforce
qed

end
