(* ===== verification/Build_Version.thy ===== *)
theory Build_Version
  imports Nft
begin

text \<open>
  crates/bluefrog/build.rs: the version that is compiled into the binary, and the ban sink of
  crates/bf-nft/src/sink.rs for systems other than Linux. The environment and the output of git are
  arguments; \<open>lossy\<close> is \<open>String::from_utf8_lossy\<close>.
\<close>

section \<open>The version\<close>

definition is_ascii_digit :: "nat \<Rightarrow> bool" where
  "is_ascii_digit c \<longleftrightarrow> 0x30 \<le> c \<and> c \<le> 0x39"

text \<open>\<open>tag.chars().nth(1).is_some_and(..)\<close>\<close>

definition second_is_digit :: "codes \<Rightarrow> bool" where
  "second_is_digit tag \<longleftrightarrow> 1 < length tag \<and> is_ascii_digit (tag ! 1)"

record git_output =
  git_success :: bool
  git_stdout :: bytes

text \<open>\<open>env\<close> is \<open>std::env::var\<close>, \<open>git\<close> what running git gave, when it could be run.\<close>

definition version :: "(codes \<Rightarrow> codes option) \<Rightarrow> git_output option \<Rightarrow> (bytes \<Rightarrow> codes) \<Rightarrow> codes" where
  "version env git lossy =
     (let described = (case git of
          Some out \<Rightarrow>
            if git_success out
            then (let d = trim (lossy (git_stdout out)) in if d \<noteq> [] then Some d else None)
            else None
        | None \<Rightarrow> None);
        fallback = (case described of
            Some d \<Rightarrow> d
          | None \<Rightarrow> (case env (lit ''CARGO_PKG_VERSION'') of Some v \<Rightarrow> v | None \<Rightarrow> lit ''unknown''))
      in case env (lit ''GITHUB_REF_NAME'') of
           Some tag \<Rightarrow> if take 1 tag = lit ''v'' \<and> second_is_digit tag then tag else fallback
         | None \<Rightarrow> fallback)"

text \<open>The instructions printed for cargo.\<close>

definition build_main :: "(codes \<Rightarrow> codes option) \<Rightarrow> git_output option \<Rightarrow> (bytes \<Rightarrow> codes) \<Rightarrow> codes list" where
  "build_main env git lossy =
     [lit ''cargo:rerun-if-env-changed=GITHUB_REF_NAME'',
      lit ''cargo:rustc-env=BLUEFROG_VERSION='' @ version env git lossy]"

lemma version_release:
  "env (lit ''GITHUB_REF_NAME'') = Some (of_char CHR ''v'' # c # rest) \<Longrightarrow> is_ascii_digit c \<Longrightarrow>
   version env git lossy = of_char CHR ''v'' # c # rest"
  by (simp add: version_def second_is_digit_def lit_def Let_def)

text \<open>A branch named like a tag without a digit is not a release.\<close>

lemma version_branch:
  assumes "env (lit ''GITHUB_REF_NAME'') = Some tag" "\<not> second_is_digit tag"
  shows "version env git lossy = version (env (lit ''GITHUB_REF_NAME'' := None)) git lossy"
proof -
  have "lit ''CARGO_PKG_VERSION'' \<noteq> lit ''GITHUB_REF_NAME''" by (simp add: lit_def)
  with assms show ?thesis by (simp add: version_def Let_def cong: option.case_cong)
qed

lemma version_nonempty:
  "env (lit ''CARGO_PKG_VERSION'') \<noteq> Some [] \<Longrightarrow> version env git lossy \<noteq> []"
  by (auto simp: version_def second_is_digit_def Let_def lit_def split: option.split)

section \<open>The stub of the ban sink\<close>

datatype stub_sink = NetlinkStub
datatype stub_error = OnlyOnLinux

definition stub_new :: "codes \<Rightarrow> codes list \<Rightarrow> codes list \<Rightarrow> stub_sink" where
  "stub_new tbl sets4 sets6 = NetlinkStub"

definition stub_ban :: "stub_sink \<Rightarrow> ip_addr \<Rightarrow> nat \<Rightarrow> u32 \<Rightarrow> stub_error + unit" where
  "stub_ban s ip tier duration = Inl OnlyOnLinux"

end
