(* ===== verification/Test_Core.thy ===== *)
theory Test_Core
  imports Connid
begin

text \<open>
  The unit tests of crates/bf-core/src/lib.rs and connid.rs, run on the model. A test is a script of
  the panic monad: a failed assertion is a panic, and a test passes when it returns. What the tests
  print is not modelled. Where a test relies on two digests of the keyed hash being different, that
  is a hypothesis.
\<close>

section \<open>Assertions\<close>

definition check :: "bool \<Rightarrow> unit option" where
  "check b = (if b then Some () else None)"

lemma check_simps [simp]: "check True = Some ()" "check False = None"
  by (simp_all add: check_def)

lemma check_Some [simp]: "check b = Some u \<longleftrightarrow> b"
  by (simp add: check_def)

lemma check_bind [simp]: "Option.bind (check b) k = Some () \<longleftrightarrow> b \<and> k () = Some ()"
  by (simp add: check_def)

section \<open>Core types\<close>

definition hash_len_and_type_aliases :: "unit option" where
  "hash_len_and_type_aliases =
     do {
       check (HASH_LEN = 20);
       let h = (replicate HASH_LEN 0 :: info_hash);
       let p = (replicate HASH_LEN 1 :: peer_id);
       check (length h = 20);
       check (length p = 20)
     }"

lemma hash_len_and_type_aliases_passes: "hash_len_and_type_aliases = Some ()"
  by (simp add: hash_len_and_type_aliases_def HASH_LEN_def)

definition flag_values_are_stable :: "unit option" where
  "flag_values_are_stable =
     do {
       check (SEEDING = 0x80);
       check (COMPLETED = 0x40);
       check (STOPPED = 0x20);
       check (FROM_SYNC = 0x10);
       check (LEECHING = 0x00)
     }"

lemma flag_values_are_stable_passes: "flag_values_are_stable = Some ()"
  by (simp add: flag_values_are_stable_def flag_defs)

definition event_from_udp_maps_every_code :: "unit option" where
  "event_from_udp_maps_every_code =
     do {
       check (from_udp 0 = EvNone);
       check (from_udp 1 = EvCompleted);
       check (from_udp 2 = EvNone);
       check (from_udp 3 = EvStopped);
       check (from_udp 9999 = EvNone)
     }"

lemma event_from_udp_maps_every_code_passes: "event_from_udp_maps_every_code = Some ()"
  by (simp add: event_from_udp_maps_every_code_def from_udp_def)

section \<open>Connection ids\<close>

definition TEST_KEY :: bytes where "TEST_KEY = replicate 32 0x5a"
definition CI_IP :: bytes where "CI_IP = [1, 2, 3, 4, 0, 0, 0, 0, 0, 0, 0, 0, 0, 0, 0, 0]"

definition generate_is_deterministic_and_ip_specific :: "mac \<Rightarrow> unit option" where
  "generate_is_deterministic_and_ip_specific mac =
     do {
       let c = connid_new TEST_KEY 120;
       check (generate mac c CI_IP 1000 = generate mac c CI_IP 1000);
       let other = replicate 16 9;
       check (generate mac c CI_IP 1000 \<noteq> generate mac c other 1000)
     }"

definition validate_accepts_current_and_previous_window :: "mac \<Rightarrow> unit option" where
  "validate_accepts_current_and_previous_window mac =
     do {
       let c = connid_new TEST_KEY 120;
       let now = 10000;
       let i = generate mac c CI_IP now;
       check (validate mac c i CI_IP now);
       let prev_id = generate mac c CI_IP now;
       check (validate mac c prev_id CI_IP (now + 120));
       check (\<not> validate mac c prev_id CI_IP (now + 240))
     }"

definition validate_rejects_forged_and_wrong_ip :: "mac \<Rightarrow> unit option" where
  "validate_rejects_forged_and_wrong_ip mac =
     do {
       let c = connid_new TEST_KEY 120;
       let now = 10000;
       check (\<not> validate mac c 0xdeadbeefdeadbeef CI_IP now);
       let i = generate mac c CI_IP now;
       check (\<not> validate mac c i (replicate 16 9) now)
     }"

definition early_time_only_checks_current_window :: "mac \<Rightarrow> unit option" where
  "early_time_only_checks_current_window mac =
     do {
       let c = connid_new TEST_KEY 120;
       let i = generate mac c CI_IP 5;
       check (validate mac c i CI_IP 5);
       check (\<not> validate mac c (i + 1) CI_IP 5)
     }"

definition zero_window_is_clamped :: "mac \<Rightarrow> unit option" where
  "zero_window_is_clamped mac =
     do {
       let c = connid_new TEST_KEY 0;
       let i = generate mac c CI_IP 42;
       check (validate mac c i CI_IP 42)
     }"

text \<open>The ids of the windows 83 to 85, the three around the tests' time.\<close>

lemmas connid_eval = generate_def validate_def connid_new_def Let_def

lemma generate_is_deterministic_and_ip_specific_passes:
  assumes "for_window mac (connid_new TEST_KEY 120) CI_IP 8 \<noteq>
    for_window mac (connid_new TEST_KEY 120) (replicate 16 9) 8"
  shows "generate_is_deterministic_and_ip_specific mac = Some ()"
  using assms by (simp add: generate_is_deterministic_and_ip_specific_def connid_eval)

lemma validate_accepts_current_and_previous_window_passes:
  assumes "for_window mac (connid_new TEST_KEY 120) CI_IP 83 \<noteq> for_window mac (connid_new TEST_KEY 120) CI_IP 84"
    and "for_window mac (connid_new TEST_KEY 120) CI_IP 83 \<noteq> for_window mac (connid_new TEST_KEY 120) CI_IP 85"
  shows "validate_accepts_current_and_previous_window mac = Some ()"
  using assms by (simp add: validate_accepts_current_and_previous_window_def connid_eval)

lemma validate_rejects_forged_and_wrong_ip_passes:
  assumes "for_window mac (connid_new TEST_KEY 120) CI_IP 82 \<noteq> 0xdeadbeefdeadbeef"
    and "for_window mac (connid_new TEST_KEY 120) CI_IP 83 \<noteq> 0xdeadbeefdeadbeef"
    and "for_window mac (connid_new TEST_KEY 120) CI_IP 83 \<noteq>
      for_window mac (connid_new TEST_KEY 120) (replicate 16 9) 82"
    and "for_window mac (connid_new TEST_KEY 120) CI_IP 83 \<noteq>
      for_window mac (connid_new TEST_KEY 120) (replicate 16 9) 83"
  shows "validate_rejects_forged_and_wrong_ip mac = Some ()"
  using assms by (simp add: validate_rejects_forged_and_wrong_ip_def connid_eval)

lemma early_time_only_checks_current_window_passes: "early_time_only_checks_current_window mac = Some ()"
  by (simp add: early_time_only_checks_current_window_def connid_eval)

lemma zero_window_is_clamped_passes: "zero_window_is_clamped mac = Some ()"
  by (simp add: zero_window_is_clamped_def connid_eval max_def word_le_nat_alt)

end
