(* ===== verification/Test_Store.thy ===== *)
theory Test_Store
  imports Store_Claims Test_Core
begin

text \<open>
  The unit tests of crates/bf-core/src/store.rs, run on the model, for every iteration order of the
  hash tables.
\<close>

definition T_H :: info_hash where "T_H = replicate HASH_LEN 7"
definition T_K1 :: bytes where "T_K1 = [1, 1, 1, 1, 0x1a, 0xe1]"
definition T_K2 :: bytes where "T_K2 = [2, 2, 2, 2, 0x1a, 0xe2]"

section \<open>Tests\<close>

definition shard_index_uses_top_ten_bits :: "unit option" where
  "shard_index_uses_top_ten_bits =
     do {
       let h = (replicate HASH_LEN 0)[0 := 0xff, 1 := 0xc0];
       check (shard_index h = 1023);
       check (shard_index (replicate HASH_LEN 0) = 0)
     }"

definition leecher_then_seed_transitions :: "peer_order \<Rightarrow> unit option" where
  "leecher_then_seed_transitions ord =
     do {
       let s = store_new;
       (s, c, peers_out) \<leftarrow> announce_v4 ord s T_H T_K1 LEECHING 50 10 [];
       check (c = \<lparr>complete = 0, incomplete = 1, c_downloaded = 0\<rparr>);
       (s, c, peers_out) \<leftarrow> announce_v4 ord s T_H T_K2 LEECHING 50 10 [];
       check (incomplete c = 2);
       (s, c, peers_out) \<leftarrow> announce_v4 ord s T_H T_K1 (SEEDING OR COMPLETED) 50 11 peers_out;
       check (c = \<lparr>complete = 1, incomplete = 1, c_downloaded = 1\<rparr>);
       check (torrent_count s = 1)
     }"

definition completed_implies_seeding_and_sticks :: "peer_order \<Rightarrow> unit option" where
  "completed_implies_seeding_and_sticks ord =
     do {
       let s = store_new;
       (s, c, peers_out) \<leftarrow> announce_v4 ord s T_H T_K1 COMPLETED 50 10 [];
       check (c = \<lparr>complete = 0, incomplete = 1, c_downloaded = 0\<rparr>);
       (s, c, peers_out) \<leftarrow> announce_v4 ord s T_H T_K1 (SEEDING OR COMPLETED) 50 11 peers_out;
       check (c = \<lparr>complete = 1, incomplete = 0, c_downloaded = 1\<rparr>);
       (s, c, peers_out) \<leftarrow> announce_v4 ord s T_H T_K1 LEECHING 50 12 peers_out;
       check (c = \<lparr>complete = 0, incomplete = 1, c_downloaded = 1\<rparr>)
     }"

definition write_compact_orders_and_caps :: "peer_order \<Rightarrow> unit option" where
  "write_compact_orders_and_caps ord =
     do {
       let s = store_new;
       (s, c, peers_out) \<leftarrow> announce_v4 ord s T_H T_K1 LEECHING 50 10 [];
       (s, c, peers_out) \<leftarrow> announce_v4 ord s T_H T_K2 SEEDING 50 10 [];
       (s, c, peers_out) \<leftarrow> announce_v4 ord s T_H T_K1 LEECHING 50 10 [];
       check (length peers_out = 12);
       (s, c, peers_out) \<leftarrow> announce_v4 ord s T_H T_K1 LEECHING 1 10 [];
       check (length peers_out = 6)
     }"

definition remove_and_scrape :: "peer_order \<Rightarrow> unit option" where
  "remove_and_scrape ord =
     do {
       let s = store_new;
       (s, _, peers_out) \<leftarrow> announce_v4 ord s T_H T_K1 SEEDING 50 10 [];
       (s, _, peers_out) \<leftarrow> announce_v4 ord s T_H T_K2 LEECHING 50 10 peers_out;
       c \<leftarrow> scrape s T_H;
       check (c = \<lparr>complete = 1, incomplete = 1, c_downloaded = 0\<rparr>);
       (s, c) \<leftarrow> remove_v4 s T_H T_K1 11;
       check (c = \<lparr>complete = 0, incomplete = 1, c_downloaded = 0\<rparr>);
       (s, _) \<leftarrow> remove_v4 s T_H T_K1 11;
       let unknown = replicate HASH_LEN 9;
       (s, c) \<leftarrow> remove_v4 s unknown T_K1 11;
       check (c = counts_default);
       c \<leftarrow> scrape s unknown;
       check (c = counts_default)
     }"

definition v6_path :: "peer_order \<Rightarrow> unit option" where
  "v6_path ord =
     do {
       let s = store_new;
       let k6 = replicate 18 0;
       (s, c, peers_out) \<leftarrow> announce_v6 ord s T_H k6 SEEDING 50 10 [];
       check (c = \<lparr>complete = 1, incomplete = 0, c_downloaded = 0\<rparr>);
       check (length peers_out = 18);
       (s, c) \<leftarrow> remove_v6 s T_H k6 11;
       check (complete c = 0);
       (s, c) \<leftarrow> remove_v6 s (replicate HASH_LEN 3) k6 11;
       check (c = counts_default)
     }"

definition gc_expires_peers_and_empty_torrents :: "peer_order \<Rightarrow> unit option" where
  "gc_expires_peers_and_empty_torrents ord =
     do {
       let s = store_new;
       (s, _, peers_out) \<leftarrow> announce_v4 ord s T_H T_K1 SEEDING 50 10 [];
       (s, _, peers_out) \<leftarrow> announce_v6 ord s T_H (replicate 18 0) LEECHING 50 10 peers_out;
       let s = gc (10 + PEER_TIMEOUT_MINUTES - 1) s;
       c \<leftarrow> scrape s T_H;
       check (complete c = 1);
       let s = gc (10 + PEER_TIMEOUT_MINUTES) s;
       c \<leftarrow> scrape s T_H;
       check (c = counts_default);
       check (torrent_count s = 1);
       let s = gc (10 + TORRENT_TIMEOUT_MINUTES) s;
       check (torrent_count s = 0)
     }"

definition torrent_with_download_history_survives_empty :: "peer_order \<Rightarrow> unit option" where
  "torrent_with_download_history_survives_empty ord =
     do {
       let s = store_new;
       (s, _, peers_out) \<leftarrow> announce_v4 ord s T_H T_K1 (SEEDING OR COMPLETED) 50 10 [];
       (s, _) \<leftarrow> remove_v4 s T_H T_K1 10;
       let s = gc (10 + TORRENT_TIMEOUT_MINUTES) s;
       check (torrent_count s = 1);
       c \<leftarrow> scrape s T_H;
       check (c_downloaded c = 1)
     }"

definition totals_across_torrents :: "peer_order \<Rightarrow> unit option" where
  "totals_across_torrents ord =
     do {
       let s = store_new;
       (s, _, peers_out) \<leftarrow> announce_v4 ord s T_H T_K1 SEEDING 50 10 [];
       (s, _, peers_out) \<leftarrow> announce_v6 ord s T_H (replicate 18 0) LEECHING 50 10 peers_out;
       let h2 = replicate HASH_LEN 8;
       (s, _, peers_out) \<leftarrow> announce_v4 ord s h2 T_K2 LEECHING 50 10 peers_out;
       let t = totals_of s;
       check (t = \<lparr>tot_torrents = 2, tot_seeders = 1, tot_leechers = 2\<rparr>);
       check (totals_of store_new = totals_default)
     }"

section \<open>A store with one torrent\<close>

named_theorems test_eval

definition only :: "info_hash \<Rightarrow> torrent \<Rightarrow> store" where
  "only h t = set_shard store_new (shard_index h) [(h, t)]"

lemma shards_new: "shards store_new = replicate 1024 []"
  by (simp add: store_new_def SHARD_COUNT_def map_replicate_const)

lemma index_1024: "shard_index h < 1024"
  using shard_index_bound [of h] by (simp add: SHARD_COUNT_def)

lemma shard_at_new [simp]: "shard_at store_new (shard_index h) = Some []"
  using index_1024 [of h] by (simp add: shard_at_def shards_new)

lemma set_shard_new [simp]: "set_shard store_new (shard_index h) [(h, t)] = only h t"
  by (simp add: only_def)

lemma shard_at_only [simp]: "shard_at (only h t) (shard_index h) = Some [(h, t)]"
  using index_1024 [of h] by (simp add: shard_at_def only_def set_shard_def shards_new)

lemma set_shard_only [simp]: "set_shard (only h t) (shard_index h) [(h, t')] = only h t'"
  by (simp add: only_def set_shard_def)

lemma shard_at_other:
  "h' \<noteq> h \<Longrightarrow> \<exists>sh. shard_at (only h t) (shard_index h') = Some sh \<and> map_of sh h' = None"
  using index_1024 [of h']
  by (cases "shard_index h = shard_index h'") (auto simp: shard_at_def only_def set_shard_def shards_new)

text \<open>The operations on these stores: the tests then run by simplification.\<close>

lemma announce_new [test_eval]:
  "announce_v4 ord store_new h key f n now out =
     (let t = torrent_new\<lparr>base := now, v4 := pl_announce peer_list_new key f now\<rparr>
      in Some (only h t, torrent_counts t, write_compact ord (v4 t) n out))"
  "announce_v6 ord store_new h key f n now out =
     (let t = torrent_new\<lparr>base := now, v6 := pl_announce peer_list_new key f now\<rparr>
      in Some (only h t, torrent_counts t, write_compact ord (v6 t) n out))"
  by (simp_all add: announce_v4_def announce_v6_def Let_def torrent_new_def)

lemma announce_only [test_eval]:
  "announce_v4 ord (only h t) h key f n now out =
     (let t = t\<lparr>base := now, v4 := pl_announce (v4 t) key f now\<rparr>
      in Some (only h t, torrent_counts t, write_compact ord (v4 t) n out))"
  "announce_v6 ord (only h t) h key f n now out =
     (let t = t\<lparr>base := now, v6 := pl_announce (v6 t) key f now\<rparr>
      in Some (only h t, torrent_counts t, write_compact ord (v6 t) n out))"
  by (simp_all add: announce_v4_def announce_v6_def Let_def)

lemma remove_only [test_eval]:
  "remove_v4 (only h t) h key now =
     (let t = t\<lparr>base := now, v4 := pl_remove (v4 t) key\<rparr> in Some (only h t, torrent_counts t))"
  "remove_v6 (only h t) h key now =
     (let t = t\<lparr>base := now, v6 := pl_remove (v6 t) key\<rparr> in Some (only h t, torrent_counts t))"
  by (simp_all add: remove_v4_def remove_v6_def Let_def)

lemma remove_other [test_eval]:
  "h' \<noteq> h \<Longrightarrow> remove_v4 (only h t) h' key now = Some (only h t, counts_default)"
  "h' \<noteq> h \<Longrightarrow> remove_v6 (only h t) h' key now = Some (only h t, counts_default)"
  using shard_at_other [of h' h t] by (auto simp: remove_v4_def remove_v6_def)

lemma scrape_only [test_eval]:
  "scrape (only h t) h = Some (torrent_counts t)"
  "h' \<noteq> h \<Longrightarrow> scrape (only h t) h' = Some counts_default"
  "scrape store_new h' = Some counts_default"
  using shard_at_other [of h' h t] by (auto simp: scrape_def)

lemma gc_only [test_eval]:
  "gc now (only h t) =
     (let t = torrent_expire now t in if torrent_stale now t then store_new else only h t)"
proof -
  have "shards (gc now (only h t)) =
      shards (let t = torrent_expire now t in if torrent_stale now t then store_new else only h t)"
    by (simp add: shards_gc only_def set_shard_def shards_new map_update gc_shard_def Let_def
        map_replicate_const list_update_same_conv index_1024)
  then show ?thesis by (metis (full_types) store.equality unit.exhaust)
qed

lemma torrent_count_only [test_eval]: "torrent_count (only h t) = 1" "torrent_count store_new = 0"
  using index_1024 [of h]
  by (simp_all add: torrent_count_def only_def set_shard_def shards_new map_update sum_list_update
      map_replicate_const sum_list_replicate)

text \<open>What an announce hands out, by length.\<close>

lemma write_compact_1:
  assumes "iteration_order ord" "length (peers pl) = m"
    and "\<forall>e \<in> set (peers pl). length (fst e) = k"
  shows "length (write_compact ord pl n out) = length out + k * min n m"
proof -
  let ?es = "take n (handout (ord (peers pl)))"
  have "\<forall>k' \<in> set (map fst ?es). length k' = k"
    using set_take_subset [of n "handout (ord (peers pl))"] iteration_order_set [OF assms(1)] assms(3)
    by fastforce
  from length_concat_fixed [OF this] assms(2) show ?thesis
    by (simp add: write_compact_eq iteration_order_length [OF assms(1)] min.commute)
qed

section \<open>The tests pass\<close>

lemma T_H_other [simp]: "replicate HASH_LEN 9 \<noteq> T_H" "replicate HASH_LEN 3 \<noteq> T_H"
  by (simp_all add: T_H_def HASH_LEN_def)

lemmas test_ops = Let_def torrent_new_def peer_list_new_def pl_announce_def pl_remove_def sanitize_def
  torrent_counts_def leechers_def counts_default_def T_K1_def T_K2_def flag_defs

lemmas test_gc = torrent_expire_def torrent_stale_def pl_expire_def is_empty_def sat_sub_def
  PEER_TIMEOUT_MINUTES_def TORRENT_TIMEOUT_MINUTES_def

lemma shard_index_uses_top_ten_bits_passes: "shard_index_uses_top_ten_bits = Some ()"
  by (simp add: shard_index_uses_top_ten_bits_def shard_index_def HASH_LEN_def from_be_def be_val_def)

lemma leecher_then_seed_transitions_passes: "leecher_then_seed_transitions ord = Some ()"
  by (simp add: leecher_then_seed_transitions_def test_eval test_ops)

lemma completed_implies_seeding_and_sticks_passes: "completed_implies_seeding_and_sticks ord = Some ()"
  by (simp add: completed_implies_seeding_and_sticks_def test_eval test_ops)

lemma write_compact_orders_and_caps_passes:
  assumes "iteration_order ord"
  shows "write_compact_orders_and_caps ord = Some ()"
  by (simp add: write_compact_orders_and_caps_def test_eval test_ops write_compact_1 [OF assms])

lemma remove_and_scrape_passes: "remove_and_scrape ord = Some ()"
  by (simp add: remove_and_scrape_def test_eval test_ops)

lemma v6_path_passes:
  assumes "iteration_order ord"
  shows "v6_path ord = Some ()"
  by (simp add: v6_path_def test_eval test_ops write_compact_1 [OF assms, where k = 18])

lemma gc_expires_peers_and_empty_torrents_passes: "gc_expires_peers_and_empty_torrents ord = Some ()"
  by (simp add: gc_expires_peers_and_empty_torrents_def test_eval test_ops test_gc)

lemma torrent_with_download_history_survives_empty_passes:
  "torrent_with_download_history_survives_empty ord = Some ()"
  by (simp add: torrent_with_download_history_survives_empty_def test_eval test_ops test_gc)

text \<open>The two torrents of the last test lie in the shards 28 and 32.\<close>

lemma shard_index_T: "shard_index T_H = 28" "shard_index (replicate HASH_LEN 8) = 32"
  by (simp_all add: shard_index_def T_H_def HASH_LEN_def from_be_def be_val_def)

lemma announce_second:
  assumes "shard_index h' \<noteq> shard_index h"
  shows "announce_v4 ord (only h t) h' key f n now out =
     (let t' = torrent_new\<lparr>base := now, v4 := pl_announce peer_list_new key f now\<rparr>
      in Some (set_shard (only h t) (shard_index h') [(h', t')], torrent_counts t',
               write_compact ord (v4 t') n out))"
  using assms index_1024 [of h']
  by (simp add: announce_v4_def shard_at_def only_def set_shard_def shards_new Let_def torrent_new_def)

lemma foldl_shards_nil: "foldl totals_shard tot (replicate n []) = tot"
  by (induction n) (simp_all add: totals_shard_def)

lemma totals_two:
  assumes "i < 1024" "j < 1024" "i < j"
  shows "totals_of (set_shard (set_shard store_new i sh) j sh') = totals_shard (totals_shard totals_default sh) sh'"
proof -
  have "(replicate 1024 [])[i := sh, j := sh'] =
      replicate i [] @ sh # replicate (j - i - 1) [] @ sh' # replicate (1023 - j) []"
    using assms by (intro nth_equalityI) (auto simp: nth_append nth_list_update nth_Cons')
  then show ?thesis by (simp add: totals_of_def set_shard_def shards_new foldl_shards_nil)
qed

lemma totals_across_torrents_passes: "totals_across_torrents ord = Some ()"
proof -
  have new: "totals_of store_new = totals_default"
    by (simp add: totals_of_def shards_new foldl_shards_nil)
  show ?thesis
    by (simp add: totals_across_torrents_def test_eval announce_second shard_index_T new Let_def)
      (simp add: only_def shard_index_T totals_two totals_shard_def totals_torrent_def totals_default_def test_ops)
qed

end
