(* ===== verification/Test_Proto.thy ===== *)
theory Test_Proto
  imports Proto_Udp Bencode Test_Core
begin

text \<open>
  The unit tests of crates/bf-proto/src/udp.rs and bencode.rs, run on the model. A test marked
  \<open>should_panic\<close> passes when its body panics.
\<close>

section \<open>Packets\<close>

definition header :: "u32 \<Rightarrow> u64 \<Rightarrow> u32 \<Rightarrow> nat \<Rightarrow> bytes option" where
  "header action connection_id txid len =
     do {
       let p = replicate len 0;
       p \<leftarrow> copy_into p 0 8 (u64_be connection_id);
       p \<leftarrow> copy_into p 8 12 (u32_be action);
       copy_into p 12 16 (u32_be txid)
     }"

definition announce_packet :: "u32 \<Rightarrow> bytes option" where
  "announce_packet event =
     do {
       p \<leftarrow> header 1 0x1122334455667788 0xdeadbeef ANNOUNCE_MIN;
       p \<leftarrow> copy_into p 16 36 (map word_of_nat [0..<20]);
       p \<leftarrow> copy_into p 36 56 (map (\<lambda>i. word_of_nat i + 100) [0..<20]);
       p \<leftarrow> copy_into p 56 64 (u64_be 10);
       p \<leftarrow> copy_into p 64 72 (u64_be 20);
       p \<leftarrow> copy_into p 72 80 (u64_be 30);
       p \<leftarrow> copy_into p 80 84 (u32_be event);
       p \<leftarrow> copy_into p 84 88 (u32_be 0x0a000001);
       p \<leftarrow> copy_into p 88 92 (u32_be 0xfeedface);
       p \<leftarrow> copy_into p 92 96 (u32_be (- 1));
       copy_into p 96 98 (u16_be 6881)
     }"

definition constants_are_correct :: "unit option" where
  "constants_are_correct =
     do {
       check (PROTOCOL_ID = 0x0000041727101980);
       check ((MIN_PACKET, ANNOUNCE_MIN) = (16, 98));
       check ((PEER4_LEN, PEER6_LEN, MAX_SCRAPE_HASHES) = (6, 18, 75))
     }"

text \<open>The fixed-width readers on slices of the wrong length.\<close>

definition be_u16_rejects_wrong_length :: "u16 option" where
  "be_u16_rejects_wrong_length = be_u16 [1]"

definition be_u32_rejects_wrong_length :: "u32 option" where
  "be_u32_rejects_wrong_length = be_u32 [1, 2, 3]"

definition be_u64_rejects_wrong_length :: "u64 option" where
  "be_u64_rejects_wrong_length = be_u64 [1, 2, 3]"

definition hash_ref_rejects_wrong_length :: "info_hash option" where
  "hash_ref_rejects_wrong_length = hash_ref (replicate 5 0)"

definition parse_rejects_too_short :: "unit option" where
  "parse_rejects_too_short =
     do {
       r \<leftarrow> parse (replicate 15 0);
       check (r = Inl TooShort)
     }"

definition parse_connect_ok_and_bad_magic :: "unit option" where
  "parse_connect_ok_and_bad_magic =
     do {
       good \<leftarrow> header 0 PROTOCOL_ID 42 MIN_PACKET;
       r \<leftarrow> parse good;
       check (r = Inr (Connect 42));
       bad \<leftarrow> header 0 (PROTOCOL_ID + 1) 42 MIN_PACKET;
       r \<leftarrow> parse bad;
       check (r = Inl BadProtocolId)
     }"

definition expected_announce :: "info_hash \<Rightarrow> peer_id \<Rightarrow> event \<Rightarrow> request" where
  "expected_announce ih pid event =
     Announce \<lparr>an_connection_id = 0x1122334455667788, an_transaction_id = 0xdeadbeef,
       an_info_hash = ih, an_peer_id = pid, an_downloaded = 10, an_left = 20, an_uploaded = 30,
       an_event = event, an_declared_ip = 0x0a000001, an_key = 0xfeedface, an_num_want = - 1,
       an_port = 6881\<rparr>"

definition parse_announce_fields_and_events :: "unit option" where
  "parse_announce_fields_and_events =
     do {
       let ih = map word_of_nat [0..<HASH_LEN];
       let pid = map (\<lambda>i. word_of_nat i + 100) [0..<HASH_LEN];
       p \<leftarrow> announce_packet 1;
       r \<leftarrow> parse p;
       check (r = Inr (expected_announce ih pid EvCompleted));
       p \<leftarrow> announce_packet 3;
       r \<leftarrow> parse p;
       check (r = Inr (expected_announce ih pid EvStopped));
       p \<leftarrow> announce_packet 0;
       r \<leftarrow> parse p;
       check (r = Inr (expected_announce ih pid EvNone))
     }"

definition parse_announce_too_short :: "unit option" where
  "parse_announce_too_short =
     do {
       p \<leftarrow> header 1 PROTOCOL_ID 1 (ANNOUNCE_MIN - 1);
       r \<leftarrow> parse p;
       check (r = Inl AnnounceTooShort)
     }"

definition parse_scrape_counts_and_caps :: "unit option" where
  "parse_scrape_counts_and_caps =
     do {
       two \<leftarrow> header 2 7 9 (MIN_PACKET + 2 * HASH_LEN);
       r \<leftarrow> parse two;
       hs \<leftarrow> slice two MIN_PACKET (MIN_PACKET + 2 * HASH_LEN);
       check (r = Inr (Scrape \<lparr>sc_connection_id = 7, sc_transaction_id = 9, sc_hashes = hs\<rparr>));
       partial \<leftarrow> header 2 0 0 (MIN_PACKET + HASH_LEN + 5);
       r \<leftarrow> parse partial;
       hs \<leftarrow> slice partial MIN_PACKET (MIN_PACKET + HASH_LEN);
       check (r = Inr (Scrape \<lparr>sc_connection_id = 0, sc_transaction_id = 0, sc_hashes = hs\<rparr>));
       many \<leftarrow> header 2 0 0 (MIN_PACKET + (MAX_SCRAPE_HASHES + 5) * HASH_LEN);
       r \<leftarrow> parse many;
       hs \<leftarrow> slice many MIN_PACKET (MIN_PACKET + MAX_SCRAPE_HASHES * HASH_LEN);
       check (r = Inr (Scrape \<lparr>sc_connection_id = 0, sc_transaction_id = 0, sc_hashes = hs\<rparr>))
     }"

definition scrape_iter_hashes_yields_each_stride :: "unit option" where
  "scrape_iter_hashes_yields_each_stride =
     do {
       let hashes = (replicate (2 * HASH_LEN) 0)[HASH_LEN := 0xff];
       let s = \<lparr>sc_connection_id = 0, sc_transaction_id = 0, sc_hashes = hashes\<rparr>;
       collected \<leftarrow> iter_hashes s;
       check (length collected = 2);
       check (collected ! 0 ! 0 = 0);
       check (collected ! 1 ! 0 = 0xff)
     }"

definition parse_unknown_action :: "unit option" where
  "parse_unknown_action =
     do {
       p \<leftarrow> header 3 0 0 MIN_PACKET;
       r \<leftarrow> parse p;
       check (r = Inl (UnknownAction 3))
     }"

section \<open>The parser tests pass\<close>

lemma header_eq:
  "16 \<le> len \<Longrightarrow>
   header action cid tx len = Some (u64_be cid @ u32_be action @ u32_be tx @ replicate (len - 16) 0)"
  by (simp add: header_def copy_into_def)

lemma announce_packet_eq:
  "announce_packet event = Some (u64_be 0x1122334455667788 @ u32_be 1 @ u32_be 0xdeadbeef @
     map word_of_nat [0..<20] @ map (\<lambda>i. word_of_nat i + 100) [0..<20] @ u64_be 10 @ u64_be 20 @
     u64_be 30 @ u32_be event @ u32_be 0x0a000001 @ u32_be 0xfeedface @ u32_be (- 1) @ u16_be 6881)"
  by (simp add: announce_packet_def header_eq ANNOUNCE_MIN_def copy_into_def del: upt_rec_numeral)

lemma constants_are_correct_passes: "constants_are_correct = Some ()"
  by (simp add: constants_are_correct_def PROTOCOL_ID_def size_defs PEER4_LEN_def PEER6_LEN_def)

lemma be_u16_rejects_wrong_length_panics: "be_u16_rejects_wrong_length = None"
  by (simp add: be_u16_rejects_wrong_length_def be_u16_def)

lemma be_u32_rejects_wrong_length_panics: "be_u32_rejects_wrong_length = None"
  by (simp add: be_u32_rejects_wrong_length_def be_u32_def)

lemma be_u64_rejects_wrong_length_panics: "be_u64_rejects_wrong_length = None"
  by (simp add: be_u64_rejects_wrong_length_def be_u64_def)

lemma hash_ref_rejects_wrong_length_panics: "hash_ref_rejects_wrong_length = None"
  by (simp add: hash_ref_rejects_wrong_length_def hash_ref_def HASH_LEN_def)

lemma parse_rejects_too_short_passes: "parse_rejects_too_short = Some ()"
  by (simp add: parse_rejects_too_short_def parse_eq)

lemma parse_connect_ok_and_bad_magic_passes: "parse_connect_ok_and_bad_magic = Some ()"
  by (simp add: parse_connect_ok_and_bad_magic_def parse_eq header_eq size_defs)

lemma parse_announce_too_short_passes: "parse_announce_too_short = Some ()"
  by (simp add: parse_announce_too_short_def parse_eq header_eq size_defs)

lemma parse_unknown_action_passes: "parse_unknown_action = Some ()"
  by (simp add: parse_unknown_action_def parse_eq header_eq size_defs)

lemma parse_announce_packet:
  "announce_packet event \<bind> parse = Some (Inr (expected_announce (map word_of_nat [0..<20])
     (map (\<lambda>i. word_of_nat i + 100) [0..<20]) (from_udp event)))"
  by (simp add: announce_packet_eq parse_eq announce_fields_def expected_announce_def del: upt_rec_numeral)

lemma parse_announce_fields_and_events_passes: "parse_announce_fields_and_events = Some ()"
  using parse_announce_packet [of 1] parse_announce_packet [of 3] parse_announce_packet [of 0]
  by (simp add: parse_announce_fields_and_events_def announce_packet_eq HASH_LEN_def from_udp_def
      del: upt_rec_numeral)

lemma parse_scrape_counts_and_caps_passes: "parse_scrape_counts_and_caps = Some ()"
  by (simp add: parse_scrape_counts_and_caps_def parse_eq header_eq size_defs scrape_fields_def slice_def)

lemma scrape_iter_hashes_yields_each_stride_passes: "scrape_iter_hashes_yields_each_stride = Some ()"
  by (simp add: scrape_iter_hashes_yields_each_stride_def iter_hashes_eq HASH_LEN_def chunks_exact.simps)

section \<open>The writers\<close>

definition write_connect_response_bytes :: "unit option" where
  "write_connect_response_bytes =
     do {
       let out = replicate 16 0;
       out \<leftarrow> write_connect out 0xaabbccdd 0x0102030405060708;
       a \<leftarrow> slice out 0 4;
       check (a = u32_be 0);
       a \<leftarrow> slice out 4 8;
       check (a = u32_be 0xaabbccdd);
       a \<leftarrow> slice out 8 16;
       check (a = u64_be 0x0102030405060708)
     }"

definition write_announce_response_bytes :: "unit option" where
  "write_announce_response_bytes =
     do {
       let out = replicate 64 0;
       let ps = [1, 2, 3, 4, 0x1a, 0xe1];
       (out, n) \<leftarrow> write_announce out 0xdeadbeef 1800 5 3 ps;
       check (n = 20 + length ps);
       a \<leftarrow> slice out 0 4;
       check (a = u32_be 1);
       a \<leftarrow> slice out 4 8;
       check (a = u32_be 0xdeadbeef);
       a \<leftarrow> slice out 8 12;
       check (a = u32_be 1800);
       a \<leftarrow> slice out 12 16;
       check (a = u32_be 5);
       a \<leftarrow> slice out 16 20;
       check (a = u32_be 3);
       a \<leftarrow> slice out 20 26;
       check (a = ps);
       (out, n0) \<leftarrow> write_announce out 1 1620 0 0 [];
       check (n0 = 20)
     }"

definition write_scrape_response_bytes :: "unit option" where
  "write_scrape_response_bytes =
     do {
       let out = replicate 64 0;
       let entries = [(10, 100, 20), (1, 2, 3)];
       (out, n) \<leftarrow> write_scrape out 0x11 entries;
       check (n = 8 + 2 * 12);
       a \<leftarrow> slice out 0 4;
       check (a = u32_be 2);
       a \<leftarrow> slice out 4 8;
       check (a = u32_be 0x11);
       a \<leftarrow> slice out 8 12;
       check (a = u32_be 10);
       a \<leftarrow> slice out 12 16;
       check (a = u32_be 100);
       a \<leftarrow> slice out 16 20;
       check (a = u32_be 20);
       (out, n) \<leftarrow> write_scrape out 0 [];
       check (n = 8)
     }"

definition write_error_response_bytes :: "unit option" where
  "write_error_response_bytes =
     do {
       let out = replicate 64 0;
       let msg = str ''Connection ID missmatch.'';
       (out, n) \<leftarrow> write_error out 0x22 msg;
       check (n = 8 + length msg);
       a \<leftarrow> slice out 0 4;
       check (a = u32_be 3);
       a \<leftarrow> slice out 4 8;
       check (a = u32_be 0x22);
       a \<leftarrow> slice out 8 (8 + length msg);
       check (a = msg)
     }"

lemma write_connect_response_bytes_passes: "write_connect_response_bytes = Some ()"
  by (simp add: write_connect_response_bytes_def write_connect_eq slice_def)

lemma write_announce_response_bytes_passes: "write_announce_response_bytes = Some ()"
  by (simp add: write_announce_response_bytes_def write_announce_eq slice_def)

lemma write_scrape_response_bytes_passes: "write_scrape_response_bytes = Some ()"
  by (simp add: write_scrape_response_bytes_def write_scrape_def copy_into_def slice_def)

lemma write_error_response_bytes_passes: "write_error_response_bytes = Some ()"
  by (simp add: write_error_response_bytes_def write_error_eq slice_def)

section \<open>Bencode\<close>

text \<open>The texts are ASCII, so the tests' reading of them as UTF-8 is the identity on bytes.\<close>

definition primitives :: "itoa \<Rightarrow> unit option" where
  "primitives itoa =
     do {
       let out = [];
       let out = enc_end (enc_list (enc_bytes itoa (str ''spam'') (enc_int itoa 12345 (enc_int itoa 0 out))));
       check (out = str ''i0ei12345e4:spamle'')
     }"

definition announce_body :: "itoa \<Rightarrow> unit option" where
  "announce_body itoa =
     do {
       let c = \<lparr>complete = 2, incomplete = 3, c_downloaded = 5\<rparr>;
       let out = announce_response itoa [] c 1800 [1, 2, 3, 4, 0, 80] [];
       check (out = str ''d8:completei2e10:downloadedi5e10:incompletei3e8:intervali1800e'' @
         str ''12:min intervali900e5:peers6:'' @ [1, 2, 3, 4, 0] @ str ''P6:peers60:e'')
     }"

definition text_starts_with :: "bytes \<Rightarrow> bytes \<Rightarrow> bool" where
  "text_starts_with text pre \<longleftrightarrow> take (length pre) text = pre"

definition text_ends_with :: "bytes \<Rightarrow> bytes \<Rightarrow> bool" where
  "text_ends_with text suf \<longleftrightarrow> text_starts_with (rev text) (rev suf)"

fun text_contains :: "bytes \<Rightarrow> bytes \<Rightarrow> bool" where
  "text_contains [] pat = (pat = [])"
| "text_contains (c # text) pat = (text_starts_with (c # text) pat \<or> text_contains text pat)"

definition scrape_body_multiple_and_empty :: "itoa \<Rightarrow> unit option" where
  "scrape_body_multiple_and_empty itoa =
     do {
       let h1 = replicate 20 0x41;
       let h2 = replicate 20 0x42;
       let c1 = \<lparr>complete = 1, incomplete = 0, c_downloaded = 9\<rparr>;
       let c2 = counts_default;
       let text = scrape_response itoa [] [(h1, c1), (h2, c2)];
       check (text_starts_with text (str ''d5:filesd20:AAAAAAAAAAAAAAAAAAAA''));
       check (text_contains text (str ''d8:completei1e10:downloadedi9e10:incompletei0ee''));
       check (text_ends_with text (str ''ee''));
       let empty_out = scrape_response itoa [] [];
       check (empty_out = str ''d5:filesdee'')
     }"

definition failure_body :: "itoa \<Rightarrow> unit option" where
  "failure_body itoa =
     do {
       let out = failure itoa [] (str ''nope'');
       check (out = str ''d14:failure reason4:nopee'')
     }"

lemma text_contains_after: "text_contains t pat \<Longrightarrow> text_contains (replicate n c @ t) pat"
  by (induction n) simp_all

lemma dec_eval:
  "dec (numeral n) =
     (if numeral n < (10 :: nat) then [word_of_nat (0x30 + numeral n)]
      else dec (numeral n div 10) @ [word_of_nat (0x30 + numeral n mod 10)])"
  "dec (Suc k) =
     (if Suc k < 10 then [word_of_nat (0x30 + Suc k)]
      else dec (Suc k div 10) @ [word_of_nat (0x30 + Suc k mod 10)])"
  "dec 0 = [0x30]" "dec 1 = [0x31]"
  by (subst dec.simps, simp)+

lemma primitives_passes:
  assumes "itoa_decimal itoa"
  shows "primitives itoa = Some ()"
  using assms by (simp add: primitives_def enc_simps dec_eval str_def)

lemma announce_body_passes:
  assumes "itoa_decimal itoa"
  shows "announce_body itoa = Some ()"
  using assms by (simp add: announce_body_def announce_response_eq announce_dict_def dec_eval str_def)

lemma failure_body_passes:
  assumes "itoa_decimal itoa"
  shows "failure_body itoa = Some ()"
  using assms by (simp add: failure_body_def failure_eq dec_eval str_def)

lemma scrape_body_multiple_and_empty_passes:
  assumes "itoa_decimal itoa"
  shows "scrape_body_multiple_and_empty itoa = Some ()"
  using assms
  by (simp add: scrape_body_multiple_and_empty_def scrape_response_eq file_dict_def counts_default_def
      text_starts_with_def text_ends_with_def text_contains_after dec_eval str_def)

end
