(* ===== verification/Test_Udp.thy ===== *)
theory Test_Udp
  imports Udp_Handler Test_Store Test_Proto
begin

text \<open>
  The unit tests of crates/bf-udp/src/lib.rs, run on the model for every iteration order of the
  peer tables and every keyed hash for which the forged ids of the tests are indeed forged.
\<close>

definition T_V4 :: bytes where "T_V4 = [0, 0, 0, 0, 0, 0, 0, 0, 0, 0, 0xff, 0xff, 10, 0, 0, 1]"
definition T_V6 :: bytes where "T_V6 = [0x20, 0x01, 0xd, 0xb8, 0, 0, 0, 0, 0, 0, 0, 0, 0, 0, 0, 1]"

text \<open>The handler of the tests: a fresh store, and this connection-id scheme.\<close>

definition T_CI :: connid where "T_CI = connid_new (replicate 32 1) 120"

definition t_announce :: "u64 \<Rightarrow> u32 \<Rightarrow> u64 \<Rightarrow> u32 \<Rightarrow> i32 \<Rightarrow> u16 \<Rightarrow> bytes option" where
  "t_announce cid txid lft event num_want port =
     do {
       p \<leftarrow> header 1 cid txid ANNOUNCE_MIN;
       p \<leftarrow> copy_into p 16 36 (replicate HASH_LEN 3);
       p \<leftarrow> copy_into p 64 72 (u64_be lft);
       p \<leftarrow> copy_into p 80 84 (u32_be event);
       p \<leftarrow> copy_into p 92 96 (u32_be num_want);
       copy_into p 96 98 (u16_be port)
     }"

definition parse_error_drops :: "mac \<Rightarrow> peer_order \<Rightarrow> unit option" where
  "parse_error_drops mac ord =
     do {
       (s, out, a) \<leftarrow> udp_handle mac T_CI ord store_new (replicate 4 0) T_V4 True 100 1800 [];
       check (a = Drop)
     }"

definition connect_roundtrip_and_numwant_helper :: "mac \<Rightarrow> peer_order \<Rightarrow> unit option" where
  "connect_roundtrip_and_numwant_helper mac ord =
     do {
       pkt \<leftarrow> header 0 PROTOCOL_ID 0xaa MIN_PACKET;
       (s, out, a) \<leftarrow> udp_handle mac T_CI ord store_new pkt T_V4 True 1000 1800 [];
       check (a = Reply 16);
       b \<leftarrow> slice out 8 16;
       let cid = from_be b;
       check (validate mac T_CI cid T_V4 1000);
       check (numwant (- 1) True = NUMWANT_MAX_V4);
       check (numwant (- 1) False = NUMWANT_MAX_V6);
       check (numwant 10 True = 10);
       check (numwant 9999 False = NUMWANT_MAX_V6)
     }"

definition announce_bad_connid_drops :: "mac \<Rightarrow> peer_order \<Rightarrow> unit option" where
  "announce_bad_connid_drops mac ord =
     do {
       pkt \<leftarrow> t_announce 0xbad 0x11 0 0 (- 1) 6881;
       (s, out, a) \<leftarrow> udp_handle mac T_CI ord store_new pkt T_V4 True 1000 1800 [];
       check (a = ConnidMismatch)
     }"

definition announce_v4_seeder_then_leecher_gets_peers :: "mac \<Rightarrow> peer_order \<Rightarrow> unit option" where
  "announce_v4_seeder_then_leecher_gets_peers mac ord =
     do {
       let now = 1000;
       let cid = generate mac T_CI T_V4 now;
       seed \<leftarrow> t_announce cid 0x1 0 0 (- 1) 6881;
       (s, out, a) \<leftarrow> udp_handle mac T_CI ord store_new seed T_V4 True now 1620 [];
       check (a = Reply 26);
       b \<leftarrow> slice out 0 4;
       check (b = u32_be 1);
       b \<leftarrow> slice out 8 12;
       check (b = u32_be 1620);
       b \<leftarrow> slice out 12 16;
       check (b = u32_be 0);
       b \<leftarrow> slice out 16 20;
       check (b = u32_be 1);
       b \<leftarrow> slice out 20 26;
       check (b = [10, 0, 0, 1, 0x1a, 0xe1]);
       let leech_ip = [0, 0, 0, 0, 0, 0, 0, 0, 0, 0, 0xff, 0xff, 10, 0, 0, 2];
       let cid2 = generate mac T_CI leech_ip now;
       leech \<leftarrow> t_announce cid2 0x2 100 2 (- 1) 6882;
       (s, out, a) \<leftarrow> udp_handle mac T_CI ord s leech leech_ip True now 1620 out;
       check (a = Reply 32);
       b \<leftarrow> slice out 12 16;
       check (b = u32_be 1);
       b \<leftarrow> slice out 16 20;
       check (b = u32_be 1);
       b \<leftarrow> slice out 20 26;
       check (b = [10, 0, 0, 2, 0x1a, 0xe2]);
       b \<leftarrow> slice out 26 32;
       check (b = [10, 0, 0, 1, 0x1a, 0xe1])
     }"

definition announce_completed_and_stopped :: "mac \<Rightarrow> peer_order \<Rightarrow> unit option" where
  "announce_completed_and_stopped mac ord =
     do {
       let now = 600;
       let cid = generate mac T_CI T_V4 now;
       don \<leftarrow> t_announce cid 0x3 0 1 (- 1) 6881;
       (s, out, _) \<leftarrow> udp_handle mac T_CI ord store_new don T_V4 True now 1800 [];
       c \<leftarrow> scrape s (replicate HASH_LEN 3);
       check (c_downloaded c = 1);
       stop \<leftarrow> t_announce cid 0x4 0 3 (- 1) 6881;
       (s, out, a) \<leftarrow> udp_handle mac T_CI ord s stop T_V4 True now 1800 out;
       check (a = Reply 20);
       c \<leftarrow> scrape s (replicate HASH_LEN 3);
       check (complete c = 0)
     }"

definition announce_v6_path :: "mac \<Rightarrow> peer_order \<Rightarrow> unit option" where
  "announce_v6_path mac ord =
     do {
       let now = 1000;
       let cid = generate mac T_CI T_V6 now;
       seed \<leftarrow> t_announce cid 0x5 0 0 5 6881;
       (s, out, a) \<leftarrow> udp_handle mac T_CI ord store_new seed T_V6 False now 1620 [];
       check (a = Reply 38);
       c \<leftarrow> scrape s (replicate HASH_LEN 3);
       check (complete c = 1);
       stop \<leftarrow> t_announce cid 0x6 0 3 (- 1) 6881;
       (s, out, a) \<leftarrow> udp_handle mac T_CI ord s stop T_V6 False now 1800 out;
       check (a = Reply 20);
       c \<leftarrow> scrape s (replicate HASH_LEN 3);
       check (complete c = 0)
     }"

definition scrape_roundtrip_and_bad_connid :: "mac \<Rightarrow> peer_order \<Rightarrow> unit option" where
  "scrape_roundtrip_and_bad_connid mac ord =
     do {
       let now = 1000;
       let cid = generate mac T_CI T_V4 now;
       seed \<leftarrow> t_announce cid 0x1 0 0 (- 1) 6881;
       (s, out, _) \<leftarrow> udp_handle mac T_CI ord store_new seed T_V4 True now 1800 [];
       pkt \<leftarrow> header 2 cid 0x9 (MIN_PACKET + HASH_LEN);
       pkt \<leftarrow> copy_into pkt MIN_PACKET (MIN_PACKET + HASH_LEN) (replicate HASH_LEN 3);
       (s, out, a) \<leftarrow> udp_handle mac T_CI ord s pkt T_V4 True now 1800 out;
       check (a = Reply (8 + 12));
       b \<leftarrow> slice out 0 4;
       check (b = u32_be 2);
       b \<leftarrow> slice out 8 12;
       check (b = u32_be 1);
       bad \<leftarrow> header 2 0xbad 0x9 (MIN_PACKET + HASH_LEN);
       (s, out, a) \<leftarrow> udp_handle mac T_CI ord s bad T_V4 True now 1800 out;
       check (a = ConnidMismatch)
     }"

section \<open>The tests pass\<close>

definition t_packet :: "u64 \<Rightarrow> u32 \<Rightarrow> u64 \<Rightarrow> u32 \<Rightarrow> i32 \<Rightarrow> u16 \<Rightarrow> bytes" where
  "t_packet cid tx lft event nw port = u64_be cid @ u32_be 1 @ u32_be tx @ replicate HASH_LEN 3 @
     replicate 28 0 @ u64_be lft @ replicate 8 0 @ u32_be event @ replicate 8 0 @ u32_be nw @ u16_be port"

lemma t_announce_eq: "t_announce cid tx lft event nw port = Some (t_packet cid tx lft event nw port)"
  by (simp add: t_announce_def t_packet_def header_eq ANNOUNCE_MIN_def copy_into_def HASH_LEN_def)

definition t_request :: "u64 \<Rightarrow> u32 \<Rightarrow> u64 \<Rightarrow> u32 \<Rightarrow> i32 \<Rightarrow> u16 \<Rightarrow> announce" where
  "t_request cid tx lft event nw port =
     \<lparr>an_connection_id = cid, an_transaction_id = tx, an_info_hash = replicate HASH_LEN 3,
       an_peer_id = replicate 20 0, an_downloaded = 0, an_left = lft, an_uploaded = 0,
       an_event = from_udp event, an_declared_ip = 0, an_key = 0, an_num_want = nw, an_port = port\<rparr>"

lemma from_be_zeros: "from_be (replicate n 0) = 0"
proof -
  have "be_val (replicate n 0) = 0" by (induction n) (simp_all add: be_val_def)
  then show ?thesis by (simp add: from_be_def)
qed

lemma parse_t_announce:
  "parse (t_packet cid tx lft event nw port) = Some (Inr (Announce (t_request cid tx lft event nw port)))"
  by (simp add: t_packet_def parse_eq announce_fields_def t_request_def from_be_zeros HASH_LEN_def)

lemma generate_valid [simp]: "validate mac ci (generate mac ci ip now) ip now"
  by (simp add: validate_def generate_def Let_def)

lemma write_header:
  "write_announce (replicate 20 0 @ ps) tx interval leech seed [] =
     Some (u32_be 1 @ u32_be tx @ u32_be interval @ u32_be leech @ u32_be seed @ ps, 20)"
  by (simp add: write_announce_eq)

text \<open>The handler on the packets of the tests.\<close>

lemma handle_t_packet:
  assumes "validate mac ci cid ip now"
  shows "udp_handle mac ci ord s (t_packet cid tx lft event nw port) ip v now interval out =
    do {
      (s, c, out) \<leftarrow> udp_apply_announce ord s (t_request cid tx lft event nw port) ip v now (replicate 20 0);
      (out, _) \<leftarrow> write_announce out tx interval (incomplete c) (complete c) [];
      Some (s, out, Reply (length out))
    }"
  using assms by (simp add: udp_handle_def parse_t_announce t_request_def)

text \<open>One seeder and at most one leecher: the order of the table does not matter.\<close>

lemma filter_order_one:
  assumes "iteration_order ord" "filter P es = [x]"
  shows "filter P (ord es) = [x]"
proof -
  have "mset (filter P (ord es)) = mset (filter P es)"
    using assms(1) by (simp add: iteration_order_def)
  with assms(2) have "mset (filter P (ord es)) = {#x#}" by simp
  then show ?thesis by (simp only: mset_single_iff)
qed

lemma filter_order_none:
  assumes "iteration_order ord" "filter P es = []"
  shows "filter P (ord es) = []"
  using iteration_order_set [OF assms(1), of es] assms(2) by (simp add: filter_empty_conv)

lemma port_bytes: "u16_be 6881 = [0x1a, 0xe1]" "u16_be 6882 = [0x1a, 0xe2]"
  by code_simp+

lemma length_T_V4 [simp]: "length T_V4 = 16"
  by (simp add: T_V4_def)

lemma handout_one:
  assumes "iteration_order ord"
  shows "handout (ord [(k, p)]) = [(k, p)]"
  by (cases "is_seed p")
    (simp_all add: handout_def filter_order_one [OF assms] filter_order_none [OF assms])

lemma handout_two:
  assumes "iteration_order ord" "is_seed p" "\<not> is_seed q"
  shows "handout (ord [(k, p), (j, q)]) = [(j, q), (k, p)]"
  using assms(2,3) by (simp add: handout_def filter_order_one [OF assms(1)])

lemmas udp_eval = test_eval t_announce_eq handle_t_packet udp_apply_announce_def key_eq peer_key_def
  t_request_def udp_flags_def from_udp_def numwant_def numwant_defs write_compact_eq write_header
  write_header [of "[]", simplified] slice_def

lemma parse_error_drops_passes: "parse_error_drops mac ord = Some ()"
  by (simp add: parse_error_drops_def udp_handle_def parse_eq)

lemma connect_roundtrip_and_numwant_helper_passes: "connect_roundtrip_and_numwant_helper mac ord = Some ()"
  by (simp add: connect_roundtrip_and_numwant_helper_def udp_handle_def parse_eq header_eq size_defs
      write_connect_eq slice_def numwant_def numwant_defs word_sless_alt)

lemma announce_bad_connid_drops_passes:
  assumes "for_window mac T_CI T_V4 7 \<noteq> 0xbad" "for_window mac T_CI T_V4 8 \<noteq> 0xbad"
  shows "announce_bad_connid_drops mac ord = Some ()"
  using assms
  by (simp add: announce_bad_connid_drops_def t_announce_eq udp_handle_def parse_t_announce t_request_def
      validate_def T_CI_def connid_new_def eq_commute [of "0xbad"])

lemma announce_completed_and_stopped_passes:
  assumes "iteration_order ord"
  shows "announce_completed_and_stopped mac ord = Some ()"
  by (simp add: announce_completed_and_stopped_def udp_eval T_V4_def test_ops handout_one [OF assms])

lemma announce_v6_path_passes:
  assumes "iteration_order ord"
  shows "announce_v6_path mac ord = Some ()"
  by (simp add: announce_v6_path_def udp_eval T_V6_def test_ops handout_one [OF assms])

lemma announce_v4_seeder_then_leecher_gets_peers_passes:
  assumes "iteration_order ord"
  shows "announce_v4_seeder_then_leecher_gets_peers mac ord = Some ()"
  by (simp add: announce_v4_seeder_then_leecher_gets_peers_def udp_eval T_V4_def test_ops
      handout_one [OF assms] handout_two [OF assms] port_bytes seeding_def)

definition t_scrape :: "u64 \<Rightarrow> u32 \<Rightarrow> u8 \<Rightarrow> bytes" where
  "t_scrape cid tx b = u64_be cid @ u32_be 2 @ u32_be tx @ replicate HASH_LEN b"

lemma parse_t_scrape:
  "parse (t_scrape cid tx b) = Some (Inr (Scrape
     \<lparr>sc_connection_id = cid, sc_transaction_id = tx, sc_hashes = replicate HASH_LEN b\<rparr>))"
  by (simp add: t_scrape_def parse_eq scrape_fields_def HASH_LEN_def)

lemma scrape_packets:
  "header 2 cid tx (MIN_PACKET + HASH_LEN) = Some (t_scrape cid tx 0)"
  "copy_into (t_scrape cid tx 0) MIN_PACKET (MIN_PACKET + HASH_LEN) (replicate HASH_LEN 3) =
     Some (t_scrape cid tx 3)"
  by (simp_all add: header_eq t_scrape_def size_defs copy_into_def)

lemma iter_hashes_one:
  "iter_hashes \<lparr>sc_connection_id = cid, sc_transaction_id = tx, sc_hashes = replicate HASH_LEN b\<rparr> =
     Some [replicate HASH_LEN b]"
  by (simp add: iter_hashes_eq HASH_LEN_def chunks_exact.simps)

lemma scrape_roundtrip_and_bad_connid_passes:
  assumes "iteration_order ord"
    and "for_window mac T_CI T_V4 7 \<noteq> 0xbad" "for_window mac T_CI T_V4 8 \<noteq> 0xbad"
  shows "scrape_roundtrip_and_bad_connid mac ord = Some ()"
proof -
  have "\<not> validate mac T_CI 0xbad T_V4 1000"
    using assms(2,3) by (simp add: validate_def T_CI_def connid_new_def eq_commute [of "0xbad"])
  then show ?thesis
    by (simp add: scrape_roundtrip_and_bad_connid_def udp_eval test_ops handout_one [OF assms(1)]
        scrape_packets)
      (simp add: udp_handle_def parse_t_scrape iter_hashes_one scrape_entry_def test_eval test_ops
        write_scrape_def copy_into_def slice_def)
qed

end
