(* ===== verification/Test_Http.thy ===== *)
theory Test_Http
  imports Http_Handler Test_Udp
begin

text \<open>
  The unit tests of crates/bf-http/src/lib.rs, run on the model. The tests look for ASCII texts in a
  body that was decoded lossily; such a text occurs in the decoded body where it occurs in the bytes,
  so the searches are over the bytes.
\<close>

definition H_V4 :: bytes where "H_V4 = [0, 0, 0, 0, 0, 0, 0, 0, 0, 0, 0xff, 0xff, 10, 0, 0, 5]"
definition H_V6 :: bytes where "H_V6 = [0x20, 0x01, 0, 0, 0, 0, 0, 0, 0, 0, 0, 0, 0, 0, 0, 9]"
definition IH :: bytes where "IH = str ''AAAAAAAAAAAAAAAAAAAA''"

definition body :: "http_response \<Rightarrow> bytes option" where
  "body r = (case r of Body b \<Rightarrow> Some b | _ \<Rightarrow> None)"

definition body_helper_requires_body_variant :: "bytes option" where
  "body_helper_requires_body_variant = body NotFound"

definition to_hash_requires_exact_len :: "info_hash option" where
  "to_hash_requires_exact_len = to_hash (replicate 5 0)"

definition percent_decode_cases :: "unit option" where
  "percent_decode_cases =
     do {
       let (ok, out) = percent_decode (str ''a+b%20%41'') [];
       check ok;
       check (out = str ''a b A'');
       let (ok, out) = percent_decode (str ''%4'') [];
       check (\<not> ok);
       let (ok, out) = percent_decode (str ''%zz'') [];
       check (\<not> ok)
     }"

definition dispatch_redirect_and_notfound :: "itoa \<Rightarrow> peer_order \<Rightarrow> unit option" where
  "dispatch_redirect_and_notfound itoa ord =
     do {
       let s = store_new;
       (s, r) \<leftarrow> http_handle itoa ord s (str ''/'') H_V4 True 10 1800;
       check (r = Redirect);
       (s, r) \<leftarrow> http_handle itoa ord s (str ''/nope'') H_V4 True 10 1800;
       check (r = NotFound)
     }"

definition announce_missing_info_hash_is_failure_body :: "itoa \<Rightarrow> peer_order \<Rightarrow> unit option" where
  "announce_missing_info_hash_is_failure_body itoa ord =
     do {
       (s, r) \<leftarrow> http_handle itoa ord store_new (str ''/announce?port=6881'') H_V4 True 10 1800;
       text \<leftarrow> body r;
       check (text_contains text (str ''failure reason''))
     }"

definition announce_v4_roundtrip :: "itoa \<Rightarrow> peer_order \<Rightarrow> unit option" where
  "announce_v4_roundtrip itoa ord =
     do {
       let q = str ''/announce?info_hash='' @ IH @
         str ''&port=6881&left=0&numwant=30&event=started&compact=1&x=y'';
       (s, r) \<leftarrow> http_handle itoa ord store_new q H_V4 True 10 1620;
       text \<leftarrow> body r;
       check (text_contains text (str ''8:completei1e''));
       check (text_contains text (str ''8:intervali1620e''));
       check (text_contains text (str ''12:min intervali810e''));
       check (text_contains text (str ''5:peers6:''));
       let stop = str ''/announce?info_hash='' @ IH @ str ''&port=6881&event=stopped'';
       (s, r) \<leftarrow> http_handle itoa ord s stop H_V4 True 10 1800;
       _ \<leftarrow> body r;
       c \<leftarrow> scrape s (replicate HASH_LEN 0x41);
       check (complete c = 0)
     }"

definition announce_v6_and_stopped_and_completed :: "itoa \<Rightarrow> peer_order \<Rightarrow> unit option" where
  "announce_v6_and_stopped_and_completed itoa ord =
     do {
       let hash = replicate HASH_LEN 0x41;
       let q = str ''/announce?info_hash='' @ IH @ str ''&port=6881&left=0&event=completed'';
       (s, r) \<leftarrow> http_handle itoa ord store_new q H_V6 False 10 1800;
       _ \<leftarrow> body r;
       c \<leftarrow> scrape s hash;
       check (c_downloaded c = 1);
       let q = str ''/announce?info_hash='' @ IH @ str ''&port=6881&event=stopped'';
       (s, r) \<leftarrow> http_handle itoa ord s q H_V6 False 10 1800;
       _ \<leftarrow> body r;
       c \<leftarrow> scrape s hash;
       check (complete c = 0)
     }"

definition announce_rejects_compact_zero_bad_port_and_bad_hash :: "itoa \<Rightarrow> peer_order \<Rightarrow> unit option" where
  "announce_rejects_compact_zero_bad_port_and_bad_hash itoa ord =
     do {
       let s = store_new;
       (s, r) \<leftarrow> http_handle itoa ord s (str ''/announce?info_hash='' @ IH @ str ''&port=1&compact=0'')
         H_V4 True 10 1800;
       check (r = BadRequest);
       (s, r) \<leftarrow> http_handle itoa ord s (str ''/announce?info_hash='' @ IH @ str ''&port=99999'')
         H_V4 True 10 1800;
       check (r = BadRequest);
       (s, r) \<leftarrow> http_handle itoa ord s (str ''/announce?info_hash=tooshort&port=1'') H_V4 True 10 1800;
       check (r = BadRequest)
     }"

definition scrape_roundtrip_and_bad_hash :: "itoa \<Rightarrow> peer_order \<Rightarrow> unit option" where
  "scrape_roundtrip_and_bad_hash itoa ord =
     do {
       let q = str ''/announce?info_hash='' @ IH @ str ''&port=6881&left=0'';
       (s, r) \<leftarrow> http_handle itoa ord store_new q H_V4 True 10 1800;
       _ \<leftarrow> body r;
       (s, r) \<leftarrow> http_handle itoa ord s (str ''/scrape?info_hash='' @ IH @ str ''&extra=1'') H_V4 True 10 1800;
       text \<leftarrow> body r;
       check (text_starts_with text (str ''d5:filesd20:AAAAAAAAAAAAAAAAAAAA''));
       check (text_contains text (str ''8:completei1e''));
       (s, r) \<leftarrow> http_handle itoa ord s (str ''/scrape'') H_V4 True 10 1800;
       text \<leftarrow> body r;
       check (text = str ''d5:filesdee'');
       (s, r) \<leftarrow> http_handle itoa ord s (str ''/scrape?info_hash=x'') H_V4 True 10 1800;
       check (r = BadRequest)
     }"

text \<open>\<open>str::matches(pat).count()\<close>: the matches that do not overlap, from the left.\<close>

function match_count :: "bytes \<Rightarrow> bytes \<Rightarrow> nat" where
  "match_count pat text =
     (if text = [] \<or> pat = [] then 0
      else if text_starts_with text pat then Suc (match_count pat (drop (length pat) text))
      else match_count pat (tl text))"
  by pat_completeness auto
termination
  by (relation "measure (\<lambda>(pat, text). length text)") (auto simp: neq_Nil_conv)

declare match_count.simps [simp del]

definition scrape_caps_hash_count :: "itoa \<Rightarrow> peer_order \<Rightarrow> unit option" where
  "scrape_caps_hash_count itoa ord =
     do {
       let q = str ''/scrape?info_hash='' @ IH;
       let q = foldl (\<lambda>q _. (q @ str ''&info_hash='') @ IH) q [0..<HTTP_MAX_SCRAPE_HASHES + 3];
       (s, r) \<leftarrow> http_handle itoa ord store_new q H_V4 True 10 1800;
       text \<leftarrow> body r;
       check (match_count (str ''20:AAAAAAAAAAAAAAAAAAAA'') text = HTTP_MAX_SCRAPE_HASHES)
     }"

section \<open>The tests pass\<close>

lemma IH_eq: "IH = replicate HASH_LEN 0x41" "IH = replicate 20 0x41"
  by (simp_all add: IH_def str_def HASH_LEN_def numeral_eq_Suc)

lemma body_helper_requires_body_variant_panics: "body_helper_requires_body_variant = None"
  by (simp add: body_helper_requires_body_variant_def body_def)

lemma to_hash_requires_exact_len_panics: "to_hash_requires_exact_len = None"
  by (simp add: to_hash_requires_exact_len_def to_hash_def HASH_LEN_def)

lemma percent_decode_cases_passes: "percent_decode_cases = Some ()"
  by (simp add: percent_decode_cases_def str_def hex_val_def word_le_nat_alt)

lemma dispatch_redirect_and_notfound_passes: "dispatch_redirect_and_notfound itoa ord = Some ()"
  by (simp add: dispatch_redirect_and_notfound_def http_handle_def str_def)

text \<open>The parameters of the announce targets, read by evaluation.\<close>

lemmas query_eval = query_pairs_def announce_param_def params_init_def parse_uint_def is_digit_def
  u16_max_def u64_max_def to_hash_def HASH_LEN_def NUMWANT_MAX_def NUMWANT_DEFAULT_def str_def IH_def

abbreviation (input) read_query :: "bytes \<Rightarrow> (http_response + http_params) option" where
  "read_query q \<equiv> announce_params params_init (query_pairs q)"

lemma read_started:
  "read_query (str ''info_hash='' @ IH @ str ''&port=6881&left=0&numwant=30&event=started&compact=1&x=y'') =
     Some (Inr \<lparr>hp_info_hash = Some IH, hp_port = Some 6881, hp_left = 0, hp_event = str ''started'',
       hp_numwant = 30\<rparr>)"
  by (simp add: query_eval)

lemma read_stopped:
  "read_query (str ''info_hash='' @ IH @ str ''&port=6881&event=stopped'') =
     Some (Inr \<lparr>hp_info_hash = Some IH, hp_port = Some 6881, hp_left = 1, hp_event = str ''stopped'',
       hp_numwant = 50\<rparr>)"
  by (simp add: query_eval)

lemma read_completed:
  "read_query (str ''info_hash='' @ IH @ str ''&port=6881&left=0&event=completed'') =
     Some (Inr \<lparr>hp_info_hash = Some IH, hp_port = Some 6881, hp_left = 0, hp_event = str ''completed'',
       hp_numwant = 50\<rparr>)"
  by (simp add: query_eval)

lemma read_seeding:
  "read_query (str ''info_hash='' @ IH @ str ''&port=6881&left=0'') =
     Some (Inr \<lparr>hp_info_hash = Some IH, hp_port = Some 6881, hp_left = 0, hp_event = [], hp_numwant = 50\<rparr>)"
  by (simp add: query_eval)

lemma read_rejected:
  "read_query (str ''info_hash='' @ IH @ str ''&port=1&compact=0'') = Some (Inl BadRequest)"
  "read_query (str ''info_hash='' @ IH @ str ''&port=99999'') = Some (Inl BadRequest)"
  "read_query (str ''info_hash=tooshort&port=1'') = Some (Inl BadRequest)"
  by (simp_all add: query_eval)

lemma announce_target:
  "http_handle itoa ord s (str ''/announce?info_hash='' @ q) ip v now interval =
     http_announce itoa ord s (str ''info_hash='' @ q) ip v now interval"
  by (simp add: http_handle_def str_def)

lemma announce_target_short:
  "http_handle itoa ord s (str ''/announce?info_hash=tooshort&port=1'') ip v now interval =
     http_announce itoa ord s (str ''info_hash=tooshort&port=1'') ip v now interval"
  "http_handle itoa ord s (str ''/announce?port=6881'') ip v now interval =
     http_announce itoa ord s (str ''port=6881'') ip v now interval"
  by (simp_all add: http_handle_def str_def)

lemma event_texts:
  "str ''completed'' \<noteq> str ''stopped''" "str ''started'' \<noteq> str ''stopped''" "str ''stopped'' \<noteq> []"
  "str ''started'' \<noteq> str ''completed''" "[] \<noteq> str ''stopped''" "[] \<noteq> str ''completed''"
  "str ''stopped'' \<noteq> str ''completed''"
  by (simp_all add: str_def)

lemmas target_eval = event_texts announce_target announce_target_short http_announce_def http_apply_def
  http_key_eq peer_key_def http_flags_def test_eval body_def write_compact_eq

lemma length_H [simp]: "length H_V4 = 16" "length H_V6 = 16"
  by (simp_all add: H_V4_def H_V6_def)

lemma announce_missing_info_hash_is_failure_body_passes:
  assumes "itoa_decimal itoa"
  shows "announce_missing_info_hash_is_failure_body itoa ord = Some ()"
  using assms
  by (simp add: announce_missing_info_hash_is_failure_body_def http_handle_def http_announce_def
      query_eval body_def failure_eq dec_eval text_starts_with_def)

lemma announce_rejects_compact_zero_bad_port_and_bad_hash_passes:
  "announce_rejects_compact_zero_bad_port_and_bad_hash itoa ord = Some ()"
  by (simp add: announce_rejects_compact_zero_bad_port_and_bad_hash_def target_eval read_rejected)

lemma announce_v6_and_stopped_and_completed_passes:
  "announce_v6_and_stopped_and_completed itoa ord = Some ()"
  by (simp add: announce_v6_and_stopped_and_completed_def target_eval read_completed read_stopped
      test_ops flip: IH_eq)

lemma announce_v4_roundtrip_passes:
  assumes "itoa_decimal itoa" "iteration_order ord"
  shows "announce_v4_roundtrip itoa ord = Some ()"
proof -
  let ?b = "announce_response itoa [] \<lparr>complete = 1, incomplete = 0, c_downloaded = 0\<rparr> 1620
    (drop 12 H_V4 @ u16_be 6881) []"
  have "text_contains ?b (str ''8:completei1e'') \<and> text_contains ?b (str ''8:intervali1620e'') \<and>
      text_contains ?b (str ''12:min intervali810e'') \<and> text_contains ?b (str ''5:peers6:'')"
    by (simp add: announce_response_eq [OF assms(1)] announce_dict_def dec_eval text_starts_with_def str_def
        H_V4_def port_bytes)
  then show ?thesis
    by (simp add: announce_v4_roundtrip_def target_eval read_started read_stopped
        test_ops handout_one [OF assms(2)] flip: IH_eq)
qed

lemma scrape_target:
  "http_handle itoa ord s (str ''/scrape?info_hash='' @ q) ip v now interval =
     map_option (\<lambda>r. (s, r)) (http_scrape itoa s (str ''info_hash='' @ q))"
  "http_handle itoa ord s (str ''/scrape'') ip v now interval =
     map_option (\<lambda>r. (s, r)) (http_scrape itoa s [])"
  "http_handle itoa ord s (str ''/scrape?info_hash=x'') ip v now interval =
     map_option (\<lambda>r. (s, r)) (http_scrape itoa s (str ''info_hash=x''))"
  by (simp_all add: http_handle_def str_def)

lemma scrape_queries:
  "scrape_files s [] (query_pairs (str ''info_hash='' @ IH @ str ''&extra=1'')) =
     map_option (\<lambda>c. Inr [(IH, c)]) (scrape s IH)"
  "scrape_files s [] (query_pairs []) = Some (Inr [])"
  "scrape_files s [] (query_pairs (str ''info_hash=x'')) = Some (Inl BadRequest)"
  by (simp_all add: query_eval HTTP_MAX_SCRAPE_HASHES_def map_conv_bind_option comp_def)

lemma scrape_roundtrip_and_bad_hash_passes:
  assumes "itoa_decimal itoa"
  shows "scrape_roundtrip_and_bad_hash itoa ord = Some ()"
proof -
  let ?b = "scrape_response itoa [] [(IH, \<lparr>complete = 1, incomplete = 0, c_downloaded = 0\<rparr>)]"
  have b: "text_starts_with ?b (str ''d5:filesd20:AAAAAAAAAAAAAAAAAAAA'')" "text_contains ?b (str ''8:completei1e'')"
    using assms by (simp_all add: scrape_response_eq file_dict_def dec_eval text_starts_with_def str_def IH_def)
  have e: "scrape_response itoa [] [] = str ''d5:filesdee''"
    using assms by (simp add: scrape_response_eq dec_eval str_def)
  show ?thesis
    using b e by (simp add: scrape_roundtrip_and_bad_hash_def target_eval read_seeding scrape_target
        scrape_queries http_scrape_def test_ops flip: IH_eq)
qed

text \<open>The scrape of 79 hashes: its query, the 75 entries read, and the matches in the body.\<close>

abbreviation "IH_pair \<equiv> (str ''info_hash'', IH)"

lemma cap_query:
  "foldl (\<lambda>q _. q @ str ''&info_hash='' @ IH) q (is :: nat list) =
     q @ concat (replicate (length is) (str ''&info_hash='' @ IH))"
  by (induction "is" arbitrary: q) simp_all

lemma cap_join:
  "str ''info_hash='' @ IH @ concat (replicate n (str ''&info_hash='' @ IH)) = join_query (replicate (Suc n) IH_pair)"
proof (induction n)
  case (Suc n)
  then show ?case by (simp add: str_def)
qed (simp add: str_def)

lemma cap_pairs: "query_pairs (join_query (replicate n IH_pair)) = replicate n IH_pair"
proof (rule query_pairs_join)
  have "pair_ok IH_pair" by (simp add: pair_ok_def str_def IH_def)
  then show "\<forall>kv \<in> set (replicate n IH_pair). pair_ok kv" by simp
qed

lemma cap_files:
  "length files \<le> 75 \<Longrightarrow>
   scrape_files store_new files (replicate n IH_pair) =
     Some (Inr (files @ replicate (min n (75 - length files)) (IH, counts_default)))"
proof (induction n arbitrary: files)
  case (Suc n)
  have d: "percent_decode IH [] = (True, IH)" "length IH = HASH_LEN"
    by (simp_all add: IH_def str_def HASH_LEN_def)
  show ?case
  proof (cases "length files = 75")
    case False
    with Suc.prems have "min (Suc n) (75 - length files) = Suc (min n (75 - Suc (length files)))" by linarith
    with False Suc show ?thesis
      by (simp add: d HTTP_MAX_SCRAPE_HASHES_def to_hash_def test_eval)
  qed (simp add: HTTP_MAX_SCRAPE_HASHES_def)
qed simp

abbreviation "IH_text \<equiv> str ''20:AAAAAAAAAAAAAAAAAAAA''"
abbreviation "IH_entry \<equiv> dec 20 @ 0x3a # IH @ bser (BDict (file_dict counts_default))"

lemma match_skip: "c \<noteq> 0x32 \<Longrightarrow> match_count IH_text (c # text) = match_count IH_text text"
  by (subst match_count.simps) (simp add: text_starts_with_def str_def)

lemma match_hit: "match_count IH_text (IH_text @ text) = Suc (match_count IH_text text)"
  by (subst match_count.simps) (simp add: text_starts_with_def str_def)

lemma match_entry: "match_count IH_text (IH_entry @ text) = Suc (match_count IH_text text)"
proof -
  have eq: "IH_entry @ text = IH_text @ bser (BDict (file_dict counts_default)) @ text"
    by (simp add: dec_eval str_def IH_def)
  show ?thesis
    unfolding eq match_hit
    by (simp add: match_skip file_dict_def counts_default_def dec_eval str_def [of "''complete''"]
        str_def [of "''downloaded''"] str_def [of "''incomplete''"])
qed

lemma match_entries:
  "match_count IH_text (concat (replicate n IH_entry) @ text) = n + match_count IH_text text"
proof (induction n)
  case (Suc n)
  with match_entry [of "concat (replicate n IH_entry) @ text"] show ?case by (simp del: bser.simps)
qed simp

lemma scrape_caps_hash_count_passes:
  assumes "itoa_decimal itoa"
  shows "scrape_caps_hash_count itoa ord = Some ()"
proof -
  let ?fs = "replicate 75 (IH, counts_default)"
  let ?b = "scrape_response itoa [] ?fs"
  have "?b = bser (BDict [(str ''files'', BDict (map (\<lambda>f. (fst f, BDict (file_dict (snd f)))) ?fs))])"
    using scrape_response_eq [OF assms, of ?fs "[]"] by (simp add: IH_def)
  also have "\<dots> = str ''d5:filesd'' @ concat (replicate 75 IH_entry) @ str ''ee''"
    by (simp add: dec_eval comp_def map_replicate_const str_def IH_def)
  finally have b: "match_count IH_text ?b = 75"
    by (simp add: str_def [of "''d5:filesd''"] match_skip match_entries str_def [of "''ee''"]
        match_count.simps [of _ "[]"] del: bser.simps)
  show ?thesis
    using cap_join [of "HTTP_MAX_SCRAPE_HASHES + 3"] b
    by (simp add: scrape_caps_hash_count_def cap_query scrape_target http_scrape_def cap_pairs cap_files
        body_def HTTP_MAX_SCRAPE_HASHES_def)
qed

end
