(* ===== verification/Test_L7.thy ===== *)
theory Test_L7
  imports L7_Detector Test_Core
begin

text \<open>
  The unit tests of crates/bf-l7/src/lib.rs, run on the model, for every iteration order of the
  hash tables.
\<close>

definition L_IP :: ip16 where "L_IP = [0, 0, 0, 0, 0, 0, 0, 0, 0, 0, 0xff, 0xff, 1, 2, 3, 4]"
definition L_H1 :: info_hash where "L_H1 = replicate 20 1"
definition L_H2 :: info_hash where "L_H2 = replicate 20 2"
definition GOOD_PEER :: peer_id where "GOOD_PEER = map of_char ''-qB5000-abcdefghijkl''"
definition BAD_PEER :: peer_id where "BAD_PEER = replicate 20 0"

definition clean_info :: "info_hash \<Rightarrow> peer_id \<Rightarrow> announce_info" where
  "clean_info h peer =
     \<lparr>ai_info_hash = h, ai_peer_id = peer, ai_key = 0x12345678, ai_declared_ip = 0, ai_port = 6881,
      ai_left = 100, ai_downloaded = 10, ai_uploaded = 5, ai_num_want = 50,
      ai_source_is_public = True, ai_swarm_peers = 5\<rparr>"

definition quiet :: l7_config where
  "quiet = l7_config_default\<lparr>weight_interval := 0, weight_connid := 0, weight_peerid := 0,
     weight_bad_key := 0, weight_declared_ip := 0, weight_bad_port := 0, weight_fake_seeder := 0,
     weight_key_churn := 0, weight_peerid_churn := 0, weight_numwant := 0, weight_breadth := 0,
     weight_empty_swarm := 0, weight_scrape_volume := 0, decay_amount := 0\<rparr>"

definition is_ban :: "verdict \<Rightarrow> bool" where
  "is_ban v = (case v of Ban _ _ \<Rightarrow> True | Allow \<Rightarrow> False)"

definition is_ban_tier :: "u32 \<Rightarrow> verdict \<Rightarrow> bool" where
  "is_ban_tier t v = (case v of Ban _ tier \<Rightarrow> tier = t | Allow \<Rightarrow> False)"

section \<open>A detector that knows one source\<close>

definition solo :: "l7_config \<Rightarrow> client \<Rightarrow> (ip16, offender) table \<Rightarrow> detector" where
  "solo cfg c reg =
     (detector_new cfg)\<lparr>clients := (replicate SHARDS [])[4 := [(L_IP, c)]], offenders := reg\<rparr>"

lemma solo_sel [simp]: "config (detector_new cfg) = cfg" "config (solo cfg c reg) = cfg" "offenders (solo cfg c reg) = reg"
  by (simp_all add: solo_def detector_new_def)

lemma shard_no_L: "shard_no L_IP = 4"
  by (simp add: shard_no_def L_IP_def SHARDS_def)

named_theorems l7_test

definition fresh :: "l7_config \<Rightarrow> u32 \<Rightarrow> client" where
  "fresh cfg now = (decay (client_new now) now (decay_amount cfg) (decay_interval cfg))\<lparr>last_gap := - 1\<rparr>"

lemma shard_at_test [l7_test]:
  "client_shard_at (detector_new cfg) L_IP = Some []"
  "client_shard_at (solo cfg c reg) L_IP = Some [(L_IP, c)]"
  by (simp_all add: client_shard_at_def shard_no_L detector_new_def solo_def SHARDS_def)

lemma cap_pos: "per_shard_cap (detector_new cfg) \<noteq> 0"
  by (simp add: detector_new_def)

lemma touch_test [l7_test]:
  "touch oc (detector_new cfg) [] L_IP now = ([], fresh cfg now)"
  "touch oc (solo cfg c reg) [(L_IP, c)] L_IP now =
     ([(L_IP, c)], decay c now (decay_amount cfg) (decay_interval cfg))"
  by (simp_all add: touch_def fresh_def evict_oldest_def cap_pos detector_new_def)

lemma put_test [l7_test]:
  "put_client (detector_new cfg) [] L_IP c' = solo cfg c' []"
  "put_client (solo cfg c reg) [(L_IP, c)] L_IP c' = solo cfg c' reg"
  by (simp_all add: put_client_def solo_def detector_new_def shard_no_L SHARDS_def)

lemma solo_update [simp]: "solo cfg c reg\<lparr>offenders := reg'\<rparr> = solo cfg c reg'"
  by (simp add: solo_def)

lemma decide_test [l7_test]:
  "0 < max_offenders cfg \<Longrightarrow> decide oo (solo cfg c []) L_IP ban now =
     (if ban then (solo cfg c [(L_IP, \<lparr>of_offenses = 1, of_last = now\<rparr>)], Ban (ban_duration cfg) 0)
      else (solo cfg c [], Allow))"
  "decide oo (solo cfg c [(L_IP, e)]) L_IP ban now =
     (if ban then (solo cfg c [(L_IP, \<lparr>of_offenses = sat_add (of_offenses e) 1, of_last = now\<rparr>)],
        Ban (ban_duration cfg) (min (sat_add (of_offenses e) 1 - 1) (sat_sub (ban_tiers cfg) 1)))
      else (solo cfg c [(L_IP, e)], Allow))"
  by (cases e; simp add: decide_def record_offence_def Let_def evict_oldest_def sat_add_def)+

lemma count_test [l7_test]:
  "tracked (solo cfg c reg) = 1" "offender_count (solo cfg c reg) = length reg"
  by (simp_all add: tracked_def offender_count_def solo_def detector_new_def SHARDS_def map_update
      sum_list_update)

lemmas l7_handlers = on_connid_mismatch_def on_announce_def on_scrape_def on_connect_def
lemmas l7_state = Let_def fresh_def client_new_def decay_def crosses_def sat_add_def sat_sub_def sat_mul_def
  is_ban_def is_ban_tier_def
lemmas l7_configs = quiet_def l7_config_default_def

section \<open>Connection ids and bans\<close>

definition connid_mismatches_accumulate_to_a_ban ::
  "client_order \<Rightarrow> offender_order \<Rightarrow> unit option" where
  "connid_mismatches_accumulate_to_a_ban oc oo =
     do {
       let d = detector_new (l7_config_default\<lparr>weight_connid := 60, decay_amount := 0\<rparr>);
       (d, v) \<leftarrow> on_connid_mismatch oc oo d L_IP 1000;
       check (v = Allow);
       (d, v) \<leftarrow> on_connid_mismatch oc oo d L_IP 1000;
       check (is_ban_tier 0 v)
     }"

definition score_decays_over_time :: "client_order \<Rightarrow> offender_order \<Rightarrow> unit option" where
  "score_decays_over_time oc oo =
     do {
       let d = detector_new (l7_config_default\<lparr>weight_connid := 90, decay_amount := 10, decay_interval := 1\<rparr>);
       (d, _) \<leftarrow> on_connid_mismatch oc oo d L_IP 1000;
       (d, v) \<leftarrow> on_connid_mismatch oc oo d L_IP 1005;
       check (is_ban v);
       let ip2 = [0, 0, 0, 0, 0, 0, 0, 0, 0, 0, 0xff, 0xff, 9, 9, 9, 9];
       (d, _) \<leftarrow> on_connid_mismatch oc oo d ip2 1000;
       (d, v) \<leftarrow> on_connid_mismatch oc oo d ip2 2000;
       check (v = Allow)
     }"

definition rebans_after_the_cooldown_even_with_a_high_score ::
  "client_order \<Rightarrow> offender_order \<Rightarrow> unit option" where
  "rebans_after_the_cooldown_even_with_a_high_score oc oo =
     do {
       let d = detector_new (quiet\<lparr>weight_connid := 500, decay_amount := 0, reban_cooldown := 100\<rparr>);
       (d, v) \<leftarrow> on_connid_mismatch oc oo d L_IP 1000;
       check (is_ban_tier 0 v);
       (d, v) \<leftarrow> on_connid_mismatch oc oo d L_IP 1050;
       check (v = Allow);
       (d, v) \<leftarrow> on_connid_mismatch oc oo d L_IP 1101;
       check (is_ban_tier 1 v)
     }"

text \<open>A loop of mismatches that collects the tiers of the bans.\<close>

fun collect_tiers ::
  "client_order \<Rightarrow> offender_order \<Rightarrow> detector \<Rightarrow> u32 list \<Rightarrow> u32 list \<Rightarrow> (detector \<times> u32 list) option" where
  "collect_tiers oc oo d [] tiers = Some (d, tiers)"
| "collect_tiers oc oo d (round # rs) tiers =
     do {
       let now = 1000 + round * 101;
       (d, v) \<leftarrow> on_connid_mismatch oc oo d L_IP now;
       collect_tiers oc oo d rs (case v of Ban _ tier \<Rightarrow> tiers @ [tier] | Allow \<Rightarrow> tiers)
     }"

definition repeat_offences_escalate_then_cap :: "client_order \<Rightarrow> offender_order \<Rightarrow> unit option" where
  "repeat_offences_escalate_then_cap oc oo =
     do {
       let d = detector_new (quiet\<lparr>weight_connid := 500, decay_amount := 0, reban_cooldown := 100, ban_tiers := 4\<rparr>);
       (d, tiers) \<leftarrow> collect_tiers oc oo d [0, 1, 2, 3, 4, 5] [];
       check (tiers = [0, 1, 2, 3, 3, 3]);
       check (offender_count d = 1)
     }"

definition decay_applies_only_in_whole_intervals :: "client_order \<Rightarrow> offender_order \<Rightarrow> unit option" where
  "decay_applies_only_in_whole_intervals oc oo =
     do {
       let d = detector_new (quiet\<lparr>weight_connid := 60, decay_amount := 50, decay_interval := 60\<rparr>);
       (d, v) \<leftarrow> on_connid_mismatch oc oo d L_IP 1000;
       check (v = Allow);
       (d, v) \<leftarrow> on_connid_mismatch oc oo d L_IP 1030;
       check (is_ban v)
     }"

definition whole_intervals_of_silence_decay_the_score :: "client_order \<Rightarrow> offender_order \<Rightarrow> unit option" where
  "whole_intervals_of_silence_decay_the_score oc oo =
     do {
       let d = detector_new (quiet\<lparr>weight_connid := 60, decay_amount := 50, decay_interval := 60\<rparr>);
       (d, _) \<leftarrow> on_connid_mismatch oc oo d L_IP 1000;
       (d, v) \<leftarrow> on_connid_mismatch oc oo d L_IP 1130;
       check (v = Allow)
     }"

lemma connid_mismatches_accumulate_to_a_ban_passes: "connid_mismatches_accumulate_to_a_ban oc oo = Some ()"
  by (simp add: connid_mismatches_accumulate_to_a_ban_def l7_handlers l7_test l7_state l7_configs)

lemma rebans_after_the_cooldown_even_with_a_high_score_passes:
  "rebans_after_the_cooldown_even_with_a_high_score oc oo = Some ()"
  by (simp add: rebans_after_the_cooldown_even_with_a_high_score_def l7_handlers l7_test l7_state l7_configs)

lemma repeat_offences_escalate_then_cap_passes: "repeat_offences_escalate_then_cap oc oo = Some ()"
  by (simp add: repeat_offences_escalate_then_cap_def l7_handlers l7_test l7_state l7_configs)

lemma decay_applies_only_in_whole_intervals_passes: "decay_applies_only_in_whole_intervals oc oo = Some ()"
  by (simp add: decay_applies_only_in_whole_intervals_def l7_handlers l7_test l7_state l7_configs)

lemma whole_intervals_of_silence_decay_the_score_passes:
  "whole_intervals_of_silence_decay_the_score oc oo = Some ()"
  by (simp add: whole_intervals_of_silence_decay_the_score_def l7_handlers l7_test l7_state l7_configs)

section \<open>Announces\<close>

definition known_client_detection :: "unit option" where
  "known_client_detection =
     do {
       check (is_known_client GOOD_PEER);
       check (is_known_client (map of_char ''M5-1-2--abcdefghijkl''));
       check (\<not> is_known_client BAD_PEER)
     }"

definition clean_announce_is_allowed :: "client_order \<Rightarrow> offender_order \<Rightarrow> unit option" where
  "clean_announce_is_allowed oc oo =
     do {
       let d = detector_new l7_config_default;
       (d, v) \<leftarrow> on_announce oc oo d L_IP (clean_info L_H1 GOOD_PEER) 1000;
       check (v = Allow);
       check (tracked d = 1);
       check (offender_count d = 0)
     }"

definition trivial_key_scores :: "client_order \<Rightarrow> offender_order \<Rightarrow> unit option" where
  "trivial_key_scores oc oo =
     do {
       let d = detector_new (quiet\<lparr>weight_bad_key := 100\<rparr>);
       let a = (clean_info L_H1 GOOD_PEER)\<lparr>ai_key := 0\<rparr>;
       (d, v) \<leftarrow> on_announce oc oo d L_IP a 1000;
       check (is_ban v);
       let d2 = detector_new (quiet\<lparr>weight_bad_key := 100\<rparr>);
       let b = (clean_info L_H1 GOOD_PEER)\<lparr>ai_key := - 1\<rparr>;
       (d2, v) \<leftarrow> on_announce oc oo d2 L_IP b 1000;
       check (is_ban v)
     }"

definition declared_ip_scores_only_from_public_sources :: "client_order \<Rightarrow> offender_order \<Rightarrow> unit option" where
  "declared_ip_scores_only_from_public_sources oc oo =
     do {
       let cfg = quiet\<lparr>weight_declared_ip := 100\<rparr>;
       let d = detector_new cfg;
       let a = (clean_info L_H1 GOOD_PEER)\<lparr>ai_declared_ip := 0x0a000001\<rparr>;
       (d, v) \<leftarrow> on_announce oc oo d L_IP a 1000;
       check (is_ban v);
       let d2 = detector_new cfg;
       let b = (clean_info L_H1 GOOD_PEER)\<lparr>ai_declared_ip := 0x0a000001\<rparr>;
       let b = b\<lparr>ai_source_is_public := False\<rparr>;
       (d2, v) \<leftarrow> on_announce oc oo d2 L_IP b 1000;
       check (v = Allow)
     }"

definition unconnectable_port_scores :: "client_order \<Rightarrow> offender_order \<Rightarrow> unit option" where
  "unconnectable_port_scores oc oo =
     do {
       let d = detector_new (quiet\<lparr>weight_bad_port := 100\<rparr>);
       let a = (clean_info L_H1 GOOD_PEER)\<lparr>ai_port := 0\<rparr>;
       (d, v) \<leftarrow> on_announce oc oo d L_IP a 1000;
       check (v = Allow);
       (d, v) \<leftarrow> on_announce oc oo d L_IP a 1000;
       check (is_ban v)
     }"

definition fake_seeder_scores :: "client_order \<Rightarrow> offender_order \<Rightarrow> unit option" where
  "fake_seeder_scores oc oo =
     do {
       let d = detector_new (quiet\<lparr>weight_fake_seeder := 100\<rparr>);
       let a = (clean_info L_H1 GOOD_PEER)\<lparr>ai_left := 0, ai_downloaded := 0, ai_uploaded := 0\<rparr>;
       (d, v) \<leftarrow> on_announce oc oo d L_IP a 1000;
       check (v = Allow);
       (d, v) \<leftarrow> on_announce oc oo d L_IP a 1000;
       check (is_ban v)
     }"

definition excessive_numwant_scores :: "client_order \<Rightarrow> offender_order \<Rightarrow> unit option" where
  "excessive_numwant_scores oc oo =
     do {
       let d = detector_new (quiet\<lparr>weight_numwant := 100\<rparr>);
       let a = (clean_info L_H1 GOOD_PEER)\<lparr>ai_num_want := 5000\<rparr>;
       (d, v) \<leftarrow> on_announce oc oo d L_IP a 1000;
       check (v = Allow);
       (d, v) \<leftarrow> on_announce oc oo d L_IP a 1000;
       check (is_ban v)
     }"

definition unknown_peer_id_scores :: "client_order \<Rightarrow> offender_order \<Rightarrow> unit option" where
  "unknown_peer_id_scores oc oo =
     do {
       let d = detector_new (quiet\<lparr>weight_peerid := 100\<rparr>);
       (d, v) \<leftarrow> on_announce oc oo d L_IP (clean_info L_H1 BAD_PEER) 1000;
       check (is_ban v)
     }"

text \<open>What these announces evaluate to: the peers, and the ring of the client.\<close>

lemma known_peers [l7_test]: "is_known_client GOOD_PEER" "\<not> is_known_client BAD_PEER"
  by (simp_all add: is_known_client_def KNOWN_CLIENT_PREFIXES_def starts_with_def GOOD_PEER_def BAD_PEER_def)

lemma ring_new: "replicate 8 None = [None, None, None, None, None, None, None, None]"
  by (simp add: numeral_eq_Suc)

text \<open>The first announce of a source is never fast, so only the ungated signals count.\<close>

lemma fresh_eq:
  "fresh cfg now = \<lparr>score = 0, last_seen = now, decay_at = now, banned_until = 0, last_gap = - 1, breadth = 0,
     connects = 0, empty_swarms = 0, ring = replicate 8 None, ring_pos = 0\<rparr>"
  by (simp add: fresh_def decay_def client_new_def RING_def Let_def sat_sub_def)

lemma sat_add_0_left [simp]: "sat_add 0 x = (x :: u32)"
  using unsigned_less [of x, where 'a = nat] by (simp add: sat_add_def)

lemma first_announce [l7_test]:
  "score_announce cfg a now (fresh cfg now) =
     Some \<lparr>score = stateless_score cfg a False + (if is_known_client (ai_peer_id a) then 0 else weight_peerid cfg),
       last_seen = now, decay_at = now, banned_until = 0, last_gap = - 1, breadth = 0, connects = 0,
       empty_swarms = 0,
       ring = [Some \<lparr>sn_hash = ai_info_hash a, sn_at = now, sn_key = ai_key a,
                 sn_peer = peer_fingerprint (ai_peer_id a)\<rparr>, None, None, None, None, None, None, None],
       ring_pos = 1\<rparr>"
  by (simp add: score_announce_def fresh_eq observe_def map_filter_simps ring_new RING_def Let_def)

lemmas next_announce = score_announce_def [where c = "\<lparr>score = s, last_seen = ls, decay_at = da, banned_until = bu,
  last_gap = lg, breadth = br, connects = cn, empty_swarms = es, ring = r, ring_pos = rp\<rparr>"]
  for s ls da bu lg br cn es r rp

lemmas l7_score = next_announce observe_def observe_one_def ring_new RING_def map_filter_simps
  widen_def stateless_score_def clean_info_def word_sless_alt

lemmas l7_eval = l7_handlers l7_test Let_def decay_def crosses_def sat_add_def sat_sub_def sat_mul_def
  is_ban_def is_ban_tier_def l7_configs l7_score

lemma known_client_detection_passes: "known_client_detection = Some ()"
  by (simp add: known_client_detection_def known_peers)
    (simp add: is_known_client_def KNOWN_CLIENT_PREFIXES_def starts_with_def)

lemma clean_announce_is_allowed_passes: "clean_announce_is_allowed oc oo = Some ()"
  by (simp add: clean_announce_is_allowed_def l7_eval)

lemma trivial_key_scores_passes: "trivial_key_scores oc oo = Some ()"
  by (simp add: trivial_key_scores_def l7_eval)

lemma unconnectable_port_scores_passes: "unconnectable_port_scores oc oo = Some ()"
  by (simp add: unconnectable_port_scores_def l7_eval)

lemma declared_ip_scores_only_from_public_sources_passes:
  "declared_ip_scores_only_from_public_sources oc oo = Some ()"
  by (simp add: declared_ip_scores_only_from_public_sources_def l7_eval)

lemma fake_seeder_scores_passes: "fake_seeder_scores oc oo = Some ()"
  by (simp add: fake_seeder_scores_def l7_eval)

lemma excessive_numwant_scores_passes: "excessive_numwant_scores oc oo = Some ()"
  by (simp add: excessive_numwant_scores_def l7_eval)

lemma unknown_peer_id_scores_passes: "unknown_peer_id_scores oc oo = Some ()"
  by (simp add: unknown_peer_id_scores_def l7_eval)

end
