(* ===== verification/Test_L7_Flow.thy ===== *)
theory Test_L7_Flow
  imports Test_L7
begin

text \<open>
  The rest of the unit tests of crates/bf-l7/src/lib.rs: the signals that need history, bounded
  state and the behaviour over longer sequences. Loops of the tests are recursive functions.
\<close>

section \<open>Identity churn and interval abuse\<close>

definition key_churn_for_one_torrent_scores :: "client_order \<Rightarrow> offender_order \<Rightarrow> unit option" where
  "key_churn_for_one_torrent_scores oc oo =
     do {
       let d = detector_new (quiet\<lparr>weight_key_churn := 60\<rparr>);
       let a = clean_info L_H1 GOOD_PEER;
       (d, v) \<leftarrow> on_announce oc oo d L_IP a 1000;
       check (v = Allow);
       let b = (clean_info L_H1 GOOD_PEER)\<lparr>ai_key := 0xdeadbeef\<rparr>;
       (d, v) \<leftarrow> on_announce oc oo d L_IP b 1000;
       check (v = Allow);
       let c = (clean_info L_H1 GOOD_PEER)\<lparr>ai_key := 0x0bad0bad\<rparr>;
       (d, v) \<leftarrow> on_announce oc oo d L_IP c 1000;
       check (is_ban v)
     }"

definition peer_id_churn_for_one_torrent_scores :: "client_order \<Rightarrow> offender_order \<Rightarrow> unit option" where
  "peer_id_churn_for_one_torrent_scores oc oo =
     do {
       let d = detector_new (quiet\<lparr>weight_peerid_churn := 100\<rparr>);
       (d, v) \<leftarrow> on_announce oc oo d L_IP (clean_info L_H1 GOOD_PEER) 1000;
       check (v = Allow);
       let other = map of_char ''-qB5000-zzzzzzzzzzzz'';
       (d, v) \<leftarrow> on_announce oc oo d L_IP (clean_info L_H1 other) 1000;
       check (is_ban v)
     }"

definition interval_abuse_is_per_torrent :: "client_order \<Rightarrow> offender_order \<Rightarrow> unit option" where
  "interval_abuse_is_per_torrent oc oo =
     do {
       let d = detector_new (quiet\<lparr>weight_interval := 60\<rparr>);
       (d, v) \<leftarrow> on_announce oc oo d L_IP (clean_info L_H1 GOOD_PEER) 1000;
       check (v = Allow);
       (d, v) \<leftarrow> on_announce oc oo d L_IP (clean_info L_H2 GOOD_PEER) 1000;
       check (v = Allow);
       (d, v) \<leftarrow> on_announce oc oo d L_IP (clean_info L_H1 GOOD_PEER) 1005;
       check (v = Allow);
       (d, v) \<leftarrow> on_announce oc oo d L_IP (clean_info L_H1 GOOD_PEER) 1006;
       check (is_ban v)
     }"

definition slow_reannounce_is_not_a_violation :: "client_order \<Rightarrow> offender_order \<Rightarrow> unit option" where
  "slow_reannounce_is_not_a_violation oc oo =
     do {
       let d = detector_new l7_config_default;
       (d, _) \<leftarrow> on_announce oc oo d L_IP (clean_info L_H1 GOOD_PEER) 1000;
       (d, v) \<leftarrow> on_announce oc oo d L_IP (clean_info L_H1 GOOD_PEER) 2000;
       check (v = Allow)
     }"

section \<open>Enumeration and handshakes\<close>

text \<open>Announces of the given torrents until one is banned.\<close>

fun enumerate_until_ban ::
  "client_order \<Rightarrow> offender_order \<Rightarrow> detector \<Rightarrow> nat list \<Rightarrow> (detector \<times> bool) option" where
  "enumerate_until_ban oc oo d [] = Some (d, False)"
| "enumerate_until_ban oc oo d (i # is) =
     do {
       let hash = replicate 20 (word_of_nat i);
       (d, v) \<leftarrow> on_announce oc oo d L_IP (clean_info hash GOOD_PEER) 1000;
       if is_ban v then Some (d, True) else enumerate_until_ban oc oo d is
     }"

definition breadth_across_many_torrents_scores :: "client_order \<Rightarrow> offender_order \<Rightarrow> unit option" where
  "breadth_across_many_torrents_scores oc oo =
     do {
       let d = detector_new (quiet\<lparr>weight_breadth := 100, breadth_threshold := 4\<rparr>);
       (d, banned) \<leftarrow> enumerate_until_ban oc oo d [0..<64];
       check banned
     }"

definition bulk_scrape_scores_but_small_scrape_does_not :: "client_order \<Rightarrow> offender_order \<Rightarrow> unit option" where
  "bulk_scrape_scores_but_small_scrape_does_not oc oo =
     do {
       let d = detector_new (quiet\<lparr>weight_scrape_volume := 100, scrape_volume_threshold := 32\<rparr>);
       (d, v) \<leftarrow> on_scrape oc oo d L_IP 4 1000;
       check (v = Allow);
       (d, v) \<leftarrow> on_scrape oc oo d L_IP 74 1000;
       check (is_ban v)
     }"

text \<open>\<open>n\<close> connects, each of which must be allowed.\<close>

fun connects_allowed :: "client_order \<Rightarrow> offender_order \<Rightarrow> detector \<Rightarrow> nat \<Rightarrow> detector option" where
  "connects_allowed oc oo d 0 = Some d"
| "connects_allowed oc oo d (Suc n) =
     do {
       (d, v) \<leftarrow> on_connect oc oo d L_IP 1000;
       check (v = Allow);
       connects_allowed oc oo d n
     }"

definition connect_spam_scores_without_follow_through :: "client_order \<Rightarrow> offender_order \<Rightarrow> unit option" where
  "connect_spam_scores_without_follow_through oc oo =
     do {
       let d = detector_new (quiet\<lparr>weight_connect_spam := 100, connect_burst := 3\<rparr>);
       d \<leftarrow> connects_allowed oc oo d 3;
       (d, v) \<leftarrow> on_connect oc oo d L_IP 1000;
       check (is_ban v)
     }"

text \<open>\<open>n\<close> connects whose verdicts are ignored.\<close>

fun connects_done :: "client_order \<Rightarrow> offender_order \<Rightarrow> detector \<Rightarrow> nat \<Rightarrow> detector option" where
  "connects_done oc oo d 0 = Some d"
| "connects_done oc oo d (Suc n) =
     do {
       (d, _) \<leftarrow> on_connect oc oo d L_IP 1000;
       connects_done oc oo d n
     }"

definition using_the_connection_id_clears_connect_suspicion ::
  "client_order \<Rightarrow> offender_order \<Rightarrow> unit option" where
  "using_the_connection_id_clears_connect_suspicion oc oo =
     do {
       let d = detector_new (quiet\<lparr>weight_connect_spam := 100, connect_burst := 3\<rparr>);
       d \<leftarrow> connects_done oc oo d 3;
       (d, _) \<leftarrow> on_announce oc oo d L_IP (clean_info L_H1 GOOD_PEER) 1000;
       d \<leftarrow> connects_allowed oc oo d 3;
       (d, _) \<leftarrow> on_scrape oc oo d L_IP 1 1000;
       (d, v) \<leftarrow> on_connect oc oo d L_IP 1000;
       check (v = Allow)
     }"

text \<open>Announces at the given times, each of which must be allowed.\<close>

fun announces_allowed ::
  "client_order \<Rightarrow> offender_order \<Rightarrow> announce_info \<Rightarrow> detector \<Rightarrow> u32 list \<Rightarrow> detector option" where
  "announces_allowed oc oo a d [] = Some d"
| "announces_allowed oc oo a d (now # ts) =
     do {
       (d, v) \<leftarrow> on_announce oc oo d L_IP a now;
       check (v = Allow);
       announces_allowed oc oo a d ts
     }"

definition repeated_empty_swarms_score_but_a_real_swarm_resets ::
  "client_order \<Rightarrow> offender_order \<Rightarrow> unit option" where
  "repeated_empty_swarms_score_but_a_real_swarm_resets oc oo =
     do {
       let d = detector_new (quiet\<lparr>weight_empty_swarm := 100, empty_swarm_threshold := 3\<rparr>);
       let none = (clean_info L_H1 GOOD_PEER)\<lparr>ai_swarm_peers := 0\<rparr>;
       d \<leftarrow> announces_allowed oc oo none d (replicate 3 1000);
       let real = (clean_info L_H1 GOOD_PEER)\<lparr>ai_swarm_peers := 12\<rparr>;
       (d, v) \<leftarrow> on_announce oc oo d L_IP real 1000;
       check (v = Allow);
       d \<leftarrow> announces_allowed oc oo none d (replicate 3 1000);
       (d, v) \<leftarrow> on_announce oc oo d L_IP none 1000;
       check (is_ban v)
     }"

text \<open>Whether one of the announces at the given times is banned; the search stops there.\<close>

fun any_banned ::
  "client_order \<Rightarrow> offender_order \<Rightarrow> announce_info \<Rightarrow> detector \<Rightarrow> u32 list \<Rightarrow> (detector \<times> bool) option" where
  "any_banned oc oo a d [] = Some (d, False)"
| "any_banned oc oo a d (now # ts) =
     do {
       (d, v) \<leftarrow> on_announce oc oo d L_IP a now;
       if is_ban v then Some (d, True) else any_banned oc oo a d ts
     }"

definition rounds :: "u32 list" where "rounds = [0, 1, 2, 3, 4, 5, 6, 7, 8, 9, 10, 11]"

definition an_honest_slow_seeder_is_never_flagged :: "client_order \<Rightarrow> offender_order \<Rightarrow> unit option" where
  "an_honest_slow_seeder_is_never_flagged oc oo =
     do {
       let cfg = quiet\<lparr>weight_empty_swarm := 100, weight_fake_seeder := 100, weight_bad_port := 100,
         empty_swarm_threshold := 2, fast_announce_gap := 300\<rparr>;
       let d = detector_new cfg;
       let honest = (clean_info L_H1 GOOD_PEER)\<lparr>ai_swarm_peers := 0, ai_left := 0, ai_downloaded := 0,
         ai_uploaded := 0, ai_port := 443\<rparr>;
       d \<leftarrow> announces_allowed oc oo honest d (map (\<lambda>r. 1000 + r * 1800) rounds);
       let d2 = detector_new cfg;
       (d2, caught) \<leftarrow> any_banned oc oo honest d2 (map (\<lambda>r. 1000 + r * 5) rounds);
       check caught
     }"

section \<open>The tests pass\<close>

lemma L_H_neq [simp]: "L_H1 \<noteq> L_H2" "L_H2 \<noteq> L_H1"
  by (simp_all add: L_H1_def L_H2_def)

lemma other_peer: "peer_fingerprint (map of_char ''-qB5000-zzzzzzzzzzzz'') \<noteq> peer_fingerprint GOOD_PEER"
  by (simp add: peer_fingerprint_def GOOD_PEER_def)

lemma key_churn_for_one_torrent_scores_passes: "key_churn_for_one_torrent_scores oc oo = Some ()"
  by (simp add: key_churn_for_one_torrent_scores_def l7_eval)

lemma interval_abuse_is_per_torrent_passes: "interval_abuse_is_per_torrent oc oo = Some ()"
  by (simp add: interval_abuse_is_per_torrent_def l7_eval)

lemma slow_reannounce_is_not_a_violation_passes: "slow_reannounce_is_not_a_violation oc oo = Some ()"
  by (simp add: slow_reannounce_is_not_a_violation_def l7_eval)

lemma bulk_scrape_scores_but_small_scrape_does_not_passes:
  "bulk_scrape_scores_but_small_scrape_does_not oc oo = Some ()"
  by (simp add: bulk_scrape_scores_but_small_scrape_does_not_def l7_eval fresh_eq)

lemma peer_id_churn_for_one_torrent_scores_passes: "peer_id_churn_for_one_torrent_scores oc oo = Some ()"
  using other_peer by (simp add: peer_id_churn_for_one_torrent_scores_def l7_eval)

lemma replicate_numeral: "replicate (numeral n) x = x # replicate (pred_numeral n) x"
  by (simp add: numeral_eq_Suc)

lemma connects_numeral:
  "connects_allowed oc oo d (numeral n) =
     do {
       (d, v) \<leftarrow> on_connect oc oo d L_IP 1000;
       check (v = Allow);
       connects_allowed oc oo d (pred_numeral n)
     }"
  "connects_done oc oo d (numeral n) =
     do {
       (d, _) \<leftarrow> on_connect oc oo d L_IP 1000;
       connects_done oc oo d (pred_numeral n)
     }"
  by (simp_all add: numeral_eq_Suc)

lemma connect_spam_scores_without_follow_through_passes:
  "connect_spam_scores_without_follow_through oc oo = Some ()"
  by (simp add: connect_spam_scores_without_follow_through_def connects_numeral l7_eval fresh_eq)

lemma using_the_connection_id_clears_connect_suspicion_passes:
  "using_the_connection_id_clears_connect_suspicion oc oo = Some ()"
  by (simp add: using_the_connection_id_clears_connect_suspicion_def connects_numeral l7_eval fresh_eq)

lemma repeated_empty_swarms_score_but_a_real_swarm_resets_passes:
  "repeated_empty_swarms_score_but_a_real_swarm_resets oc oo = Some ()"
  by (simp add: repeated_empty_swarms_score_but_a_real_swarm_resets_def replicate_numeral l7_eval word_le_nat_alt)

text \<open>The torrents 1 to 4 of the enumeration fall into four different buckets.\<close>

lemma buckets:
  "breadth_bit (replicate 20 1) = 24" "breadth_bit (replicate 20 2) = 49"
  "breadth_bit (replicate 20 3) = 10" "breadth_bit (replicate 20 4) = 35"
  by (simp_all add: breadth_bit_def from_le_def be_val_def replicate_numeral)

lemma bucket_counts:
  "count_ones 16777216 = 1" "count_ones 562949970198528 = 2" "count_ones 562949970199552 = 3" "count_ones 562984329937920 = 4"
  by code_simp+

lemma upt_64: "[0..<64] = 0 # 1 # 2 # 3 # 4 # [5..<64]"
  by (simp add: upt_conv_Cons)

lemma breadth_across_many_torrents_scores_passes: "breadth_across_many_torrents_scores oc oo = Some ()"
proof -
  have "replicate 20 i \<noteq> replicate 20 j" if "i \<noteq> j" for i j :: u8
    using that by simp
  then show ?thesis
    by (simp add: breadth_across_many_torrents_scores_def upt_64 buckets bucket_counts l7_eval del: upt_rec_numeral)
qed

lemma an_honest_slow_seeder_is_never_flagged_passes: "an_honest_slow_seeder_is_never_flagged oc oo = Some ()"
  by (simp add: an_honest_slow_seeder_is_never_flagged_def rounds_def l7_eval)

section \<open>Bans and bounded state\<close>

text \<open>\<open>n\<close> mismatches, each of which must be allowed.\<close>

fun mismatches_allowed :: "client_order \<Rightarrow> offender_order \<Rightarrow> detector \<Rightarrow> nat \<Rightarrow> detector option" where
  "mismatches_allowed oc oo d 0 = Some d"
| "mismatches_allowed oc oo d (Suc n) =
     do {
       (d, v) \<leftarrow> on_connid_mismatch oc oo d L_IP 1000;
       check (v = Allow);
       mismatches_allowed oc oo d n
     }"

definition ban_fires_once_then_suppressed_while_over_threshold ::
  "client_order \<Rightarrow> offender_order \<Rightarrow> unit option" where
  "ban_fires_once_then_suppressed_while_over_threshold oc oo =
     do {
       let d = detector_new (l7_config_default\<lparr>weight_connid := 50, decay_amount := 0\<rparr>);
       (d, v) \<leftarrow> on_connid_mismatch oc oo d L_IP 1000;
       check (v = Allow);
       (d, v) \<leftarrow> on_connid_mismatch oc oo d L_IP 1000;
       check (is_ban v);
       d \<leftarrow> mismatches_allowed oc oo d 1000;
       check (offender_count d = 1)
     }"

text \<open>One mismatch from each of several sources, a second apart.\<close>

fun mismatches_from :: "client_order \<Rightarrow> offender_order \<Rightarrow> detector \<Rightarrow> u8 list \<Rightarrow> detector option" where
  "mismatches_from oc oo d [] = Some d"
| "mismatches_from oc oo d (i # is) =
     do {
       let ip = [0, 0, 0, 0, 0, 0, 0, 0, 0, 0, 0xff, 0xff, 1, 1, 1, i];
       (d, _) \<leftarrow> on_connid_mismatch oc oo d ip (1000 + ucast i);
       mismatches_from oc oo d is
     }"

definition offender_registry_is_bounded :: "client_order \<Rightarrow> offender_order \<Rightarrow> unit option" where
  "offender_registry_is_bounded oc oo =
     do {
       let d = detector_new (l7_config_default\<lparr>weight_connid := 100, max_offenders := 2\<rparr>);
       d \<leftarrow> mismatches_from oc oo d [0, 1, 2, 3, 4];
       check (offender_count d \<le> 2)
     }"

definition state_is_bounded_by_eviction :: "client_order \<Rightarrow> offender_order \<Rightarrow> unit option" where
  "state_is_bounded_by_eviction oc oo =
     do {
       let d = detector_new (l7_config_default\<lparr>max_entries := SHARDS\<rparr>);
       let a = [0, 0, 0, 0, 0, 0, 0, 0, 0, 0, 0xff, 0xff, 1, 1, 1, 7];
       let b = [0, 0, 0, 0, 0, 0, 0, 0, 0, 0, 0xff, 0xff, 2, 2, 2, 7];
       (d, _) \<leftarrow> on_announce oc oo d a (clean_info L_H1 GOOD_PEER) 1000;
       (d, _) \<leftarrow> on_announce oc oo d b (clean_info L_H1 GOOD_PEER) 1001;
       check (tracked d = 1)
     }"

lemma flood:
  assumes "cfg = l7_config_default\<lparr>weight_connid := 50, decay_amount := 0\<rparr>"
    and "100 \<le> unat (score c)" "last_seen c = 1000" "decay_at c = 1000" "banned_until c = 4600"
  shows "\<exists>c'. mismatches_allowed oc oo (solo cfg c [(L_IP, e)]) n = Some (solo cfg c' [(L_IP, e)])"
  using assms(2-5)
proof (induction n arbitrary: c)
  case (Suc n)
  let ?c = "(decay c 1000 0 60)\<lparr>score := sat_add (score c) 50\<rparr>"
  have c: "score (decay c 1000 0 60) = score c" "banned_until (decay c 1000 0 60) = 4600"
      "decay_at (decay c 1000 0 60) = 1000" "last_seen (decay c 1000 0 60) = 1000"
    using Suc.prems by (simp_all add: decay_def Let_def sat_sub_def)
  have big: "100 \<le> unat (sat_add (score c) 50)"
    using Suc.prems(1) by (simp add: unat_sat_add)
  then have "\<not> sat_add (score c) 50 < 100" by (simp add: word_less_nat_alt)
  then have "on_connid_mismatch oc oo (solo cfg c [(L_IP, e)]) L_IP 1000 =
      Some (solo cfg ?c [(L_IP, e)], Allow)"
    by (simp add: on_connid_mismatch_def l7_test Let_def crosses_def c Suc.prems(4) assms(1) l7_config_default_def)
  with Suc.IH [of ?c] big c show ?case by simp
qed auto

lemma ban_fires_once_then_suppressed_while_over_threshold_passes:
  "ban_fires_once_then_suppressed_while_over_threshold oc oo = Some ()"
proof -
  let ?cfg = "l7_config_default\<lparr>weight_connid := 50, decay_amount := 0\<rparr>"
  let ?c = "(fresh ?cfg 1000)\<lparr>score := 100, last_gap := 0, banned_until := 4600\<rparr>"
  let ?e = "\<lparr>of_offenses = 1, of_last = 1000\<rparr>"
  obtain c' where "mismatches_allowed oc oo (solo ?cfg ?c [(L_IP, ?e)]) 1000 = Some (solo ?cfg c' [(L_IP, ?e)])"
    using flood [OF refl, of ?c oc oo ?e 1000] by (auto simp: fresh_eq)
  then show ?thesis
    by (simp add: ban_fires_once_then_suppressed_while_over_threshold_def l7_eval fresh_eq)
qed

lemma mismatches_from_ok:
  assumes "iteration_order oc" "iteration_order oo"
  shows "detector_ok d \<Longrightarrow> \<exists>d'. mismatches_from oc oo d is = Some d' \<and> detector_ok d' \<and> config d' = config d"
proof (induction "is" arbitrary: d)
  case (Cons i "is")
  obtain c d1 v where "on_connid_mismatch oc oo d [0, 0, 0, 0, 0, 0, 0, 0, 0, 0, 0xff, 0xff, 1, 1, 1, i]
      (1000 + ucast i) = Some (d1, v)" "detector_ok d1" "config d1 = config d"
    by (rule mis.on_spec [OF Cons.prems assms]) (auto simp: outcome_def)
  with Cons.IH [of d1] show ?case by simp
qed simp

lemma offender_registry_is_bounded_passes:
  assumes "iteration_order oc" "iteration_order oo"
  shows "offender_registry_is_bounded oc oo = Some ()"
proof -
  let ?d = "detector_new (l7_config_default\<lparr>weight_connid := 100, max_offenders := 2\<rparr>)"
  obtain d' where "mismatches_from oc oo ?d [0, 1, 2, 3, 4] = Some d'" "detector_ok d'" "config d' = config ?d"
    using mismatches_from_ok [OF assms detector_ok_new] by blast
  then show ?thesis
    by (simp add: offender_registry_is_bounded_def detector_ok_def offender_count_def del: mismatches_from.simps)
qed

lemma score_decays_over_time_passes:
  assumes "iteration_order oc" "iteration_order oo"
  shows "score_decays_over_time oc oo = Some ()"
proof -
  let ?cfg = "l7_config_default\<lparr>weight_connid := 90, decay_amount := 10, decay_interval := 1\<rparr>"
  let ?ip2 = "[0, 0, 0, 0, 0, 0, 0, 0, 0, 0, 0xff, 0xff, 9, 9, 9, 9] :: ip16"
  let ?c = "(fresh ?cfg 1000)\<lparr>score := 130, last_seen := 1005, decay_at := 1005, last_gap := 5,
    banned_until := 4605\<rparr>"
  let ?c_first = "(fresh ?cfg 1000)\<lparr>score := 90\<rparr>"
  define d where "d = solo ?cfg ?c [(L_IP, \<lparr>of_offenses = 1, of_last = 1005\<rparr>)]"
  have ok: "detector_ok d"
    by (simp add: d_def solo_def detector_ok_def detector_new_def client_shard_ok_def SHARDS_def
        nth_list_update client_ok_def fresh_eq RING_def l7_config_default_def)
  have none: "client_at d ?ip2 = None"
    by (simp add: d_def solo_def client_at_def shard_no_def SHARDS_def)
  have cfg: "config d = ?cfg" by (simp add: d_def)
  obtain c1 d1 v1 where 1: "Some ((touched d ?ip2 1000)\<lparr>score := sat_add (score (touched d ?ip2 1000)) 90\<rparr>) = Some c1"
      "on_connid_mismatch oc oo d ?ip2 1000 = Some (d1, v1)" "outcome d ?ip2 1000 c1 d1 v1"
    by (rule mis.on_spec [OF ok assms, of ?ip2 1000]) (simp add: cfg)
  have "touched d ?ip2 1000 = fresh ?cfg 1000"
    by (simp add: touched_def none cfg fresh_def)
  with 1 have c1: "c1 = (fresh ?cfg 1000)\<lparr>score := 90\<rparr>" by (simp add: fresh_eq)
  have d1: "client_at d1 ?ip2 = Some c1" "detector_ok d1" "config d1 = ?cfg"
    using 1(3) by (simp_all add: outcome_def cfg c1 crosses_def l7_config_default_def)
  obtain c2 d2 v2 where 2: "Some ((touched d1 ?ip2 2000)\<lparr>score := sat_add (score (touched d1 ?ip2 2000)) 90\<rparr>) = Some c2"
      "on_connid_mismatch oc oo d1 ?ip2 2000 = Some (d2, v2)" "outcome d1 ?ip2 2000 c2 d2 v2"
    by (rule mis.on_spec [OF d1(2) assms, of ?ip2 2000]) (simp add: d1(3))
  have "score c2 = 90"
    using 2(1) by (auto simp: touched_def d1 c1 fresh_eq decay_def Let_def sat_sub_def sat_mul_def
        l7_config_default_def)
  with 2(3) have "v2 = Allow"
    by (simp add: outcome_def d1(3) crosses_def l7_config_default_def)
  moreover have "on_connid_mismatch oc oo (detector_new ?cfg) L_IP 1000 = Some (solo ?cfg ?c_first [], Allow)"
    by (simp add: l7_eval fresh_eq)
  moreover have "on_connid_mismatch oc oo (solo ?cfg ?c_first []) L_IP 1005 = Some (d, Ban 3600 0)"
    by (simp add: l7_eval fresh_eq d_def)
  ultimately show ?thesis
    using 1(2) 2(2) by (simp add: score_decays_over_time_def is_ban_def)
qed

text \<open>An announce writes one shard of the detector.\<close>

lemma decide_clients: "decide oo d ip ban now = (d', v) \<Longrightarrow> clients d' = clients d"
  by (auto simp: decide_def record_offence_def Let_def split: if_splits)

lemma announce_clients:
  assumes "on_announce oc oo d ip a now = Some (d', v)"
  shows "\<exists>sh. clients d' = (clients d)[shard_no ip := sh]"
proof -
  from assms obtain s2 c3 ban where
    "decide oo (put_client d s2 ip c3) ip ban now = (d', v)"
    by (auto simp: on_announce_def bind_eq_Some_conv Let_def case_prod_beta)
  from decide_clients [OF this] show ?thesis by (auto simp: put_client_def)
qed

lemma state_is_bounded_by_eviction_passes:
  assumes "iteration_order oc" "iteration_order oo"
  shows "state_is_bounded_by_eviction oc oo = Some ()"
proof -
  let ?cfg = "l7_config_default\<lparr>max_entries := SHARDS\<rparr>"
  let ?a = "[0, 0, 0, 0, 0, 0, 0, 0, 0, 0, 0xff, 0xff, 1, 1, 1, 7] :: ip16"
  let ?b = "[0, 0, 0, 0, 0, 0, 0, 0, 0, 0, 0xff, 0xff, 2, 2, 2, 7] :: ip16"
  let ?an = "clean_info L_H1 GOOD_PEER"
  have shard: "shard_no ?a = 7" "shard_no ?b = 7" by (simp_all add: shard_no_def SHARDS_def)
  obtain d1 v1 where 1: "on_announce oc oo (detector_new ?cfg) ?a ?an 1000 = Some (d1, v1)"
      "detector_ok d1" "config d1 = ?cfg"
    by (rule ann.on_spec [OF detector_ok_new assms, where a = ?an and ip = ?a and now = 1000]) (auto simp: outcome_def)
  obtain d2 v2 where 2: "on_announce oc oo d1 ?b ?an 1001 = Some (d2, v2)"
      "detector_ok d2" "config d2 = ?cfg" "client_at d2 ?b \<noteq> None"
    by (rule ann.on_spec [OF 1(2) assms, where a = ?an and ip = ?b and now = 1001]) (auto simp: outcome_def 1(3))
  obtain sh where sh: "clients d2 = (replicate SHARDS [])[7 := sh]"
    using announce_clients [OF 1(1)] announce_clients [OF 2(1)] by (auto simp: shard detector_new_def)
  have "client_shard_ok 1 sh"
    using 2(2,3) by (auto simp: detector_ok_def sh SHARDS_def dest: spec [of _ 7])
  moreover have "sh \<noteq> []"
    using 2(4) by (auto simp: client_at_def shard sh SHARDS_def)
  ultimately have "length sh = 1" by (cases sh) (auto simp: client_shard_ok_def)
  then have "tracked d2 = 1" by (simp add: tracked_def sh SHARDS_def map_update sum_list_update)
  with 1(1) 2(1) show ?thesis by (simp add: state_is_bounded_by_eviction_def)
qed

end
