(* ===== verification/Test_Config.thy ===== *)
theory Test_Config
  imports Config_Props Test_Core
begin

text \<open>
  The unit tests of crates/bf-config/src/lib.rs, run on the model. The wording of a message is not
  modelled: a test that compares one compares its kind and the value it quotes.
\<close>

definition unwrap :: "'e + 'a \<Rightarrow> 'a option" where
  "unwrap r = (case r of Inr x \<Rightarrow> Some x | Inl _ \<Rightarrow> None)"

definition unwrap_err :: "'e + 'a \<Rightarrow> 'e option" where
  "unwrap_err r = (case r of Inl e \<Rightarrow> Some e | Inr _ \<Rightarrow> None)"

text \<open>A text of several lines, each ended by a newline.\<close>

definition lines :: "string list \<Rightarrow> codes" where
  "lines ls = concat (map (\<lambda>l. lit l @ [10]) ls)"

definition defaults_and_comments_and_unknown :: "unit option" where
  "defaults_and_comments_and_unknown =
     do {
       c \<leftarrow> unwrap (config_parse (lines [''# a comment'', '''', ''   '', ''access.whitelist /x'',
         ''livesync.cluster.node_ip 1.2.3.4'']));
       check (cf_unknown c = [lit ''access.whitelist'', lit ''livesync.cluster.node_ip'']);
       let c = c\<lparr>cf_unknown := []\<rparr>;
       check (c = config_default);
       check (cf_connid_window c = 120);
       check (cf_udp_listen c = [])
     }"

definition parses_a_typical_config :: "unit option" where
  "parses_a_typical_config =
     do {
       c \<leftarrow> unwrap (config_parse (lines [''listen.udp.workers 16'', ''listen.udp.rcvbuf 8388608'',
         ''listen.tcp [::]:27108'', ''listen.udp [::]:2710'', ''access.stats 127.0.0.0/8'',
         ''tracker.rootdir /etc/bluefrog'', ''tracker.redirect_url https://example.com/'']));
       check (cf_udp_workers c = 16);
       check (cf_udp_rcvbuf c = Some 8388608);
       tcp \<leftarrow> parse_socket (str ''[::]:27108'');
       check (cf_tcp_listen c = [tcp]);
       udp \<leftarrow> parse_socket (str ''[::]:2710'');
       check (cf_udp_listen c = [udp]);
       check (cf_rootdir c = Some (lit ''/etc/bluefrog''));
       check (cf_redirect_url c = Some (lit ''https://example.com/''))
     }"

definition tcp_udp_and_bare_address_default_port :: "unit option" where
  "tcp_udp_and_bare_address_default_port =
     do {
       c \<leftarrow> unwrap (config_parse (lines [''listen.tcp_udp 0.0.0.0'']));
       expected \<leftarrow> parse_socket (str ''0.0.0.0:6969'');
       check (DEFAULT_PORT = 6969);
       check (cf_udp_listen c = [expected]);
       check (cf_tcp_listen c = [expected])
     }"

definition l7_and_nft_and_metrics_and_user_directives :: "unit option" where
  "l7_and_nft_and_metrics_and_user_directives =
     do {
       c \<leftarrow> unwrap (config_parse (lines [''udp.connid_window 3600'', ''tracker.user nobody'', ''l7.enable yes'',
         ''l7.reannounce_min_interval 30'', ''l7.score_ban_threshold 200'', ''l7.ban_duration 7200'',
         ''l7.max_entries 500000'', ''l7.max_offenders 4000000'', ''l7.reban_cooldown 900'',
         ''l7.fast_announce_gap 120'', ''nft.enable 1'', ''nft.table inet foo'',
         ''nft.set4 bans4, bans4_24h ,bans4_7d'', ''nft.set6 bans6'', ''metrics.listen 127.0.0.1:9100'']));
       check (cf_connid_window c = 3600);
       check (cf_user c = Some (lit ''nobody''));
       check (cf_l7_enable c);
       check (reannounce_min_interval (cf_l7 c) = 30);
       check (score_ban_threshold (cf_l7 c) = 200);
       check (ban_duration (cf_l7 c) = 7200);
       check (max_entries (cf_l7 c) = 500000);
       check (max_offenders (cf_l7 c) = 4000000);
       check (reban_cooldown (cf_l7 c) = 900);
       check (fast_announce_gap (cf_l7 c) = 120);
       check (cf_nft_enable c);
       check (cf_nft_table c = lit ''inet foo'');
       check (cf_nft_set4 c = [lit ''bans4'', lit ''bans4_24h'', lit ''bans4_7d'']);
       check (cf_nft_set6 c = [lit ''bans6'']);
       metrics \<leftarrow> parse_socket (str ''127.0.0.1:9100'');
       check (cf_metrics_listen c = Some metrics)
     }"

definition boolean_false_forms :: "unit option" where
  "boolean_false_forms =
     do {
       c \<leftarrow> unwrap (config_parse (lines [''l7.enable 0'']));
       check (\<not> cf_l7_enable c);
       c \<leftarrow> unwrap (config_parse (lines [''nft.enable false'']));
       check (\<not> cf_nft_enable c);
       c \<leftarrow> unwrap (config_parse (lines [''nft.enable no'']));
       check (\<not> cf_nft_enable c)
     }"

definition errors_carry_line_numbers :: "unit option" where
  "errors_carry_line_numbers =
     do {
       e \<leftarrow> unwrap_err (config_parse (lines ['''', '''', ''listen.udp.workers abc'']));
       check (e = \<lparr>ce_line = 3, ce_message = InvalidValue (lit ''abc'')\<rparr>);
       e \<leftarrow> unwrap_err (config_parse (lines [''listen.udp notanaddr'']));
       check (ce_line e = 1);
       e \<leftarrow> unwrap_err (config_parse (lines [''listen.tcp bad'']));
       check (ce_line e = 1);
       e \<leftarrow> unwrap_err (config_parse (lines [''listen.tcp_udp bad'']));
       check (ce_line e = 1);
       e \<leftarrow> unwrap_err (config_parse (lines [''l7.enable maybe'']));
       check (ce_line e = 1);
       e \<leftarrow> unwrap_err (config_parse (lines [''metrics.listen nope'']));
       check (ce_line e = 1);
       e \<leftarrow> unwrap_err (config_parse (lines [''listen.udp.rcvbuf x'']));
       check (ce_line e = 1)
     }"

definition key_without_value_is_handled :: "unit option" where
  "key_without_value_is_handled =
     do {
       c \<leftarrow> unwrap (config_parse (lines [''nft.set4'']));
       check (cf_nft_set4 c = [])
     }"

section \<open>The tests pass\<close>

lemmas config_eval = unwrap_def unwrap_err_def config_parse_def lines_of_def strip_eol_def lines_def lit_def
  config_line_def trim_def is_ws_def split_once_ws_def directive_def l7_directive_def set_list_def
  boolean_def Let_def

lemma key_without_value_is_handled_passes: "key_without_value_is_handled = Some ()"
  by (simp add: key_without_value_is_handled_def config_eval)

lemma boolean_false_forms_passes: "boolean_false_forms = Some ()"
  by (simp add: boolean_false_forms_def config_eval)

text \<open>The values of the tests.\<close>

lemma utf8_lit:
  assumes "list_all (\<lambda>c. (of_char c :: nat) < 0x80) s"
  shows "utf8 (lit s) = str s"
  using assms by (induction s) (simp_all add: utf8_def lit_def str_def utf8_char_def of_nat_of_char)

lemmas number_eval = field_u32_def field_usize_def u32_max_def usize_max_def utf8_lit parse_uint_def
  is_digit_def str_def

lemma numbers_read:
  "field_usize (lit ''16'') n = Inr 16" "field_usize (lit ''8388608'') n = Inr 8388608"
  "field_usize (lit ''500000'') n = Inr 500000" "field_usize (lit ''4000000'') n = Inr 4000000"
  "field_u32 (lit ''3600'') n = Inr 3600" "field_u32 (lit ''30'') n = Inr 30"
  "field_u32 (lit ''200'') n = Inr 200" "field_u32 (lit ''7200'') n = Inr 7200"
  "field_u32 (lit ''900'') n = Inr 900" "field_u32 (lit ''120'') n = Inr 120"
  by (simp_all add: number_eval)

lemma numbers_rejected:
  "field_usize (lit ''abc'') n = Inl (invalid (lit ''abc'') n)"
  "field_usize (lit ''x'') n = Inl (invalid (lit ''x'') n)"
  by (simp_all add: number_eval)

text \<open>Addresses of the tests, as printed ones.\<close>

lemma addresses_read:
  "parse_socket (str ''0.0.0.0:6969'') = Some (SockV4 [0, 0, 0, 0] 6969)"
  "parse_socket (str ''127.0.0.1:9100'') = Some (SockV4 [127, 0, 0, 1] 9100)"
  using parse_socket_print [of "SockV4 [0, 0, 0, 0] 6969"] parse_socket_print [of "SockV4 [127, 0, 0, 1] 9100"]
  by (simp_all add: print_v4_def dec.simps str_def)

lemma wildcards_read:
  "parse_socket (str ''[::]:2710'') = Some (SockV6 (replicate 16 0) 2710 0)"
  "parse_socket (str ''[::]:27108'') = Some (SockV6 (replicate 16 0) 27108 0)"
  using parse_socket_wildcard [of 2710] parse_socket_wildcard [of 27108]
  by (simp_all add: wildcard_def dec.simps str_def)

lemma ip_read: "parse_ip (str ''0.0.0.0'') = Some (IpV4 [0, 0, 0, 0])"
  using read_v4_print [of "[0, 0, 0, 0]" "[]"]
  by (simp add: parse_ip_def parse_all_def print_v4_def dec.simps str_def)

lemma no_digit_rejected:
  assumes "digit_of 10 c = None" "c \<noteq> of_char CHR ''[''"
  shows "read_ipv4 (c # b) = None" "parse_socket (c # b) = None"
proof -
  show "read_ipv4 (c # b) = None"
    using assms(1) by (simp add: read_ipv4_def read_octet_def read_sep_def read_number_upto_def finish_number_def)
  then show "parse_socket (c # b) = None"
    using assms(2) by (simp add: parse_socket_def parse_all_def read_socket_v4_def read_socket_v6_def)
qed

lemma letters: "digit_of 10 0x6e = None" "digit_of 16 0x6e = None" "digit_of 10 0x62 = None"
  "digit_of 16 0x62 = Some 11" "digit_of 16 0x61 = Some 10" "digit_of 16 0x64 = Some 13"
  by (simp_all add: digit_of_def hex_val_def word_le_nat_alt)

lemma bad_group: "read_groups (Suc (Suc k)) 0 [] [0x62, 0x61, 0x64] = (u16_be 0xbad, False, [])"
  by (cases k)
    (simp_all add: read_sep_def no_digit_rejected letters read_number_upto_def finish_number_def)

lemma addresses_rejected:
  "parse_socket (str ''notanaddr'') = None" "parse_socket (str ''bad'') = None"
  "parse_socket (str ''nope'') = None"
  "parse_ip (str ''notanaddr'') = None" "parse_ip (str ''bad'') = None"
  using bad_group [of 6]
  by (simp_all add: str_def no_digit_rejected letters parse_ip_def parse_all_def read_ipv6_def
      read_groups_stop)

lemma utf8_lits:
  "utf8 (lit ''[::]:27108'') = str ''[::]:27108''" "utf8 (lit ''[::]:2710'') = str ''[::]:2710''"
  "utf8 (lit ''0.0.0.0'') = str ''0.0.0.0''" "utf8 (lit ''127.0.0.1:9100'') = str ''127.0.0.1:9100''"
  "utf8 (lit ''notanaddr'') = str ''notanaddr''" "utf8 (lit ''bad'') = str ''bad''" "utf8 (lit ''nope'') = str ''nope''"
  by (rule utf8_lit, simp)+

lemma bare_rejected: "parse_socket (str ''0.0.0.0'') = None"
proof -
  have "str ''0.0.0.0'' = print_v4 [0, 0, 0, 0] @ []"
    by (simp add: print_v4_def dec.simps str_def)
  moreover have "read_ipv4 (print_v4 [0, 0, 0, 0] @ []) = Some ([0, 0, 0, 0], [])"
    by (rule read_v4_print) simp_all
  moreover have "read_socket_v6 (str ''0.0.0.0'') = None"
    by (simp add: read_socket_v6_def str_def)
  ultimately show ?thesis
    by (simp add: parse_socket_def parse_all_def read_socket_v4_def read_port_def)
qed

lemma listens:
  "listen_addr (lit ''[::]:27108'') n = Inr (SockV6 (replicate 16 0) 27108 0)"
  "listen_addr (lit ''[::]:2710'') n = Inr (SockV6 (replicate 16 0) 2710 0)"
  "listen_addr (lit ''0.0.0.0'') n = Inr (SockV4 [0, 0, 0, 0] 6969)"
  "field_socket (lit ''127.0.0.1:9100'') n = Inr (SockV4 [127, 0, 0, 1] 9100)"
  "listen_addr (lit ''notanaddr'') n = Inl \<lparr>ce_line = n, ce_message = InvalidListen (lit ''notanaddr'')\<rparr>"
  "listen_addr (lit ''bad'') n = Inl \<lparr>ce_line = n, ce_message = InvalidListen (lit ''bad'')\<rparr>"
  "field_socket (lit ''nope'') n = Inl (invalid (lit ''nope'') n)"
  by (simp_all add: listen_addr_def field_socket_def utf8_lits wildcards_read ip_read addresses_read
      addresses_rejected bare_rejected DEFAULT_PORT_def)

text \<open>A text of directives is read item by item.\<close>

lemma parse_items:
  assumes "lines ls = render items" "list_all item_ok items"
  shows "config_parse (lines ls) = directives config_default 0 items"
  using assms by (simp add: list_all_iff parse_render)

lemmas item_eval = item_ok_def key_ok_def value_ok_def lines_def render_def lit_def is_ws_def

lemma tcp_udp_and_bare_address_default_port_passes: "tcp_udp_and_bare_address_default_port = Some ()"
proof -
  have "config_parse (lines [''listen.tcp_udp 0.0.0.0'']) =
      directives config_default 0 [(lit ''listen.tcp_udp'', lit ''0.0.0.0'')]"
    by (rule parse_items) (simp_all add: item_eval)
  then show ?thesis
    by (simp add: tcp_udp_and_bare_address_default_port_def directive_defs listens addresses_read
        DEFAULT_PORT_def unwrap_def config_default_def)
qed

lemma parses_a_typical_config_passes: "parses_a_typical_config = Some ()"
proof -
  have "config_parse (lines [''listen.udp.workers 16'', ''listen.udp.rcvbuf 8388608'',
        ''listen.tcp [::]:27108'', ''listen.udp [::]:2710'', ''access.stats 127.0.0.0/8'',
        ''tracker.rootdir /etc/bluefrog'', ''tracker.redirect_url https://example.com/'']) =
      directives config_default 0
        [(lit ''listen.udp.workers'', lit ''16''), (lit ''listen.udp.rcvbuf'', lit ''8388608''),
         (lit ''listen.tcp'', lit ''[::]:27108''), (lit ''listen.udp'', lit ''[::]:2710''),
         (lit ''access.stats'', lit ''127.0.0.0/8''), (lit ''tracker.rootdir'', lit ''/etc/bluefrog''),
         (lit ''tracker.redirect_url'', lit ''https://example.com/'')]"
    by (rule parse_items) (simp_all add: item_eval)
  then show ?thesis
    by (simp add: parses_a_typical_config_def directive_defs listens wildcards_read numbers_read
        unwrap_def config_default_def)
qed

lemma l7_and_nft_and_metrics_and_user_directives_passes:
  "l7_and_nft_and_metrics_and_user_directives = Some ()"
proof -
  have "config_parse (lines [''udp.connid_window 3600'', ''tracker.user nobody'', ''l7.enable yes'',
        ''l7.reannounce_min_interval 30'', ''l7.score_ban_threshold 200'', ''l7.ban_duration 7200'',
        ''l7.max_entries 500000'', ''l7.max_offenders 4000000'', ''l7.reban_cooldown 900'',
        ''l7.fast_announce_gap 120'', ''nft.enable 1'', ''nft.table inet foo'',
        ''nft.set4 bans4, bans4_24h ,bans4_7d'', ''nft.set6 bans6'', ''metrics.listen 127.0.0.1:9100'']) =
      directives config_default 0
        [(lit ''udp.connid_window'', lit ''3600''), (lit ''tracker.user'', lit ''nobody''),
         (lit ''l7.enable'', lit ''yes''), (lit ''l7.reannounce_min_interval'', lit ''30''),
         (lit ''l7.score_ban_threshold'', lit ''200''), (lit ''l7.ban_duration'', lit ''7200''),
         (lit ''l7.max_entries'', lit ''500000''), (lit ''l7.max_offenders'', lit ''4000000''),
         (lit ''l7.reban_cooldown'', lit ''900''), (lit ''l7.fast_announce_gap'', lit ''120''),
         (lit ''nft.enable'', lit ''1''), (lit ''nft.table'', lit ''inet foo''),
         (lit ''nft.set4'', lit ''bans4, bans4_24h ,bans4_7d''), (lit ''nft.set6'', lit ''bans6''),
         (lit ''metrics.listen'', lit ''127.0.0.1:9100'')]"
    by (rule parse_items) (simp_all add: item_eval)
  moreover have "set_list (lit ''bans4, bans4_24h ,bans4_7d'') = [lit ''bans4'', lit ''bans4_24h'', lit ''bans4_7d'']"
      "set_list (lit ''bans6'') = [lit ''bans6'']"
    by (simp_all add: set_list_def lit_def trim_def is_ws_def)
  ultimately show ?thesis
    by (simp add: l7_and_nft_and_metrics_and_user_directives_def directive_defs boolean_def listens
        addresses_read numbers_read unwrap_def config_default_def l7_config_default_def)
qed

lemma defaults_and_comments_and_unknown_passes: "defaults_and_comments_and_unknown = Some ()"
  by (simp add: defaults_and_comments_and_unknown_def config_eval config_default_def)

text \<open>The errors, line by line.\<close>

lemma single_line:
  assumes "lines [l] = render [(k, v)]" "item_ok (k, v)"
  shows "config_parse (lines [l]) = directive config_default k v 1"
  using parse_items [OF assms(1)] assms(2)
  by (simp split: sum.splits)

lemma errors_carry_line_numbers_passes: "errors_carry_line_numbers = Some ()"
proof -
  have "config_parse (lines [[], [], ''listen.udp.workers abc'']) =
      Inl \<lparr>ce_line = 3, ce_message = InvalidValue (lit ''abc'')\<rparr>"
    by (simp add: config_eval number_eval invalid_def utf8_def utf8_char_def)
  moreover have "config_parse (lines [''listen.udp notanaddr'']) = directive config_default (lit ''listen.udp'') (lit ''notanaddr'') 1"
    "config_parse (lines [''listen.tcp bad'']) = directive config_default (lit ''listen.tcp'') (lit ''bad'') 1"
    "config_parse (lines [''listen.tcp_udp bad'']) = directive config_default (lit ''listen.tcp_udp'') (lit ''bad'') 1"
    "config_parse (lines [''l7.enable maybe'']) = directive config_default (lit ''l7.enable'') (lit ''maybe'') 1"
    "config_parse (lines [''metrics.listen nope'']) = directive config_default (lit ''metrics.listen'') (lit ''nope'') 1"
    "config_parse (lines [''listen.udp.rcvbuf x'']) = directive config_default (lit ''listen.udp.rcvbuf'') (lit ''x'') 1"
    by (rule single_line; simp add: item_eval)+
  ultimately show ?thesis
    by (simp add: errors_carry_line_numbers_def directive_defs listens numbers_rejected boolean_def
        unwrap_err_def invalid_def)
qed

end
