(* ===== verification/Test_Metrics.thy ===== *)
theory Test_Metrics
  imports Metrics Test_Proto
begin

text \<open>The unit tests of crates/bf-metrics/src/lib.rs, run on the model.\<close>

definition counters_increment_and_render :: "unit option" where
  "counters_increment_and_render =
     do {
       let m = metrics_new;
       let m = inc UdpAnnounce m;
       let m = inc UdpAnnounce m;
       let m = inc L7Ban m;
       let text = metrics_render m \<lparr>g_torrents = 42, g_seeders = 30, g_leechers = 12, g_l7_tracked = 7,
         g_l7_offenders = 3\<rparr>;
       check (text_contains text (str ''# TYPE bf_udp_announces_total counter'' @ [10] @
         str ''bf_udp_announces_total 2'' @ [10]));
       check (text_contains text (str ''bf_l7_bans_total 1'' @ [10]));
       check (text_contains text (str ''bf_l7_bans_escalated_total 0'' @ [10]));
       check (text_contains text (str ''# TYPE bf_torrents gauge'' @ [10] @ str ''bf_torrents 42'' @ [10]));
       check (text_contains text (str ''# TYPE bf_seeders gauge'' @ [10] @ str ''bf_seeders 30'' @ [10]));
       check (text_contains text (str ''bf_leechers 12'' @ [10]));
       check (text_contains text (str ''bf_l7_tracked_sources 7'' @ [10]));
       check (text_contains text (str ''# TYPE bf_l7_offenders gauge'' @ [10] @ str ''bf_l7_offenders 3'' @ [10]))
     }"

text \<open>The loop of the second test, over the counters still to be incremented.\<close>

fun address_counters :: "metrics \<Rightarrow> counter list \<Rightarrow> metrics option" where
  "address_counters m [] = Some m"
| "address_counters m (c # cs) =
     do {
       let m = inc c m;
       check (field c m = 1);
       address_counters m cs
     }"

definition every_counter_is_addressable :: "unit option" where
  "every_counter_is_addressable =
     do {
       let m = metrics_new;
       m \<leftarrow> address_counters m [UdpAnnounce, UdpScrape, UdpConnect, UdpConnidMismatch, UdpDropped,
         HttpAnnounce, HttpScrape, Error, L7Flagged, L7Ban, L7BanEscalated, NftError];
       Some ()
     }"

section \<open>The tests pass\<close>

lemma every_counter_is_addressable_passes: "every_counter_is_addressable = Some ()"
  by (simp add: every_counter_is_addressable_def inc_def metrics_new_def Let_def)

text \<open>The exposition is made of samples, and contains each of them.\<close>

definition samples :: "(string \<times> string \<times> u64) list \<Rightarrow> bytes" where
  "samples ss = concat (map (\<lambda>(kind, name, v). sample kind name v) ss)"

lemma contains_part: "text_contains (a @ pat @ b) pat"
proof (induction a)
  case Nil
  have "text_starts_with (pat @ b) pat" by (simp add: text_starts_with_def)
  then show ?case by (cases "pat @ b") (auto simp: text_starts_with_def)
qed simp

lemma contains_sample:
  assumes "(kind, name, v) \<in> set ss"
  shows "text_contains (samples ss)
      (str ''# TYPE '' @ str name @ str '' '' @ str kind @ [10] @ str name @ str '' '' @ dec (unat v) @ [10])"
    and "text_contains (samples ss) (str name @ str '' '' @ dec (unat v) @ [10])"
proof -
  obtain xs ys where "ss = xs @ (kind, name, v) # ys" using assms by (meson split_list)
  then have s: "samples ss = samples xs @ sample kind name v @ samples ys"
    by (simp add: samples_def)
  show "text_contains (samples ss)
      (str ''# TYPE '' @ str name @ str '' '' @ str kind @ [10] @ str name @ str '' '' @ dec (unat v) @ [10])"
    unfolding s sample_def [symmetric] by (rule contains_part)
  show "text_contains (samples ss) (str name @ str '' '' @ dec (unat v) @ [10])"
    using contains_part [of "samples xs @ str ''# TYPE '' @ str name @ str '' '' @ str kind @ [10]"
      "str name @ str '' '' @ dec (unat v) @ [10]" "samples ys"]
    unfolding s sample_def by simp
qed

lemma counters_increment_and_render_passes: "counters_increment_and_render = Some ()"
proof -
  let ?m = "inc L7Ban (inc UdpAnnounce (inc UdpAnnounce metrics_new))"
  let ?g = "\<lparr>g_torrents = 42, g_seeders = 30, g_leechers = 12, g_l7_tracked = 7, g_l7_offenders = 3\<rparr>"
  let ?ss = "map (\<lambda>(name, c). (''counter'', name, field c ?m)) COUNTERS @
    map (\<lambda>(name, v). (''gauge'', name, v)) (GAUGES ?g)"
  have render: "metrics_render ?m ?g = samples ?ss"
    by (simp add: metrics_render_def samples_def COUNTERS_def GAUGES_def)
  have mem: "(''counter'', ''bf_udp_announces_total'', 2) \<in> set ?ss" "(''counter'', ''bf_l7_bans_total'', 1) \<in> set ?ss"
    "(''counter'', ''bf_l7_bans_escalated_total'', 0) \<in> set ?ss" "(''gauge'', ''bf_torrents'', 42) \<in> set ?ss"
    "(''gauge'', ''bf_seeders'', 30) \<in> set ?ss" "(''gauge'', ''bf_leechers'', 12) \<in> set ?ss"
    "(''gauge'', ''bf_l7_tracked_sources'', 7) \<in> set ?ss" "(''gauge'', ''bf_l7_offenders'', 3) \<in> set ?ss"
    by (simp_all add: COUNTERS_def GAUGES_def)
  note c = mem [THEN contains_sample(1)] mem [THEN contains_sample(2)]
  show ?thesis
    using c by (simp add: counters_increment_and_render_def render dec_eval str_def del: dec.simps)
qed

end
