(* ===== verification/Test_Daemon.thy ===== *)
theory Test_Daemon
  imports Daemon Startup Test_Udp
begin

text \<open>
  The integration test crates/bluefrog/tests/udp_roundtrip.rs on the model of the daemon: it starts
  from a configuration text with every system call granted, and the network delivers each datagram
  to a worker and its answer back. The port, the keyed hash, the random numbers, the clock and the
  iteration orders are arbitrary.
\<close>

text \<open>The text that \<open>spawn_daemon\<close> writes for the port it found.\<close>

definition it_config :: "u16 \<Rightarrow> codes" where
  "it_config port = lit ''listen.udp 127.0.0.1:'' @ num (unat port) @ [10] @ lit ''l7.enable 1'' @ [10]"

definition spawn_daemon :: "os \<Rightarrow> u16 \<Rightarrow> bytes \<Rightarrow> u64 \<Rightarrow> shared option" where
  "spawn_daemon os port random_key now =
     (case start_main os (\<lambda>path. Some (it_config port)) (Some (lit ''cfg'')) random_key now of
        Ran w sh tr ok \<Rightarrow> if ok then Some sh else None
      | _ \<Rightarrow> None)"

definition LOCALHOST :: ip_addr where "LOCALHOST = IpV4 [127, 0, 0, 1]"

definition it_connect ::
  "mac \<Rightarrow> peer_order \<Rightarrow> client_order \<Rightarrow> offender_order \<Rightarrow> shared \<Rightarrow> bytes \<Rightarrow> u32 \<Rightarrow> u32 \<Rightarrow>
    (shared \<times> bytes \<times> u64) option" where
  "it_connect mac op oc oo sh out txid rnd =
     do {
       let pkt = replicate 16 0;
       pkt \<leftarrow> copy_into pkt 0 8 (u64_be PROTOCOL_ID);
       pkt \<leftarrow> copy_into pkt 12 16 (u32_be txid);
       (sh, out, sent) \<leftarrow> udp_worker mac op oc oo sh out pkt LOCALHOST rnd;
       resp \<leftarrow> sent;
       check (length resp = 16);
       b \<leftarrow> slice resp 0 4;
       check (b = u32_be 0);
       b \<leftarrow> slice resp 4 8;
       check (b = u32_be txid);
       b \<leftarrow> slice resp 8 16;
       Some (sh, out, from_be b)
     }"

definition connect_and_announce_end_to_end ::
  "os \<Rightarrow> mac \<Rightarrow> peer_order \<Rightarrow> client_order \<Rightarrow> offender_order \<Rightarrow> u16 \<Rightarrow> bytes \<Rightarrow> u64 \<Rightarrow> u32 \<Rightarrow> u32 \<Rightarrow> unit option" where
  "connect_and_announce_end_to_end os mac op oc oo port random_key now rnd1 rnd2 =
     do {
       sh \<leftarrow> spawn_daemon os port random_key now;
       (sh, out, cid) \<leftarrow> it_connect mac op oc oo sh [] 0xabcd1234 rnd1;
       let pkt = replicate 98 0;
       pkt \<leftarrow> copy_into pkt 0 8 (u64_be cid);
       pkt \<leftarrow> copy_into pkt 8 12 (u32_be 1);
       pkt \<leftarrow> copy_into pkt 12 16 (u32_be 0x11112222);
       pkt \<leftarrow> copy_into pkt 16 36 (replicate 20 0x33);
       pkt \<leftarrow> copy_into pkt 92 96 (u32_be (- 1));
       pkt \<leftarrow> copy_into pkt 96 98 (u16_be 6881);
       (sh, out, sent) \<leftarrow> udp_worker mac op oc oo sh out pkt LOCALHOST rnd2;
       resp \<leftarrow> sent;
       check (20 \<le> length resp);
       b \<leftarrow> slice resp 0 4;
       check (b = u32_be 1);
       b \<leftarrow> slice resp 4 8;
       check (b = u32_be 0x11112222);
       b \<leftarrow> slice resp 16 20;
       check (b = u32_be 1)
     }"

section \<open>The daemon starts\<close>

definition it_cfg :: "u16 \<Rightarrow> config" where
  "it_cfg port = config_default\<lparr>cf_udp_listen := [SockV4 [127, 0, 0, 1] port], cf_l7_enable := True\<rparr>"

lemma it_config_parse: "config_parse (it_config port) = Inr (it_cfg port)"
proof -
  let ?items = "[(lit ''listen.udp'', print_socket (SockV4 [127, 0, 0, 1] port)), (lit ''l7.enable'', lit ''1'')]"
  have v4: "socket_ok (SockV4 [127, 0, 0, 1] port)" by simp
  have "print_socket (SockV4 [127, 0, 0, 1] port) = lit ''127.0.0.1:'' @ num (unat port)"
    by (simp add: print_socket_def print_v4_def dec.simps lit_def num_def)
  then have "it_config port = render ?items"
    by (simp add: it_config_def render_def lit_def)
  moreover have "\<forall>kv \<in> set ?items. item_ok kv"
    using key_ok_known [of "''listen.udp''"] key_ok_known [of "''l7.enable''"] value_ok_socket [of "SockV4 [127, 0, 0, 1] port"]
    by (simp add: item_ok_def known_keys_def) (simp add: value_ok_def lit_def is_ws_def)
  ultimately have "config_parse (it_config port) = directives config_default 0 ?items"
    by (simp only: parse_render)
  also have "\<dots> = Inr (it_cfg port)"
    using listen_print [OF v4]
    by (simp add: directive_simps boolean_def it_cfg_def config_default_def)
  finally show ?thesis .
qed

lemma exec_granted: "\<forall>h. os h \<Longrightarrow> snd (exec os hist cs)"
  by (induction cs arbitrary: hist) auto

lemma daemon_spawned:
  assumes "\<forall>h. os h"
  shows "spawn_daemon os port random_key now = Some (build_shared (it_cfg port) random_key now)"
  using exec_granted [OF assms, of "[]" "run_calls (it_cfg port)"]
  by (cases "exec os [] (run_calls (it_cfg port))")
    (simp add: spawn_daemon_def start_main_def it_config_parse run_daemon_def lit_def)

section \<open>The round trip\<close>

definition it_packet :: "u64 \<Rightarrow> bytes" where
  "it_packet cid = u64_be cid @ u32_be 1 @ u32_be 0x11112222 @ replicate 20 0x33 @ replicate 56 0 @
     u32_be (- 1) @ u16_be 6881"

definition it_request :: "u64 \<Rightarrow> announce" where
  "it_request cid =
     \<lparr>an_connection_id = cid, an_transaction_id = 0x11112222, an_info_hash = replicate 20 0x33,
       an_peer_id = replicate 20 0, an_downloaded = 0, an_left = 0, an_uploaded = 0, an_event = EvNone,
       an_declared_ip = 0, an_key = 0, an_num_want = - 1, an_port = 6881\<rparr>"

lemma parse_it_packet: "parse (it_packet cid) = Some (Inr (Announce (it_request cid)))"
  by (simp add: it_packet_def parse_eq announce_fields_def it_request_def from_be_zeros from_udp_def)

lemma parse_it_connect:
  "parse (u64_be PROTOCOL_ID @ u32_be 0 @ u32_be tx) = Some (Inr (Connect tx))"
  by (simp add: parse_eq)

lemma handle_it_connect:
  "udp_handle mac ci op s (u64_be PROTOCOL_ID @ u32_be 0 @ u32_be tx) ip v now interval out =
     Some (s, u32_be 0 @ u32_be tx @ u64_be (generate mac ci ip now), Reply 16)"
  by (simp add: udp_handle_def parse_it_connect write_connect_eq)

definition LOCAL16 :: bytes where "LOCAL16 = ip_to_16 LOCALHOST"

lemma LOCAL [simp]: "length LOCAL16 = 16" "ip_ok LOCALHOST" "canonical_ip LOCALHOST = LOCALHOST"
  "is_ipv4 LOCALHOST" "ip_to_16 LOCALHOST = LOCAL16"
  by (simp_all add: LOCAL16_def LOCALHOST_def to_ipv6_mapped_def mapped_prefix_def)

lemma handle_it_packet:
  assumes "iteration_order op"
  shows "\<exists>s ps. udp_handle mac ci op store_new (it_packet (generate mac ci LOCAL16 now)) LOCAL16 True now interval out =
    Some (s, u32_be 1 @ u32_be 0x11112222 @ u32_be interval @ u32_be 0 @ u32_be 1 @ ps, Reply (20 + length ps))"
  by (simp add: udp_handle_def parse_it_packet it_request_def udp_apply_announce_def key_eq test_eval
      udp_flags_def numwant_def numwant_defs write_compact_eq write_header test_ops handout_one [OF assms])

text \<open>The worker answers what the handler answers, whatever the detector does.\<close>

lemma worker_answers:
  assumes "store_ok (sh_store sh)" "detector_ok (sh_detector sh)"
    and "iteration_order op" "iteration_order oc" "iteration_order oo" "length dg \<le> UDP_BUF"
    and "udp_handle mac (sh_connid sh) op (sh_store sh) dg LOCAL16 True (sh_clock sh) (1620 + rnd) out = Some (s', out', act)"
  shows "\<exists>sh'. udp_worker mac op oc oo sh out dg LOCALHOST rnd = Some (sh', out', sent_bytes act out') \<and>
    sh_store sh' = s' \<and> detector_ok (sh_detector sh') \<and> sh_connid sh' = sh_connid sh \<and> sh_clock sh' = sh_clock sh"
proof -
  have t: "take UDP_BUF dg = dg" using assms(6) by simp
  obtain parsed s1 out1 act1 d' v where w:
    "udp_handle mac (sh_connid sh) op (sh_store sh) dg LOCAL16 True (sh_clock sh) (1620 + rnd) out = Some (s1, out1, act1)"
    "fed (cf_l7_enable (sh_config sh)) (sh_detector sh) LOCAL16 (to_u32_sat (sh_clock sh))
      (feed_event parsed LOCALHOST act1 out1) d' v"
    "udp_worker mac op oc oo sh out dg LOCALHOST rnd =
      Some (apply_verdict (sh\<lparr>sh_store := s1, sh_metrics := record_udp_metric (sh_metrics sh) parsed act1,
        sh_detector := d'\<rparr>) LOCALHOST v, out1, sent_bytes act1 out1)"
    by (rule udp_worker_spec [OF assms(1,2) LOCAL(2) assms(3-5), of dg mac rnd out]) (simp add: t)
  with assms(7) fed_ok [OF w(2) assms(2)] show ?thesis by simp
qed

lemma connect_and_announce_end_to_end_passes:
  assumes "\<forall>h. os h" "iteration_order op" "iteration_order oc" "iteration_order oo"
  shows "connect_and_announce_end_to_end os mac op oc oo port random_key now rnd1 rnd2 = Some ()"
proof -
  let ?sh = "build_shared (it_cfg port) random_key now"
  let ?cid = "generate mac (sh_connid ?sh) LOCAL16 now"
  let ?conn = "u64_be PROTOCOL_ID @ u32_be 0 @ u32_be 0xabcd1234"
  let ?out = "u32_be 0 @ u32_be 0xabcd1234 @ u64_be ?cid"
  have sh: "sh_store ?sh = store_new" "sh_clock ?sh = now" "detector_ok (sh_detector ?sh)"
    by (simp_all add: build_shared_def detector_ok_new)
  obtain sh1 where 1: "udp_worker mac op oc oo ?sh [] ?conn LOCALHOST rnd1 = Some (sh1, ?out, Some ?out)"
    "sh_store sh1 = store_new" "detector_ok (sh_detector sh1)" "sh_connid sh1 = sh_connid ?sh" "sh_clock sh1 = now"
    using worker_answers [OF _ sh(3) assms(2-4), of ?conn mac rnd1 "[]"] sh store_ok_new
    by (auto simp: handle_it_connect UDP_BUF_def sent_bytes_def)
  obtain s ps where a: "udp_handle mac (sh_connid sh1) op store_new (it_packet ?cid) LOCAL16 True now (1620 + rnd2) ?out =
      Some (s, u32_be 1 @ u32_be 0x11112222 @ u32_be (1620 + rnd2) @ u32_be 0 @ u32_be 1 @ ps, Reply (20 + length ps))"
    using handle_it_packet [OF assms(2)] 1(4) by metis
  have "length (it_packet ?cid) \<le> UDP_BUF" by (simp add: it_packet_def UDP_BUF_def)
  then obtain sh2 where 2: "udp_worker mac op oc oo sh1 ?out (it_packet ?cid) LOCALHOST rnd2 =
      Some (sh2, u32_be 1 @ u32_be 0x11112222 @ u32_be (1620 + rnd2) @ u32_be 0 @ u32_be 1 @ ps,
        Some (u32_be 1 @ u32_be 0x11112222 @ u32_be (1620 + rnd2) @ u32_be 0 @ u32_be 1 @ ps))"
    using worker_answers [OF _ 1(3) assms(2-4), of "it_packet ?cid" mac rnd2 ?out] 1(2,5) store_ok_new a
    by (auto simp: sent_bytes_def)
  have "replicate 4 0 = u32_be 0" by code_simp
  with 1(1) 2 show ?thesis
    by (simp add: connect_and_announce_end_to_end_def daemon_spawned [OF assms(1)] it_connect_def copy_into_def
        slice_def it_packet_def)
qed

end
