(* ===== verification/Spec2Isabelle.thy ===== *)
theory Spec2Isabelle
  imports Prelude Machine Core Connid Store Store_Props Store_Sweep Store_Spec Store_Claims
    Proto_Udp Proto_Udp_Spec Bencode Udp_Handler Tracker_Claims Http_Query Http_Handler
    L7 L7_Props L7_Detector L7_Safety L7_Honest Net_Addr Net_Addr_V6 Config Config_Props
    Metrics Nft Source_Addr Runtime Daemon Daemon_Claims Startup
    Checked Store_Checked L7_Checked Http_Loop L7_Halves L7_Persistent Daemon_Types Requests
    Workers Workers_Props Workers_Claims Requests_Claims Build_Version
    Test_Core Test_Store Test_Proto Test_Udp Test_Http Test_L7 Test_L7_Flow Test_Config Test_Metrics Test_Daemon
begin

text \<open>
  Verification of bluefrog, a BitTorrent tracker in Rust.

  \<^bold>\<open>The program.\<close> A datagram reaches the UDP worker of crates/bluefrog, which un-maps the source
  address, parses the datagram once (crates/bf-proto), lets the handler of crates/bf-udp answer it
  from the connection ids and the store of crates/bf-core, counts it (crates/bf-metrics), and feeds
  it to the detector of crates/bf-l7, whose bans go to an nft set (crates/bf-nft). HTTP requests
  take the same store through crates/bf-http and the bencode writer. A clock task and a sweep task
  run beside them. crates/bf-config reads the settings.

  \<^bold>\<open>Theories and code.\<close>
  \<^item> Prelude: words read as numbers, saturating arithmetic, big-endian bytes, slices that may panic,
    hash tables as association lists behind the locale \<open>table\<close>, eviction from a bounded table.
  \<^item> Machine: state machines behind the locales \<open>machine\<close> (an invariant), \<open>live_machine\<close> (never
    stuck), \<open>refinement\<close> and its special case \<open>simulation\<close>; the store is interpreted as a simulation
    of the abstract tracker, the detector as a machine, the daemon as a refinement of the tracker.
  \<^item> Core, Connid: bf-core/src/lib.rs and connid.rs. The locale \<open>connid_scheme\<close> is what a client
    of the ids relies on.
  \<^item> Store (definitions), Store_Props (one peer list and one torrent; the locale \<open>family\<close> covers
    the IPv4 and IPv6 operations once), Store_Sweep (steps, runs, totals), Store_Spec (the abstract
    tracker and the abstraction \<open>view\<close>), Store_Claims: bf-core/src/store.rs.
  \<^item> Proto_Udp, Proto_Udp_Spec: bf-proto/src/udp.rs, against an independent BEP-15 encoder and a
    client's decoder. Bencode: bf-proto/src/bencode.rs, against a bencode reader.
  \<^item> Udp_Handler: bf-udp/src/lib.rs; Tracker_Claims: what it and the store together promise to
    clients. Http_Query, Http_Handler: bf-http/src/lib.rs.
  \<^item> L7 (definitions), L7_Props (decay), L7_Detector (the locale \<open>source_event\<close> shared by the four
    handlers), L7_Safety (the detector as a state machine), L7_Honest (well-behaved sources):
    bf-l7/src/lib.rs.
  \<^item> Net_Addr: the address parser of the standard library; Net_Addr_V6: sockets of both families
    printed, with the elided zero run of IPv6, and read back. Config, Config_Props: bf-config/src/lib.rs.
  \<^item> Metrics: bf-metrics/src/lib.rs. Nft: bf-nft/src/sink.rs.
  \<^item> Source_Addr, Runtime (definitions), Daemon (the step relation and its invariants),
    Daemon_Claims, Startup (\<open>main\<close> and \<open>run\<close> as lists of system calls that end at the first
    refused one): bluefrog/src/main.rs. Daemon_Types: the type invariant of the daemon's state.
  \<^item> Requests (HTTP requests at the grain of single lock and atomic accesses), Workers (the UDP
    workers at that grain, and the system of all workers, requests and background tasks),
    Workers_Props (its invariant and what a worker's own steps compute), Workers_Claims and
    Requests_Claims (answers, replies, steps, and that the one-step worker of Daemon is among the runs of the fine-grained one).
  \<^item> Checked, Store_Checked, L7_Checked: the arithmetic of a debug build, where an overflow panics,
    and the operations of the store and of the scores written with it.
  \<^item> Http_Loop: the percent decoder as the \<open>while\<close> of the source. L7_Halves (a
    detector handler as its part under the client lock and its part under the registry lock),
    L7_Persistent (a source that goes on after its ban ended).
  \<^item> Build_Version: bluefrog/build.rs and the sink's stub for other systems (bf-nft/src/sink.rs).
  \<^item> Test_Core, Test_Store, Test_Proto, Test_Udp, Test_Http, Test_L7, Test_L7_Flow, Test_Config,
    Test_Metrics: the unit tests of the crates as scripts over the model, an assertion that fails
    being \<open>None\<close>; each is shown to pass (or to panic, for the tests that expect it). Test_Daemon:
    the integration test bluefrog/tests/udp_roundtrip.rs. Where a test relies on the hash, on the
    order of a hash table or on integer formatting, the lemma names that as a hypothesis.

  \<^bold>\<open>Conventions.\<close> Machine integers are words with the wrap-around of a release build; a panic is
  \<open>None\<close>; an error of the code is \<open>Inl\<close>. State behind locks is passed explicitly. A hash table is
  an association list without duplicate keys, and wherever the code iterates one, the order is an
  argument about which only \<open>iteration_order\<close> (a permutation) is assumed. A handler holds one lock
  at a time, so the steps of the store are single operations and the sweep of one shard. The state
  machine of Daemon takes a datagram, a request, a clock update, a shard sweep or a ban job in one
  step. Requests and Workers refine it: each UDP worker and each HTTP request is a small program of
  its own whose steps are one access to a lock or to an atomic each, and these steps interleave
  freely with each other and with the clock, the sweeps and the ban jobs, which stay one step each.

  \<^bold>\<open>What the lemmas show.\<close> The store refines the abstract tracker for every interleaving, loses no
  peer and counts each completion of either address family once; a sweep drops exactly what timed
  out, and the totals are exact. Two clients of a torrent and family find each other when the
  answer has room for the swarm. Parsing is total and its outcome is characterised by the datagram,
  the codecs are read back by independent readers, both protocols act alike on the store. Sources
  without a valid connection id leave the store unchanged and are not amplified; an id holds for its
  own address and two windows, as long as the keyed hash does not collide. A configuration is
  expressible exactly when some file parses to it, and is then read back from its printed form. The detector stays bounded, bans exactly by its rule, escalates
  tier by tier, spares polite sources, and bans a source again that goes on abusing
  after its cooldown. The daemon never panics in a reachable state, and its bans end in the
  set of the right family and tier. Whatever the interleaving of single accesses, every answer and
  every HTTP reply is the handler's at one moment between the arrival and the reply (that of a
  scrape, for each hash the counts of one such moment), and every datagram and request is done after
  a bounded number of its own accesses; locks and sends are atomic steps of the model, so the time
  spent waiting for them is not covered. In a debug build the operations of the store, up to a number of
  them no deployment reaches, and the scoring of announces do what they do in a release build. The unit and integration tests
  pass on the model. Several theorems show where the code departs from its comments:
  \<open>handshake_defeats_fast_gate\<close>, \<open>unproven_datagrams_ban\<close>, \<open>metrics_refuse_mapped_loopback\<close>,
  \<open>sample_config_rejected\<close>, \<open>completed_torrent_kept\<close>, \<open>announce_fed_with_swarm_size\<close>,
  \<open>answers_ignore_detector\<close>, \<open>ban_rule\<close>, \<open>detector_bounded\<close>.

  \<^bold>\<open>Bounds and fuel.\<close> All model functions are total recursions, the percent decoder of Http_Loop
  apart, whose \<open>while\<close> ends because every round gives up or consumes at least one byte. Only the
  bencode reader, which is part of the checking and not of the program, takes fuel: \<open>read_body\<close>
  gives it one more than the number of bytes, and every reading step consumes at least one. A worker needs at most
  84 steps of its own for a datagram: a scrape reads at most 75 hashes, one lock each, and the
  remaining steps are the counters, the two halves of the detector, the ban job and the answer. A
  request needs five, and one per pair of a scrape's query. The counters of a debug build are
  followed for \<open>2 ^ 62\<close> operations, below the \<open>2 ^ 64\<close> they can hold. The invariant of the store puts
  no bound on the number of peers or swarms: its counters are words, compared with the lengths of
  the lists as words are, modulo their width.

  \<^bold>\<open>Parameters.\<close> The keyed hash (crate blake3) is \<open>mac\<close>; integer formatting (crate itoa) is
  \<open>itoa\<close>, assumed decimal by \<open>itoa_decimal\<close>; the netlink write (crate rustables) is \<open>netlink\<close>; which
  header values the HTTP library accepts is \<open>header_ok\<close>; which calls the operating system refuses is
  \<open>os\<close>, and \<open>read_file\<close> is the file system; random parts of intervals are arguments.

  \<^bold>\<open>Not modelled.\<close> Reading and writing on sockets, the task runtime, the HTTP library, signals and
  log lines (I/O only); the wording of configuration errors; the accesses inside one metrics scrape,
  which only reads; weak memory orderings (the atomics are counters and a
  clock, read and written one at a time); tests that only exercise derived traits; deployment files.
\<close>

end
